(* ===== verification/Prelude.thy ===== *)
theory Prelude
  imports Main "HOL-Library.Word"
begin

text \<open>
  Shared vocabulary of the development: the machine integers of the C sources as words, the
  test of a flag word against a mask, the error numbers of \<^verbatim>\<open>sys/errno.h\<close>
  that the modelled code returns, and the generic lemmas on words, lists and maps that the
  component theories use.
\<close>

unbundle bit_operations_syntax

type_synonym u8 = "8 word"
type_synonym u16 = "16 word"
type_synonym u32 = "32 word"
type_synonym u64 = "64 word"

named_theorems flag_simps "a flag test as the value of a single bit"
named_theorems kq_defs "definitions of the record operations on a kqueue"

section \<open>Error numbers\<close>

abbreviation ENOENT :: int where "ENOENT \<equiv> 2"
abbreviation ESRCH :: int where "ESRCH \<equiv> 3"
abbreviation EINTR :: int where "EINTR \<equiv> 4"
abbreviation ENXIO :: int where "ENXIO \<equiv> 6"
abbreviation EBADF :: int where "EBADF \<equiv> 9"
abbreviation ENOMEM :: int where "ENOMEM \<equiv> 12"
abbreviation EFAULT :: int where "EFAULT \<equiv> 14"
abbreviation EBUSY :: int where "EBUSY \<equiv> 16"
abbreviation EEXIST :: int where "EEXIST \<equiv> 17"
abbreviation EINVAL :: int where "EINVAL \<equiv> 22"
abbreviation ENOTTY :: int where "ENOTTY \<equiv> 25"
abbreviation EAGAIN :: int where "EAGAIN \<equiv> 35"
abbreviation EWOULDBLOCK :: int where "EWOULDBLOCK \<equiv> 35"
abbreviation EOPNOTSUPP :: int where "EOPNOTSUPP \<equiv> 45"
abbreviation ERESTART :: int where "ERESTART \<equiv> -1"

section \<open>Flag words\<close>

text \<open>\<open>x & m\<close> used as a truth value.\<close>

definition fl :: "'a::len word \<Rightarrow> 'a word \<Rightarrow> bool" where
  "fl x m \<longleftrightarrow> x AND m \<noteq> 0"

lemma fl_bit: "m = 2 ^ n \<Longrightarrow> fl x m = bit x n"
  by (simp add: fl_def and_exp_eq_0_iff_not_bit)

lemma fl_or: "fl (x OR y) m \<longleftrightarrow> fl x m \<or> fl y m"
  by (simp add: fl_def bit.conj_disj_distrib2 or_eq_0_iff)

lemma fl_zero [simp]: "\<not> fl 0 m" "\<not> fl x 0"
  by (simp_all add: fl_def)

section \<open>Lists and maps\<close>

lemma distinct_hd_notin: "distinct (x # xs) \<Longrightarrow> x \<notin> set xs"
  by simp

lemma map_option_upd_eq_Some:
  "((m(k := map_option f (m k))) j = Some y) \<longleftrightarrow>
   (if j = k then \<exists>x. m k = Some x \<and> y = f x else m j = Some y)"
  by auto

lemma length_filter_remove1:
  "x \<in> set xs \<Longrightarrow> P x \<Longrightarrow> Suc (length (filter P (remove1 x xs))) = length (filter P xs)"
  by (induction xs) auto

section \<open>Division\<close>

text \<open>The quotient and the remainder of C, which round towards zero.\<close>

definition cdiv :: "int \<Rightarrow> int \<Rightarrow> int" where
  "cdiv a b = sgn a * sgn b * (\<bar>a\<bar> div \<bar>b\<bar>)"

definition cmod :: "int \<Rightarrow> int \<Rightarrow> int" where
  "cmod a b = a - b * cdiv a b"

lemma cdiv_pos: "0 \<le> a \<Longrightarrow> 0 < b \<Longrightarrow> cdiv a b = a div b"
  by (cases "a = 0") (simp_all add: cdiv_def)

lemma cmod_pos: "0 \<le> a \<Longrightarrow> 0 < b \<Longrightarrow> cmod a b = a mod b"
  by (simp add: cmod_def cdiv_pos minus_mult_div_eq_mod)

end
