(* ===== verification/Knote.thy ===== *)
theory Knote
  imports Prelude
begin

text \<open>
  The data of the kernel event queue (\<^verbatim>\<open>sys/sys/event.h\<close>,
  \<^verbatim>\<open>sys/sys/eventvar.h\<close>) and the operations of
  \<^verbatim>\<open>sys/kern/kern_event.c\<close> that work on one kqueue only: the pending
  queue, the two knote tables, activation, the flux counter.

  A \<^verbatim>\<open>struct knote *\<close> is a number into the heap \<open>kq_notes\<close> of its
  kqueue.  The status word of a knote and the state word of a kqueue, which only the kernel
  sets and whose bits are all distinct, are sets of named flags; the words that come from
  the user (\<open>flags\<close>, \<open>fflags\<close>) stay words.
\<close>

section \<open>Events\<close>

record kevent =
  ke_ident :: u64
  ke_filter :: int
  ke_flags :: u16
  ke_fflags :: u32
  ke_data :: u64
  ke_udata :: u64
  ke_ext :: "u64 list"

abbreviation EVFILT_READ :: int where "EVFILT_READ \<equiv> -1"
abbreviation EVFILT_WRITE :: int where "EVFILT_WRITE \<equiv> -2"
abbreviation EVFILT_PROC :: int where "EVFILT_PROC \<equiv> -5"
abbreviation EVFILT_TIMER :: int where "EVFILT_TIMER \<equiv> -7"
abbreviation EVFILT_USER :: int where "EVFILT_USER \<equiv> -11"
abbreviation EVFILT_EMPTY :: int where "EVFILT_EMPTY \<equiv> -13"
abbreviation EVFILT_SYSCOUNT :: int where "EVFILT_SYSCOUNT \<equiv> 13"

abbreviation EV_ADD :: u16 where "EV_ADD \<equiv> 0x0001"
abbreviation EV_DELETE :: u16 where "EV_DELETE \<equiv> 0x0002"
abbreviation EV_ENABLE :: u16 where "EV_ENABLE \<equiv> 0x0004"
abbreviation EV_DISABLE :: u16 where "EV_DISABLE \<equiv> 0x0008"
abbreviation EV_ONESHOT :: u16 where "EV_ONESHOT \<equiv> 0x0010"
abbreviation EV_CLEAR :: u16 where "EV_CLEAR \<equiv> 0x0020"
abbreviation EV_RECEIPT :: u16 where "EV_RECEIPT \<equiv> 0x0040"
abbreviation EV_DISPATCH :: u16 where "EV_DISPATCH \<equiv> 0x0080"
abbreviation EV_FORCEONESHOT :: u16 where "EV_FORCEONESHOT \<equiv> 0x0100"
abbreviation EV_SYSFLAGS :: u16 where "EV_SYSFLAGS \<equiv> 0xF000"
abbreviation EV_DROP :: u16 where "EV_DROP \<equiv> 0x1000"
abbreviation EV_FLAG1 :: u16 where "EV_FLAG1 \<equiv> 0x2000"
abbreviation EV_FLAG2 :: u16 where "EV_FLAG2 \<equiv> 0x4000"
abbreviation EV_ERROR :: u16 where "EV_ERROR \<equiv> 0x4000"
abbreviation EV_EOF :: u16 where "EV_EOF \<equiv> 0x8000"

text \<open>The macro \<^verbatim>\<open>EV_SET\<close>.\<close>

definition EV_SET :: "u64 \<Rightarrow> int \<Rightarrow> u16 \<Rightarrow> u32 \<Rightarrow> u64 \<Rightarrow> u64 \<Rightarrow> kevent" where
  "EV_SET a b c d e f =
     \<lparr>ke_ident = a, ke_filter = b, ke_flags = c, ke_fflags = d, ke_data = e, ke_udata = f,
      ke_ext = [0, 0, 0, 0]\<rparr>"

section \<open>Filters, knotes and kqueues\<close>

text \<open>
  The addresses of the \<^verbatim>\<open>struct filterops\<close> tables: the ones the system
  filter table starts with and the ones the attach routines of files install.
\<close>

datatype filtop =
    File_filtops | Kqread_filtops | Proc_filtops | Timer_filtops | User_filtops
  | Null_filtops | Sig_filtops | Fs_filtops
  | Eventfd_rfiltops | Eventfd_wfiltops
  | Soread_filtops | Sowrite_filtops | Soempty_filtops

text \<open>The members \<open>f_isfd\<close> and \<open>f_touch != NULL\<close> of the tables.\<close>

fun f_isfd :: "filtop \<Rightarrow> bool" where
  "f_isfd File_filtops = True"
| "f_isfd Kqread_filtops = True"
| "f_isfd Eventfd_rfiltops = True"
| "f_isfd Eventfd_wfiltops = True"
| "f_isfd Soread_filtops = True"
| "f_isfd Sowrite_filtops = True"
| "f_isfd Soempty_filtops = True"
| "f_isfd _ = False"

fun f_has_touch :: "filtop \<Rightarrow> bool" where
  "f_has_touch Timer_filtops = True"
| "f_has_touch User_filtops = True"
| "f_has_touch _ = False"

text \<open>A knote list: the one inside a kqueue's \<open>kq_sel\<close>, or one of another kernel object.\<close>

datatype knlid =
    Knl_kq nat | Knl_efd nat | Knl_sord nat | Knl_sowr nat | Knl_proc nat | Knl_fs

datatype knflag =
  KN_ACTIVE | KN_QUEUED | KN_DISABLED | KN_DETACHED | KN_MARKER | KN_KQUEUE | KN_SCAN

datatype kqflag =
  KQ_SEL | KQ_SLEEP | KQ_FLUXWAIT | KQ_ASYNC | KQ_CLOSING | KQ_TASKSCHED | KQ_TASKDRAIN

record knote =
  kn_kevent :: kevent
  kn_fop :: filtop
  kn_status :: "knflag set"
  kn_influx :: nat
  kn_sfflags :: u32
  kn_sdata :: u64
  kn_hook :: "nat option"
  kn_hookid :: int
  kn_knlist :: "knlid option"
  kn_fp :: "nat option"
  kn_proc :: "nat option"
  kn_next :: int
  kn_to :: int

abbreviation kn_id :: "knote \<Rightarrow> u64" where "kn_id kn \<equiv> ke_ident (kn_kevent kn)"
abbreviation kn_filter :: "knote \<Rightarrow> int" where "kn_filter kn \<equiv> ke_filter (kn_kevent kn)"
abbreviation kn_flags :: "knote \<Rightarrow> u16" where "kn_flags kn \<equiv> ke_flags (kn_kevent kn)"
abbreviation kn_fflags :: "knote \<Rightarrow> u32" where "kn_fflags kn \<equiv> ke_fflags (kn_kevent kn)"
abbreviation kn_data :: "knote \<Rightarrow> u64" where "kn_data kn \<equiv> ke_data (kn_kevent kn)"

text \<open>An entry of the pending queue: a knote, or the marker of a scan in progress.\<close>

datatype qent = QNote nat | QMark nat

fun is_QNote :: "qent \<Rightarrow> bool" where
  "is_QNote (QNote _) = True"
| "is_QNote (QMark _) = False"

record kqueue =
  kq_refcnt :: int
  kq_head :: "qent list"
  kq_count :: int
  kq_selwait :: bool
  kq_si_note :: "(nat \<times> nat) list"
  kq_state :: "kqflag set"
  kq_knlistsize :: nat
  kq_knlist :: "nat \<Rightarrow> nat list"
  kq_knhashmask :: u64
  kq_knhash :: "nat \<Rightarrow> nat list"
  kq_notes :: "nat \<rightharpoonup> knote"
  kq_fresh :: nat

definition KN_HASH :: "u64 \<Rightarrow> u64 \<Rightarrow> nat" where
  "KN_HASH v msk = unat ((v XOR drop_bit 8 v) AND msk)"

text \<open>A zeroed knote, what \<^verbatim>\<open>uma_zalloc(knote_zone, M_ZERO)\<close> returns.\<close>

definition zero_knote :: knote where
  "zero_knote =
     \<lparr>kn_kevent = EV_SET 0 0 0 0 0 0, kn_fop = Null_filtops, kn_status = {}, kn_influx = 0,
      kn_sfflags = 0, kn_sdata = 0, kn_hook = None, kn_hookid = 0, kn_knlist = None,
      kn_fp = None, kn_proc = None, kn_next = 0, kn_to = 0\<rparr>"

text \<open>Reading through a knote pointer, and writing through one.\<close>

definition kn_at :: "kqueue \<Rightarrow> nat \<Rightarrow> knote" where
  "kn_at kq k = (case kq_notes kq k of Some kn \<Rightarrow> kn | None \<Rightarrow> zero_knote)"

definition kn_upd :: "nat \<Rightarrow> (knote \<Rightarrow> knote) \<Rightarrow> kqueue \<Rightarrow> kqueue" where
  "kn_upd k f kq = kq\<lparr>kq_notes := (kq_notes kq)(k := map_option f (kq_notes kq k))\<rparr>"

definition st_set :: "knflag set \<Rightarrow> knote \<Rightarrow> knote" where
  "st_set F kn = kn\<lparr>kn_status := kn_status kn \<union> F\<rparr>"

definition st_clr :: "knflag set \<Rightarrow> knote \<Rightarrow> knote" where
  "st_clr F kn = kn\<lparr>kn_status := kn_status kn - F\<rparr>"

section \<open>Operations on one kqueue\<close>

definition kqueue_init :: kqueue where
  "kqueue_init =
     \<lparr>kq_refcnt = 0, kq_head = [], kq_count = 0, kq_selwait = False, kq_si_note = [],
      kq_state = {}, kq_knlistsize = 0, kq_knlist = (\<lambda>_. []), kq_knhashmask = 0,
      kq_knhash = (\<lambda>_. []), kq_notes = Map.empty, kq_fresh = 0\<rparr>"

definition kn_in_flux :: "knote \<Rightarrow> bool" where
  "kn_in_flux kn \<longleftrightarrow> kn_influx kn > 0"

definition kn_enter_flux :: "nat \<Rightarrow> kqueue \<Rightarrow> kqueue" where
  "kn_enter_flux k = kn_upd k (\<lambda>kn. kn\<lparr>kn_influx := kn_influx kn + 1\<rparr>)"

definition kn_leave_flux :: "nat \<Rightarrow> kqueue \<Rightarrow> kqueue" where
  "kn_leave_flux k = kn_upd k (\<lambda>kn. kn\<lparr>kn_influx := kn_influx kn - 1\<rparr>)"

text \<open>The \<open>wakeup(kq)\<close> itself changes no field of the kqueue.\<close>

definition KQ_FLUX_WAKEUP :: "kqueue \<Rightarrow> kqueue" where
  "KQ_FLUX_WAKEUP kq =
     (if KQ_FLUXWAIT \<in> kq_state kq then kq\<lparr>kq_state := kq_state kq - {KQ_FLUXWAIT}\<rparr> else kq)"

definition kqueue_schedtask :: "kqueue \<Rightarrow> kqueue" where
  "kqueue_schedtask kq =
     (if KQ_TASKSCHED \<notin> kq_state kq
      then kq\<lparr>kq_state := insert KQ_TASKSCHED (kq_state kq)\<rparr> else kq)"

text \<open>
  \<^verbatim>\<open>selwakeuppri\<close> empties the list of selecting threads, so
  \<^verbatim>\<open>SEL_WAITING\<close> is false after it.
\<close>

definition kqueue_wakeup :: "kqueue \<Rightarrow> kqueue" where
  "kqueue_wakeup kq =
     (let kq1 = (if KQ_SLEEP \<in> kq_state kq
                 then kq\<lparr>kq_state := kq_state kq - {KQ_SLEEP}\<rparr> else kq);
          kq2 = (if KQ_SEL \<in> kq_state kq1
                 then kq1\<lparr>kq_selwait := False, kq_state := kq_state kq1 - {KQ_SEL}\<rparr>
                 else kq1)
      in if kq_si_note kq2 \<noteq> [] then kqueue_schedtask kq2 else kq2)"

definition knote_enqueue :: "nat \<Rightarrow> kqueue \<Rightarrow> kqueue" where
  "knote_enqueue k kq =
     (let kq1 = kq\<lparr>kq_head := kq_head kq @ [QNote k]\<rparr>;
          kq2 = kn_upd k (st_set {KN_QUEUED}) kq1;
          kq3 = kq2\<lparr>kq_count := kq_count kq2 + 1\<rparr>
      in kqueue_wakeup kq3)"

definition knote_dequeue :: "nat \<Rightarrow> kqueue \<Rightarrow> kqueue" where
  "knote_dequeue k kq =
     (let kq1 = kq\<lparr>kq_head := remove1 (QNote k) (kq_head kq)\<rparr>;
          kq2 = kn_upd k (st_clr {KN_QUEUED}) kq1
      in kq2\<lparr>kq_count := kq_count kq2 - 1\<rparr>)"

definition KNOTE_ACTIVATE :: "nat \<Rightarrow> kqueue \<Rightarrow> kqueue" where
  "KNOTE_ACTIVATE k kq =
     (let kq1 = kn_upd k (st_set {KN_ACTIVE}) kq
      in if kn_status (kn_at kq1 k) \<inter> {KN_QUEUED, KN_DISABLED} = {}
         then knote_enqueue k kq1 else kq1)"

text \<open>
  The list a knote is linked on with \<open>kn_link\<close>, and the insertion at its head and the
  removal from it.
\<close>

definition kn_klist :: "kqueue \<Rightarrow> knote \<Rightarrow> nat list" where
  "kn_klist kq kn =
     (if f_isfd (kn_fop kn) then kq_knlist kq (unat (kn_id kn))
      else kq_knhash kq (KN_HASH (kn_id kn) (kq_knhashmask kq)))"

definition kn_klist_upd :: "knote \<Rightarrow> (nat list \<Rightarrow> nat list) \<Rightarrow> kqueue \<Rightarrow> kqueue" where
  "kn_klist_upd kn f kq =
     (if f_isfd (kn_fop kn)
      then let i = unat (kn_id kn) in kq\<lparr>kq_knlist := (kq_knlist kq)(i := f (kq_knlist kq i))\<rparr>
      else let i = KN_HASH (kn_id kn) (kq_knhashmask kq)
           in kq\<lparr>kq_knhash := (kq_knhash kq)(i := f (kq_knhash kq i))\<rparr>)"

text \<open>The hash table is allocated together with its mask, so it is NULL when the mask is 0.\<close>

definition knote_attach :: "nat \<Rightarrow> kqueue \<Rightarrow> int \<times> kqueue" where
  "knote_attach k kq =
     (let kn = kn_at kq k in
      if KQ_CLOSING \<in> kq_state kq then (EBADF, kq)
      else if f_isfd (kn_fop kn) then
        if unat (kn_id kn) \<ge> kq_knlistsize kq then (ENOMEM, kq)
        else (0, kn_klist_upd kn (\<lambda>l. k # l) kq)
      else if kq_knhashmask kq = 0 then (ENOMEM, kq)
      else (0, kn_klist_upd kn (\<lambda>l. k # l) kq))"

definition knote_alloc :: "bool \<Rightarrow> kqueue \<Rightarrow> nat option \<times> kqueue" where
  "knote_alloc ok kq =
     (if ok then (Some (kq_fresh kq),
        kq\<lparr>kq_notes := (kq_notes kq)(kq_fresh kq \<mapsto> zero_knote), kq_fresh := kq_fresh kq + 1\<rparr>)
      else (None, kq))"

definition knote_free :: "nat option \<Rightarrow> kqueue \<Rightarrow> kqueue" where
  "knote_free ko kq =
     (case ko of None \<Rightarrow> kq | Some k \<Rightarrow> kq\<lparr>kq_notes := (kq_notes kq)(k := None)\<rparr>)"

text \<open>The kqueue side of \<^verbatim>\<open>knote_drop_detached\<close>: unlink, dequeue, free.\<close>

definition knote_unlink :: "nat \<Rightarrow> kqueue \<Rightarrow> kqueue" where
  "knote_unlink k kq =
     (let kn = kn_at kq k;
          kq1 = (if kn_klist kq kn \<noteq> [] then kn_klist_upd kn (remove1 k) kq else kq);
          kq2 = (if KN_QUEUED \<in> kn_status kn then knote_dequeue k kq1 else kq1)
      in KQ_FLUX_WAKEUP kq2)"

text \<open>The loop of \<^verbatim>\<open>kqueue_expand\<close> that sizes the new array.\<close>

function kq_grow :: "nat \<Rightarrow> nat \<Rightarrow> nat" where
  "kq_grow sz fd = (if sz \<le> fd then kq_grow (sz + 256) fd else sz)"
  by pat_completeness auto
termination
  by (relation "measure (\<lambda>(sz, fd). Suc fd - sz)") auto

declare kq_grow.simps [simp del]

lemma kq_grow_gt: "fd < kq_grow sz fd"
proof (induction sz fd rule: kq_grow.induct)
  case (1 sz fd)
  then show ?case
    by (cases "sz \<le> fd") (simp_all add: kq_grow.simps [of sz fd])
qed

lemma kq_grow_ge: "sz \<le> kq_grow sz fd"
proof (induction sz fd rule: kq_grow.induct)
  case (1 sz fd)
  then show ?case
    by (cases "sz \<le> fd") (simp_all add: kq_grow.simps [of sz fd])
qed

text \<open>
  \<open>ok\<close> says whether the allocation with \<open>mflag\<close> succeeds.  The new array is a copy of
  the old one with the rest zeroed; \<^verbatim>\<open>hashinit_flags(KN_HASHSIZE)\<close> gives a
  table of 64 lists and the mask 63.
\<close>

definition kqueue_expand :: "filtop \<Rightarrow> u64 \<Rightarrow> bool \<Rightarrow> kqueue \<Rightarrow> int \<times> kqueue" where
  "kqueue_expand fops ident ok kq =
     (if f_isfd fops then
        let fd = unat ident in
        if kq_knlistsize kq \<le> fd then
          if \<not> ok then (ENOMEM, kq)
          else if KQ_CLOSING \<in> kq_state kq then (EBADF, kq)
          else (0, kq\<lparr>kq_knlistsize := kq_grow (kq_knlistsize kq) fd,
                      kq_knlist := (\<lambda>i. if i < kq_knlistsize kq then kq_knlist kq i else [])\<rparr>)
        else (0, kq)
      else if kq_knhashmask kq = 0 then
        if \<not> ok then (ENOMEM, kq)
        else if KQ_CLOSING \<in> kq_state kq then (EBADF, kq)
        else (0, kq\<lparr>kq_knhash := (\<lambda>_. []), kq_knhashmask := 63\<rparr>)
      else (0, kq))"

end
