(* ===== verification/Kqueue.thy ===== *)
theory Kqueue
  imports Knote
begin

text \<open>
  The operations of \<^verbatim>\<open>sys/kern/kern_event.c\<close> that reach beyond one
  kqueue: registration of a change (\<open>kqueue_register\<close>), collection of pending events
  (\<open>kqueue_scan\<close>), the \<open>kevent\<close> call, the walk over the knotes of an object
  (\<open>knote\<close>), the removal of knotes when a descriptor, an object or a kqueue goes away,
  and the table of system filters.

  The state \<open>kern\<close> has the kqueues, the filter table, the open files with their
  reference counts, the descriptor table and the knote lists of the other kernel objects;
  \<open>k_w\<close> is whatever state the filters keep.  A filter is a record of functions over this
  state, and the operations take the table \<open>ops\<close> that gives the functions at each
  \<^verbatim>\<open>struct filterops\<close> address.  Each definition is the run of one thread.
  Where the source sleeps, the definition returns \<open>KSleep\<close> with the state the thread
  leaves behind; the source then starts again at the label the sleep is under.
\<close>

section \<open>Kernel state\<close>

datatype dtype = DTYPE_SOCKET | DTYPE_KQUEUE | DTYPE_EVENTFD | DTYPE_OTHER

record kfile =
  f_type :: dtype
  f_data :: "nat option"
  f_nonblock :: bool
  f_count :: int

record filtent =
  for_fop :: "filtop option"
  for_nolock :: bool
  for_refcnt :: int

record 'w kern =
  kqs :: "nat \<Rightarrow> kqueue"
  k_filt :: "int \<Rightarrow> filtent"
  k_files :: "nat \<Rightarrow> kfile"
  k_fdt :: "nat \<rightharpoonup> nat"
  k_kqlist :: "nat list"
  k_knl :: "knlid \<Rightarrow> (nat \<times> nat) list"
  k_mem :: bool
  k_retval :: int
  k_w :: 'w

datatype touch = EVENT_REGISTER | EVENT_PROCESS

record 'w filterops =
  f_attach :: "nat \<times> nat \<Rightarrow> 'w kern \<Rightarrow> int \<times> 'w kern"
  f_detach :: "nat \<times> nat \<Rightarrow> 'w kern \<Rightarrow> 'w kern"
  f_event :: "nat \<times> nat \<Rightarrow> u64 \<Rightarrow> 'w kern \<Rightarrow> bool \<times> 'w kern"
  f_touch :: "touch \<Rightarrow> nat \<times> nat \<Rightarrow> kevent \<Rightarrow> 'w kern \<Rightarrow> kevent \<times> 'w kern"

type_synonym 'w fops = "filtop \<Rightarrow> 'w filterops"

definition kq_upd :: "nat \<Rightarrow> (kqueue \<Rightarrow> kqueue) \<Rightarrow> 'w kern \<Rightarrow> 'w kern" where
  "kq_upd q f s = s\<lparr>kqs := (kqs s)(q := f (kqs s q))\<rparr>"

definition kn_of :: "'w kern \<Rightarrow> nat \<times> nat \<Rightarrow> knote" where
  "kn_of s p = kn_at (kqs s (fst p)) (snd p)"

definition file_upd :: "nat \<Rightarrow> (kfile \<Rightarrow> kfile) \<Rightarrow> 'w kern \<Rightarrow> 'w kern" where
  "file_upd i f s = s\<lparr>k_files := (k_files s)(i := f (k_files s i))\<rparr>"

definition knl_get :: "knlid \<Rightarrow> 'w kern \<Rightarrow> (nat \<times> nat) list" where
  "knl_get l s = (case l of Knl_kq q \<Rightarrow> kq_si_note (kqs s q) | _ \<Rightarrow> k_knl s l)"

definition knl_upd ::
    "knlid \<Rightarrow> ((nat \<times> nat) list \<Rightarrow> (nat \<times> nat) list) \<Rightarrow> 'w kern \<Rightarrow> 'w kern" where
  "knl_upd l f s =
     (case l of
        Knl_kq q \<Rightarrow> kq_upd q (\<lambda>kq. kq\<lparr>kq_si_note := f (kq_si_note kq)\<rparr>) s
      | _ \<Rightarrow> s\<lparr>k_knl := (k_knl s)(l := f (k_knl s l))\<rparr>)"

text \<open>
  \<^verbatim>\<open>fget\<close> takes a reference on the file of a descriptor,
  \<^verbatim>\<open>fdrop\<close> gives one back.  The paths modelled here never give back the
  last one: the descriptor table, or the caller that is closing the file, holds another.
\<close>

definition fget :: "nat \<Rightarrow> 'w kern \<Rightarrow> (int + nat) \<times> 'w kern" where
  "fget fd s =
     (case k_fdt s fd of
        None \<Rightarrow> (Inl EBADF, s)
      | Some i \<Rightarrow> (Inr i, file_upd i (\<lambda>f. f\<lparr>f_count := f_count f + 1\<rparr>) s))"

definition fdrop :: "nat \<Rightarrow> 'w kern \<Rightarrow> 'w kern" where
  "fdrop i = file_upd i (\<lambda>f. f\<lparr>f_count := f_count f - 1\<rparr>)"

definition fdrop_opt :: "nat option \<Rightarrow> 'w kern \<Rightarrow> 'w kern" where
  "fdrop_opt io s = (case io of None \<Rightarrow> s | Some i \<Rightarrow> fdrop i s)"

section \<open>The table of system filters\<close>

text \<open>
  \<open>~filt\<close> is \<open>- filt - 1\<close>.  The table is a function on all integers: \<open>filt = 0\<close>
  passes the range check of the source and reads the entry before the array.
\<close>

definition filt_out_of_range :: "int \<Rightarrow> bool" where
  "filt_out_of_range filt \<longleftrightarrow> filt > 0 \<or> filt + EVFILT_SYSCOUNT < 0"

definition filt_upd :: "int \<Rightarrow> (filtent \<Rightarrow> filtent) \<Rightarrow> 'w kern \<Rightarrow> 'w kern" where
  "filt_upd i f s = s\<lparr>k_filt := (k_filt s)(i := f (k_filt s i))\<rparr>"

definition kqueue_add_filteropts :: "int \<Rightarrow> filtop \<Rightarrow> 'w kern \<Rightarrow> int \<times> 'w kern" where
  "kqueue_add_filteropts filt fop s =
     (if filt_out_of_range filt then (EINVAL, s)
      else let e = k_filt s (- filt - 1) in
        if for_fop e \<noteq> Some Null_filtops \<and> for_fop e \<noteq> None then (EEXIST, s)
        else (0, filt_upd (- filt - 1) (\<lambda>e. e\<lparr>for_fop := Some fop, for_refcnt := 0\<rparr>) s))"

definition kqueue_del_filteropts :: "int \<Rightarrow> 'w kern \<Rightarrow> int \<times> 'w kern" where
  "kqueue_del_filteropts filt s =
     (if filt_out_of_range filt then (EINVAL, s)
      else let e = k_filt s (- filt - 1) in
        if for_fop e = Some Null_filtops \<or> for_fop e = None then (EINVAL, s)
        else if for_refcnt e \<noteq> 0 then (EBUSY, s)
        else (0, filt_upd (- filt - 1)
                   (\<lambda>e. e\<lparr>for_fop := Some Null_filtops, for_refcnt := 0\<rparr>) s))"

definition kqueue_fo_find :: "int \<Rightarrow> 'w kern \<Rightarrow> filtop option \<times> 'w kern" where
  "kqueue_fo_find filt s =
     (if filt_out_of_range filt then (None, s)
      else let i = - filt - 1; e = k_filt s i in
        if for_nolock e then (for_fop e, s)
        else
          let fop = (case for_fop e of None \<Rightarrow> Null_filtops | Some f \<Rightarrow> f)
          in (Some fop,
              filt_upd i (\<lambda>e. e\<lparr>for_fop := Some fop, for_refcnt := for_refcnt e + 1\<rparr>) s))"

definition kqueue_fo_release :: "int \<Rightarrow> 'w kern \<Rightarrow> 'w kern" where
  "kqueue_fo_release filt s =
     (if filt_out_of_range filt then s
      else if for_nolock (k_filt s (- filt - 1)) then s
      else filt_upd (- filt - 1) (\<lambda>e. e\<lparr>for_refcnt := for_refcnt e - 1\<rparr>) s)"

section \<open>Knote lists\<close>

definition knlist_add :: "knlid \<Rightarrow> nat \<times> nat \<Rightarrow> 'w kern \<Rightarrow> 'w kern" where
  "knlist_add l p s =
     (let s1 = knl_upd l (\<lambda>ps. p # ps) s
      in kq_upd (fst p) (kn_upd (snd p)
           (\<lambda>kn. st_clr {KN_DETACHED} (kn\<lparr>kn_knlist := Some l\<rparr>))) s1)"

definition knlist_remove :: "knlid \<Rightarrow> nat \<times> nat \<Rightarrow> 'w kern \<Rightarrow> 'w kern" where
  "knlist_remove l p s =
     (let s1 = knl_upd l (remove1 p) s
      in kq_upd (fst p) (kn_upd (snd p)
           (\<lambda>kn. st_set {KN_DETACHED} (kn\<lparr>kn_knlist := None\<rparr>))) s1)"

definition knlist_empty :: "knlid \<Rightarrow> 'w kern \<Rightarrow> bool" where
  "knlist_empty l s \<longleftrightarrow> knl_get l s = []"

section \<open>Dropping a knote\<close>

definition knote_drop_detached :: "nat \<times> nat \<Rightarrow> 'w kern \<Rightarrow> 'w kern" where
  "knote_drop_detached p s =
     (let kn = kn_of s p;
          s1 = kq_upd (fst p) (knote_unlink (snd p)) s;
          s2 = (if f_isfd (kn_fop kn) then fdrop_opt (kn_fp kn) s1 else s1);
          s3 = kqueue_fo_release (kn_filter kn) s2
      in kq_upd (fst p) (knote_free (Some (snd p))) s3)"

definition knote_drop :: "'w fops \<Rightarrow> nat \<times> nat \<Rightarrow> 'w kern \<Rightarrow> 'w kern" where
  "knote_drop ops p s =
     (let s1 = (if KN_DETACHED \<notin> kn_status (kn_of s p)
                then f_detach (ops (kn_fop (kn_of s p))) p s else s)
      in knote_drop_detached p s1)"

section \<open>Registering a change\<close>

datatype kres = KRet int | KSleep

text \<open>
  The outcome of the search for the knote of a change: an error, the file reference and the
  knote found (if any), or a sleep because the knote is in flux.
\<close>

datatype 'w findres =
    Find_err int "nat option" "'w kern"
  | Found "nat option" "nat option" "'w kern"
  | Find_sleep "'w kern"

definition kq_find_fd :: "kqueue \<Rightarrow> u64 \<Rightarrow> int \<Rightarrow> nat option" where
  "kq_find_fd kq ident filt =
     (if unat ident < kq_knlistsize kq
      then find (\<lambda>k. filt = kn_filter (kn_at kq k)) (kq_knlist kq (unat ident))
      else None)"

definition kq_find_hash :: "kqueue \<Rightarrow> kevent \<Rightarrow> nat option" where
  "kq_find_hash kq kev =
     (if ke_filter kev = EVFILT_PROC \<and> fl (ke_flags kev) (EV_FLAG1 OR EV_FLAG2) then None
      else if kq_knhashmask kq \<noteq> 0
      then find (\<lambda>k. ke_ident kev = kn_id (kn_at kq k) \<and> ke_filter kev = kn_filter (kn_at kq k))
             (kq_knhash kq (KN_HASH (ke_ident kev) (kq_knhashmask kq)))
      else None)"

definition kqueue_flux_check :: "nat \<Rightarrow> nat option \<Rightarrow> nat option \<Rightarrow> 'w kern \<Rightarrow> 'w findres" where
  "kqueue_flux_check q fpo kno s =
     (case kno of
        None \<Rightarrow> Found fpo None s
      | Some k \<Rightarrow>
          if kn_in_flux (kn_of s (q, k))
          then Find_sleep (fdrop_opt fpo
                 (kq_upd q (\<lambda>kq. kq\<lparr>kq_state := insert KQ_FLUXWAIT (kq_state kq)\<rparr>) s))
          else Found fpo (Some k) s)"

abbreviation INT_MAX :: nat where "INT_MAX \<equiv> 2147483647"

function kqueue_findkn :: "filtop \<Rightarrow> nat \<Rightarrow> bool \<Rightarrow> kevent \<Rightarrow> 'w kern \<Rightarrow> 'w findres" where
  "kqueue_findkn fops q waitok kev s =
     (if f_isfd fops then
        if unat (ke_ident kev) > INT_MAX then Find_err EBADF None s
        else case fget (unat (ke_ident kev)) s of
          (Inl e, s1) \<Rightarrow> Find_err e None s1
        | (Inr fp, s1) \<Rightarrow>
            if fl (ke_flags kev) EV_ADD \<and>
               fst (kqueue_expand fops (ke_ident kev) (k_mem s1) (kqs s1 q)) \<noteq> 0
            then
              let s2 = fdrop fp s1;
                  (e, kq2) = kqueue_expand fops (ke_ident kev) (waitok \<or> k_mem s2) (kqs s2 q)
              in if e \<noteq> 0 then Find_err e None s2
                 else kqueue_findkn fops q waitok kev (kq_upd q (\<lambda>_. kq2) s2)
            else
              let s2 = (if fl (ke_flags kev) EV_ADD
                        then kq_upd q (\<lambda>kq. snd (kqueue_expand fops (ke_ident kev) (k_mem s1) kq)) s1
                        else s1)
              in if f_type (k_files s2 fp) = DTYPE_KQUEUE \<and> f_data (k_files s2 fp) = Some q
                 then Find_err EINVAL (Some fp) s2
                 else kqueue_flux_check q (Some fp)
                        (kq_find_fd (kqs s2 q) (ke_ident kev) (ke_filter kev)) s2
      else
        let (e, kq1) = (if fl (ke_flags kev) EV_ADD
                        then kqueue_expand fops (ke_ident kev) (waitok \<or> k_mem s) (kqs s q)
                        else (0, kqs s q))
        in if e \<noteq> 0 then Find_err e None s
           else kqueue_flux_check q None (kq_find_hash kq1 kev) (kq_upd q (\<lambda>_. kq1) s))"
  by pat_completeness auto

lemma fget_kqs: "kqs (snd (fget fd s)) = kqs s"
  by (simp add: fget_def file_upd_def split: option.split)

lemma fdrop_kqs: "kqs (fdrop i s) = kqs s"
  by (simp add: fdrop_def file_upd_def)

lemma kqueue_expand_grows:
  "f_isfd fops \<Longrightarrow> kqueue_expand fops ident ok kq = (0, kq') \<Longrightarrow> unat ident < kq_knlistsize kq'"
  by (auto simp: kqueue_expand_def Let_def kq_grow_gt split: if_splits)

lemma kqueue_expand_fails:
  "f_isfd fops \<Longrightarrow> fst (kqueue_expand fops ident ok kq) \<noteq> 0 \<Longrightarrow> kq_knlistsize kq \<le> unat ident"
  by (auto simp: kqueue_expand_def Let_def split: if_splits)

termination kqueue_findkn
proof (relation "measure (\<lambda>(fops, q, waitok, kev, s).
    if kq_knlistsize (kqs s q) \<le> unat (ke_ident kev) then 1 else 0)", goal_cases)
  case 1
  show ?case by simp
next
  case (2 fops q waitok kev s x s1 fp s2 y e kq2)
  have "kqs s1 = kqs s"
    using fget_kqs [of "unat (ke_ident kev)" s] 2(3) by (metis snd_conv)
  moreover have "kqs s2 = kqs s1"
    using 2(6) by (simp add: fdrop_kqs)
  moreover have "kq_knlistsize (kqs s1 q) \<le> unat (ke_ident kev)"
    using kqueue_expand_fails [OF 2(1)] 2(5) by blast
  moreover have "unat (ke_ident kev) < kq_knlistsize kq2"
    using kqueue_expand_grows [OF 2(1)] 2(7-9) by (metis prod.inject)
  ultimately show ?case by (simp add: kq_upd_def)
qed

declare kqueue_findkn.simps [simp del]

text \<open>
  From the label \<^verbatim>\<open>done_ev_add\<close>: ask the filter, mark and queue the
  knote, take it out of flux.
\<close>

definition kqueue_done_ev_add :: "'w fops \<Rightarrow> nat \<times> nat \<Rightarrow> 'w kern \<Rightarrow> 'w kern" where
  "kqueue_done_ev_add ops p s =
     (let (event, s1) =
            (if KN_DISABLED \<notin> kn_status (kn_of s p)
             then f_event (ops (kn_fop (kn_of s p))) p 0 s else (False, s));
          s2 = (if event then kq_upd (fst p) (kn_upd (snd p) (st_set {KN_ACTIVE})) s1 else s1);
          s3 = (if kn_status (kn_of s2 p) \<inter> {KN_ACTIVE, KN_DISABLED, KN_QUEUED} = {KN_ACTIVE}
                then kq_upd (fst p) (knote_enqueue (snd p)) s2 else s2)
      in kq_upd (fst p) (\<lambda>kq. KQ_FLUX_WAKEUP
           (kn_leave_flux (snd p) (kn_upd (snd p) (st_clr {KN_SCAN}) kq))) s3)"

text \<open>
  No matching knote and \<open>EV_ADD\<close>: the knote \<open>k\<close>, allocated before, is filled in,
  linked and attached.  The result has the error, the knote to free at the label
  \<^verbatim>\<open>done\<close>, and the change with its \<open>fflags\<close> and \<open>data\<close> cleared.
\<close>

definition kqueue_new_knote :: "filtop \<Rightarrow> nat option \<Rightarrow> kevent \<Rightarrow> knote \<Rightarrow> knote" where
  "kqueue_new_knote fops fpo kev kn =
     kn\<lparr>kn_fp := fpo, kn_fop := fops, kn_sfflags := ke_fflags kev, kn_sdata := ke_data kev,
        kn_kevent := kev\<lparr>ke_fflags := 0, ke_data := 0,
          ke_flags := ke_flags kev AND
            NOT (EV_ADD OR EV_DELETE OR EV_ENABLE OR EV_DISABLE OR EV_FORCEONESHOT)\<rparr>,
        kn_status := insert KN_DETACHED (if fl (ke_flags kev) EV_DISABLE then {KN_DISABLED} else {})\<rparr>"

definition kqueue_reg_add ::
    "'w fops \<Rightarrow> nat \<times> nat \<Rightarrow> filtop \<Rightarrow> nat option \<Rightarrow> kevent \<Rightarrow> 'w kern \<Rightarrow>
     int \<times> nat option \<times> kevent \<times> 'w kern" where
  "kqueue_reg_add ops p fops fpo kev s =
     (let q = fst p; k = snd p;
          kev1 = kev\<lparr>ke_fflags := 0, ke_data := 0\<rparr>;
          s1 = kq_upd q (kn_upd k (kqueue_new_knote fops fpo kev)) s;
          s2 = kq_upd q (kn_enter_flux k) s1;
          (error, kq3) = knote_attach k (kqs s2 q);
          s3 = kq_upd q (\<lambda>_. kq3) s2
      in if error \<noteq> 0 then (error, Some k, kev1, s3)
         else
           let (error, s4) = f_attach (ops (kn_fop (kn_of s3 p))) p s3
           in if error \<noteq> 0 then (error, None, kev1, knote_drop_detached p s4)
              else (0, None, kev1, kqueue_done_ev_add ops p s4))"

text \<open>A matching knote: delete it, or update it and ask its filter again.\<close>

definition kqueue_reg_update ::
    "'w fops \<Rightarrow> nat \<times> nat \<Rightarrow> filtop \<Rightarrow> kevent \<Rightarrow> 'w kern \<Rightarrow> kevent \<times> 'w kern" where
  "kqueue_reg_update ops p fops kev s =
     (let q = fst p; k = snd p in
      if fl (ke_flags kev) EV_DELETE
      then (kev, knote_drop ops p (kq_upd q (kn_enter_flux k) s))
      else
        let s1 = (if fl (ke_flags kev) EV_FORCEONESHOT
                  then kq_upd q (\<lambda>kq. KNOTE_ACTIVATE k (kn_upd k (\<lambda>kn. kn\<lparr>kn_kevent :=
                         (kn_kevent kn)\<lparr>ke_flags := kn_flags kn OR EV_ONESHOT\<rparr>\<rparr>) kq)) s
                  else s);
            s2 = (if fl (ke_flags kev) EV_ENABLE
                  then kq_upd q (kn_upd k (st_clr {KN_DISABLED})) s1
                  else if fl (ke_flags kev) EV_DISABLE
                  then kq_upd q (kn_upd k (st_set {KN_DISABLED})) s1 else s1);
            s3 = kq_upd q (\<lambda>kq. kn_enter_flux k (kn_upd k (st_set {KN_SCAN}) kq)) s2;
            s4 = kq_upd q (kn_upd k (\<lambda>kn. kn\<lparr>kn_kevent :=
                   (kn_kevent kn)\<lparr>ke_udata := ke_udata kev\<rparr>\<rparr>)) s3;
            (kev1, s5) =
              (if \<not> f_isfd fops \<and> f_has_touch fops
               then f_touch (ops fops) EVENT_REGISTER p kev s4
               else (kev, kq_upd q (kn_upd k (\<lambda>kn.
                      kn\<lparr>kn_sfflags := ke_fflags kev, kn_sdata := ke_data kev\<rparr>)) s4))
        in (kev1, kqueue_done_ev_add ops p s5))"

definition kqueue_register ::
    "'w fops \<Rightarrow> nat \<Rightarrow> kevent \<Rightarrow> bool \<Rightarrow> 'w kern \<Rightarrow> kres \<times> kevent \<times> 'w kern" where
  "kqueue_register ops q kev waitok s =
     (if fl (ke_flags kev) EV_ENABLE \<and> fl (ke_flags kev) EV_DISABLE then (KRet EINVAL, kev, s)
      else case kqueue_fo_find (ke_filter kev) s of
        (None, s1) \<Rightarrow> (KRet EINVAL, kev, s1)
      | (Some fops, s1) \<Rightarrow>
          let (tkn, kq2) = (if fl (ke_flags kev) EV_ADD
                            then knote_alloc (waitok \<or> k_mem s1) (kqs s1 q) else (None, kqs s1 q));
              s2 = kq_upd q (\<lambda>_. kq2) s1
          in case kqueue_findkn fops q waitok kev s2 of
               Find_sleep s3 \<Rightarrow> (KSleep, kev, kq_upd q (knote_free tkn) s3)
             | Find_err e fpo s3 \<Rightarrow>
                 (KRet e, kev, kqueue_fo_release (ke_filter kev)
                    (kq_upd q (knote_free tkn) (fdrop_opt fpo s3)))
             | Found fpo (Some k) s3 \<Rightarrow>
                 let (kev1, s4) = kqueue_reg_update ops (q, k) fops kev s3
                 in (KRet 0, kev1, kqueue_fo_release (ke_filter kev)
                       (kq_upd q (knote_free tkn) (fdrop_opt fpo s4)))
             | Found fpo None s3 \<Rightarrow>
                 (if fl (ke_flags kev) EV_ADD then
                    case tkn of
                      None \<Rightarrow> (KRet ENOMEM, kev, kqueue_fo_release (ke_filter kev) (fdrop_opt fpo s3))
                    | Some k \<Rightarrow>
                        let (error, tkn1, kev1, s4) = kqueue_reg_add ops (q, k) fops fpo kev s3
                        in (KRet error, kev1, kq_upd q (knote_free tkn1) s4)
                  else (KRet ENOENT, kev, kqueue_fo_release (ke_filter kev) (fdrop_opt fpo s3))))"

section \<open>Collecting pending events\<close>

text \<open>
  The user side of a \<open>kevent\<close> call: copying changes in and events out, over whatever
  state \<open>'u\<close> the caller keeps in \<^verbatim>\<open>k_ops->arg\<close>.
\<close>

record 'u copyops =
  k_copyout :: "kevent list \<Rightarrow> 'u \<Rightarrow> int \<times> 'u"
  k_copyin :: "nat \<Rightarrow> 'u \<Rightarrow> int \<times> kevent list \<times> 'u"

abbreviation KQ_NEVENTS :: nat where "KQ_NEVENTS \<equiv> 8"

text \<open>
  One pass of the \<^verbatim>\<open>while (count)\<close> loop takes the first entry off the
  queue.  How it leaves the loop: the own marker was reached (and removed), the loop ended
  or broke (the marker is still queued), a sleep, or a read of an empty queue.
\<close>

datatype scanout = Sc_marker | Sc_end int | Sc_sleep | Sc_empty | Sc_fuel

text \<open>What happens to a knote at the head of the queue: skipped, or reported as an event.\<close>

definition kqueue_scan_note ::
    "'w fops \<Rightarrow> nat \<times> nat \<Rightarrow> 'w kern \<Rightarrow> kevent option \<times> 'w kern" where
  "kqueue_scan_note ops p s =
     (let q = fst p; k = snd p; kn = kn_of s p in
      if fl (kn_flags kn) EV_DROP then
        (None, knote_drop ops p (kq_upd q (\<lambda>kq. (kn_enter_flux k (kn_upd k (st_clr {KN_QUEUED}) kq))
                 \<lparr>kq_count := kq_count kq - 1\<rparr>) s))
      else if fl (kn_flags kn) EV_ONESHOT then
        (Some (kn_kevent kn),
         knote_drop ops p (kq_upd q (\<lambda>kq. (kn_enter_flux k (kn_upd k (st_clr {KN_QUEUED}) kq))
                 \<lparr>kq_count := kq_count kq - 1\<rparr>) s))
      else
        let s1 = kq_upd q (\<lambda>kq. kn_enter_flux k (kn_upd k (st_set {KN_SCAN}) kq)) s;
            (event, s2) = f_event (ops (kn_fop kn)) p 0 s1
        in if \<not> event then
             (None, kq_upd q (\<lambda>kq. (kn_leave_flux k
                 (kn_upd k (st_clr {KN_QUEUED, KN_ACTIVE, KN_SCAN}) kq))
                 \<lparr>kq_count := kq_count kq - 1\<rparr>) s2)
           else
             let fop = kn_fop (kn_of s2 p);
                 touch = (\<not> f_isfd fop \<and> f_has_touch fop);
                 (kev, s3) = (if touch then f_touch (ops fop) EVENT_PROCESS p (kn_kevent (kn_of s2 p)) s2
                              else (kn_kevent (kn_of s2 p), s2));
                 kn3 = kn_of s3 p;
                 s4 =
                   (if fl (kn_flags kn3) (EV_CLEAR OR EV_DISPATCH) then
                      let s31 = (if \<not> touch \<and> fl (kn_flags kn3) EV_CLEAR
                                 then kq_upd q (kn_upd k (\<lambda>kn. kn\<lparr>kn_kevent :=
                                        (kn_kevent kn)\<lparr>ke_data := 0, ke_fflags := 0\<rparr>\<rparr>)) s3
                                 else s3);
                          s32 = (if fl (kn_flags kn3) EV_DISPATCH
                                 then kq_upd q (kn_upd k (st_set {KN_DISABLED})) s31 else s31)
                      in kq_upd q (\<lambda>kq. (kn_upd k (st_clr {KN_QUEUED, KN_ACTIVE}) kq)
                           \<lparr>kq_count := kq_count kq - 1\<rparr>) s32
                    else kq_upd q (\<lambda>kq. kq\<lparr>kq_head := kq_head kq @ [QNote k]\<rparr>) s3)
             in (Some kev, kq_upd q (\<lambda>kq. kn_leave_flux k (kn_upd k (st_clr {KN_SCAN}) kq)) s4))"

fun kqueue_scan_loop ::
    "nat \<Rightarrow> 'w fops \<Rightarrow> 'u copyops \<Rightarrow> nat \<Rightarrow> nat \<Rightarrow> int \<Rightarrow> bool \<Rightarrow> kevent list \<Rightarrow> 'u \<Rightarrow> 'w kern \<Rightarrow>
     scanout \<times> int \<times> kevent list \<times> 'u \<times> 'w kern" where
  "kqueue_scan_loop 0 ops cops q m count influx keva u s = (Sc_fuel, count, keva, u, s)"
| "kqueue_scan_loop (Suc fuel) ops cops q m count influx keva u s =
     (if count = 0 then (Sc_end 0, count, keva, u, s)
      else case kq_head (kqs s q) of
        [] \<Rightarrow> (Sc_empty, count, keva, u, s)
      | e # rest \<Rightarrow>
          if (case e of QMark m1 \<Rightarrow> m1 \<noteq> m | QNote k \<Rightarrow> kn_in_flux (kn_of s (q, k))) then
            (Sc_sleep, count, keva, u,
             kq_upd q (\<lambda>kq. kq\<lparr>kq_state := insert KQ_FLUXWAIT (kq_state kq)\<rparr>)
               (if influx then kq_upd q KQ_FLUX_WAKEUP s else s))
          else
            let s1 = kq_upd q (\<lambda>kq. kq\<lparr>kq_head := rest\<rparr>) s in
            case e of
              QMark _ \<Rightarrow> (Sc_marker, count, keva, u, kq_upd q KQ_FLUX_WAKEUP s1)
            | QNote k \<Rightarrow>
                if KN_DISABLED \<in> kn_status (kn_of s1 (q, k)) then
                  kqueue_scan_loop fuel ops cops q m count influx keva u
                    (kq_upd q (\<lambda>kq. (kn_upd k (st_clr {KN_QUEUED}) kq)\<lparr>kq_count := kq_count kq - 1\<rparr>) s1)
                else case kqueue_scan_note ops (q, k) s1 of
                  (None, s2) \<Rightarrow>
                    kqueue_scan_loop fuel ops cops q m count
                      (influx \<or> \<not> fl (kn_flags (kn_of s1 (q, k))) EV_DROP) keva u s2
                | (Some kev, s2) \<Rightarrow>
                    let keva1 = keva @ [kev];
                        influx1 = (influx \<or> \<not> fl (kn_flags (kn_of s1 (q, k))) EV_ONESHOT)
                    in if length keva1 = KQ_NEVENTS then
                         let (error, u1) = k_copyout cops keva1 u;
                             s3 = kq_upd q KQ_FLUX_WAKEUP s2
                         in if error \<noteq> 0 then (Sc_end error, count - 1, [], u1, s3)
                            else kqueue_scan_loop fuel ops cops q m (count - 1) False [] u1 s3
                       else kqueue_scan_loop fuel ops cops q m (count - 1) influx1 keva1 u s2)"

text \<open>
  The deadline of the sleep.  \<open>asbt\<close> is -1 for "do not wait", 0 for "wait for ever" and
  else an absolute time; the clock is read by \<^verbatim>\<open>TIMESEL\<close>.
\<close>

record sbclock =
  sbinuptime :: int
  getsbinuptime :: int
  sbt_timethreshold :: int
  tc_tick_sbt :: int
  tc_precexp :: nat

abbreviation SBT_1S :: int where "SBT_1S \<equiv> 4294967296"
abbreviation SBT_MAX :: int where "SBT_MAX \<equiv> 0x7fffffffffffffff"

definition nstosbt :: "int \<Rightarrow> int" where
  "nstosbt ns =
     (let (sb, ns) = (if ns \<ge> SBT_1S then ((ns div 1000000000) * SBT_1S, ns mod 1000000000) else (0, ns))
      in sb + (ns * 9223372037 + 0x7fffffff) div 2147483648)"

definition tstosbt :: "int \<times> int \<Rightarrow> int" where
  "tstosbt ts = fst ts * SBT_1S + nstosbt (snd ts)"

definition kqueue_scan_deadline :: "sbclock \<Rightarrow> (int \<times> int) option \<Rightarrow> int + (int \<times> int)" where
  "kqueue_scan_deadline clk tsp =
     (case tsp of
        None \<Rightarrow> Inr (0, 0)
      | Some ts \<Rightarrow>
          if fst ts < 0 \<or> snd ts < 0 \<or> snd ts \<ge> 1000000000 then Inl EINVAL
          else if fst ts \<noteq> 0 \<or> snd ts \<noteq> 0 then
            if fst ts \<le> 0x7fffffff then
              let rsbt = tstosbt ts;
                  asbt = (if rsbt \<ge> sbt_timethreshold clk then getsbinuptime clk + tc_tick_sbt clk
                          else sbinuptime clk);
                  asbt1 = (if asbt \<le> SBT_MAX - rsbt then asbt + rsbt else 0)
              in Inr (asbt1, rsbt div 2 ^ tc_precexp clk)
            else Inr (0, 0)
          else Inr (-1, 0))"

datatype scanres = Scan_ret int | Scan_sleep | Scan_fault

text \<open>
  From the label \<^verbatim>\<open>retry\<close>.  \<open>m\<close> is the marker this scan allocated.  An
  empty queue ends the scan when \<open>asbt\<close> is -1 and puts the thread to sleep otherwise;
  \<open>passes\<close> bounds the number of times the label is reached.
\<close>

fun kqueue_scan_retry ::
    "nat \<Rightarrow> 'w fops \<Rightarrow> 'u copyops \<Rightarrow> nat \<Rightarrow> nat \<Rightarrow> int \<Rightarrow> int \<Rightarrow> 'u \<Rightarrow> 'w kern \<Rightarrow>
     scanres \<times> int \<times> kevent list \<times> 'u \<times> 'w kern" where
  "kqueue_scan_retry 0 ops cops q m maxevents asbt u s = (Scan_fault, maxevents, [], u, s)"
| "kqueue_scan_retry (Suc passes) ops cops q m maxevents asbt u s =
     (if kq_count (kqs s q) = 0 then
        if asbt = -1 then (Scan_ret 0, maxevents, [], u, kq_upd q KQ_FLUX_WAKEUP s)
        else (Scan_sleep, maxevents, [], u,
              kq_upd q (\<lambda>kq. kq\<lparr>kq_state := insert KQ_SLEEP (kq_state kq)\<rparr>) s)
      else
        let s1 = kq_upd q (\<lambda>kq. kq\<lparr>kq_head := kq_head kq @ [QMark m]\<rparr>) s in
        case kqueue_scan_loop (length (kq_head (kqs s1 q)) + 1) ops cops q m maxevents False [] u s1 of
          (Sc_marker, count, keva, u1, s2) \<Rightarrow>
            if count = maxevents then kqueue_scan_retry passes ops cops q m maxevents asbt u1 s2
            else (Scan_ret 0, count, keva, u1, kq_upd q KQ_FLUX_WAKEUP s2)
        | (Sc_end e, count, keva, u1, s2) \<Rightarrow>
            (Scan_ret e, count, keva, u1,
             kq_upd q (\<lambda>kq. KQ_FLUX_WAKEUP (kq\<lparr>kq_head := remove1 (QMark m) (kq_head kq)\<rparr>)) s2)
        | (Sc_sleep, count, keva, u1, s2) \<Rightarrow> (Scan_sleep, count, keva, u1, s2)
        | (_, count, keva, u1, s2) \<Rightarrow> (Scan_fault, count, keva, u1, s2))"

text \<open>
  The whole scan, up to its first sleep.  The marker is numbered by its thread \<open>td\<close>.  The
  events still in the buffer are copied out at the end and \<open>td_retval[0]\<close> gets the number
  of reported events; with no event wanted the queue is not looked at.
\<close>

definition kqueue_scan ::
    "'w fops \<Rightarrow> 'u copyops \<Rightarrow> sbclock \<Rightarrow> nat \<Rightarrow> nat \<Rightarrow> int \<Rightarrow> (int \<times> int) option \<Rightarrow> 'u \<Rightarrow> 'w kern \<Rightarrow>
     scanres \<times> 'u \<times> 'w kern" where
  "kqueue_scan ops cops clk td q maxevents tsp u s =
     (if maxevents = 0 then (Scan_ret 0, u, s\<lparr>k_retval := 0\<rparr>)
      else case kqueue_scan_deadline clk tsp of
        Inl e \<Rightarrow> (Scan_ret e, u, s\<lparr>k_retval := 0\<rparr>)
      | Inr (asbt, rsbt) \<Rightarrow>
          (case kqueue_scan_retry 2 ops cops q td maxevents asbt u s of
             (Scan_ret e, count, keva, u1, s1) \<Rightarrow>
               let (e1, u2) = (if keva \<noteq> [] then k_copyout cops keva u1 else (e, u1))
               in (Scan_ret e1, u2, s1\<lparr>k_retval := maxevents - count\<rparr>)
           | (r, count, keva, u1, s1) \<Rightarrow> (r, u1, s1)))"

text \<open>
  A thread that slept on an empty queue goes on with the value of
  \<^verbatim>\<open>msleep_sbt\<close>: 0 goes back to \<^verbatim>\<open>retry\<close>, that
  is, it scans again with the same deadline; anything else ends the call with no event.
\<close>

definition kqueue_scan_wakeup ::
    "'w fops \<Rightarrow> 'u copyops \<Rightarrow> nat \<Rightarrow> nat \<Rightarrow> int \<Rightarrow> int \<Rightarrow> int \<Rightarrow> 'u \<Rightarrow> 'w kern \<Rightarrow>
     scanres \<times> 'u \<times> 'w kern" where
  "kqueue_scan_wakeup ops cops td q maxevents asbt error u s =
     (if error = 0 then
        (case kqueue_scan_retry 2 ops cops q td maxevents asbt u s of
           (Scan_ret e, count, keva, u1, s1) \<Rightarrow>
             let (e1, u2) = (if keva \<noteq> [] then k_copyout cops keva u1 else (e, u1))
             in (Scan_ret e1, u2, s1\<lparr>k_retval := maxevents - count\<rparr>)
         | (r, count, keva, u1, s1) \<Rightarrow> (r, u1, s1))
      else
        (Scan_ret (if error = ERESTART then EINTR else if error = EWOULDBLOCK then 0 else error),
         u, (kq_upd q KQ_FLUX_WAKEUP s)\<lparr>k_retval := 0\<rparr>))"

section \<open>The kevent call\<close>

datatype chres = Ch_go int int | Ch_ret int | Ch_sleep

text \<open>The \<^verbatim>\<open>for\<close> loop over the changes copied in.\<close>

fun kqueue_changes ::
    "'w fops \<Rightarrow> 'u copyops \<Rightarrow> nat \<Rightarrow> kevent list \<Rightarrow> int \<Rightarrow> int \<Rightarrow> 'u \<Rightarrow> 'w kern \<Rightarrow>
     chres \<times> 'u \<times> 'w kern" where
  "kqueue_changes ops cops q [] nevents nerrors u s = (Ch_go nevents nerrors, u, s)"
| "kqueue_changes ops cops q (kev # kevs) nevents nerrors u s =
     (if ke_filter kev = 0 then kqueue_changes ops cops q kevs nevents nerrors u s
      else
        let kev1 = kev\<lparr>ke_flags := ke_flags kev AND NOT EV_SYSFLAGS\<rparr> in
        case kqueue_register ops q kev1 True s of
          (KSleep, kev2, s1) \<Rightarrow> (Ch_sleep, u, s1)
        | (KRet error, kev2, s1) \<Rightarrow>
            if error \<noteq> 0 \<or> fl (ke_flags kev2) EV_RECEIPT then
              if nevents = 0 then (Ch_ret error, u, s1)
              else
                let (_, u1) = k_copyout cops
                                [kev2\<lparr>ke_flags := EV_ERROR, ke_data := word_of_int error\<rparr>] u
                in kqueue_changes ops cops q kevs (nevents - 1) (nerrors + 1) u1 s1
            else kqueue_changes ops cops q kevs nevents nerrors u s1)"

function kqueue_batches ::
    "'w fops \<Rightarrow> 'u copyops \<Rightarrow> nat \<Rightarrow> nat \<Rightarrow> int \<Rightarrow> int \<Rightarrow> 'u \<Rightarrow> 'w kern \<Rightarrow>
     chres \<times> 'u \<times> 'w kern" where
  "kqueue_batches ops cops q nchanges nevents nerrors u s =
     (if nchanges = 0 then (Ch_go nevents nerrors, u, s)
      else
        let n = min KQ_NEVENTS nchanges in
        case k_copyin cops n u of
          (error, kevs, u1) \<Rightarrow>
            if error \<noteq> 0 then (Ch_ret error, u1, s)
            else (case kqueue_changes ops cops q kevs nevents nerrors u1 s of
                    (Ch_go ne nr, u2, s2) \<Rightarrow> kqueue_batches ops cops q (nchanges - n) ne nr u2 s2
                  | r \<Rightarrow> r))"
  by pat_completeness auto
termination
  by (relation "measure (\<lambda>(ops, cops, q, nchanges, nevents, nerrors, u, s). nchanges)") auto

declare kqueue_batches.simps [simp del]

definition kqueue_kevent ::
    "'w fops \<Rightarrow> 'u copyops \<Rightarrow> sbclock \<Rightarrow> nat \<Rightarrow> nat \<Rightarrow> int \<Rightarrow> int \<Rightarrow> (int \<times> int) option \<Rightarrow> 'u \<Rightarrow> 'w kern \<Rightarrow>
     scanres \<times> 'u \<times> 'w kern" where
  "kqueue_kevent ops cops clk td q nchanges nevents tsp u s =
     (case kqueue_batches ops cops q (nat nchanges) nevents 0 u s of
        (Ch_ret e, u1, s1) \<Rightarrow> (Scan_ret e, u1, s1)
      | (Ch_sleep, u1, s1) \<Rightarrow> (Scan_sleep, u1, s1)
      | (Ch_go nevents1 nerrors, u1, s1) \<Rightarrow>
          if nerrors \<noteq> 0 then (Scan_ret 0, u1, s1\<lparr>k_retval := nerrors\<rparr>)
          else kqueue_scan ops cops clk td q nevents1 tsp u1 s1)"

definition kqueue_acquire :: "nat \<Rightarrow> 'w kern \<Rightarrow> (int + nat) \<times> 'w kern" where
  "kqueue_acquire fp s =
     (case f_data (k_files s fp) of
        Some q \<Rightarrow>
          if f_type (k_files s fp) \<noteq> DTYPE_KQUEUE then (Inl EBADF, s)
          else if KQ_CLOSING \<in> kq_state (kqs s q) then (Inl EBADF, s)
          else (Inr q, kq_upd q (\<lambda>kq. kq\<lparr>kq_refcnt := kq_refcnt kq + 1\<rparr>) s)
      | None \<Rightarrow> (Inl EBADF, s))"

definition kqueue_release :: "nat \<Rightarrow> 'w kern \<Rightarrow> 'w kern" where
  "kqueue_release q = kq_upd q (\<lambda>kq. kq\<lparr>kq_refcnt := kq_refcnt kq - 1\<rparr>)"

definition kern_kevent_fp ::
    "'w fops \<Rightarrow> 'u copyops \<Rightarrow> sbclock \<Rightarrow> nat \<Rightarrow> nat \<Rightarrow> int \<Rightarrow> int \<Rightarrow> (int \<times> int) option \<Rightarrow> 'u \<Rightarrow> 'w kern \<Rightarrow>
     scanres \<times> 'u \<times> 'w kern" where
  "kern_kevent_fp ops cops clk td fp nchanges nevents tsp u s =
     (case kqueue_acquire fp s of
        (Inl e, s1) \<Rightarrow> (Scan_ret e, u, s1)
      | (Inr q, s1) \<Rightarrow>
          (case kqueue_kevent ops cops clk td q nchanges nevents tsp u s1 of
             (Scan_ret e, u2, s2) \<Rightarrow> (Scan_ret e, u2, kqueue_release q s2)
           | r \<Rightarrow> r))"

definition kern_kevent ::
    "'w fops \<Rightarrow> 'u copyops \<Rightarrow> sbclock \<Rightarrow> nat \<Rightarrow> int \<Rightarrow> int \<Rightarrow> int \<Rightarrow> (int \<times> int) option \<Rightarrow> 'u \<Rightarrow> 'w kern \<Rightarrow>
     scanres \<times> 'u \<times> 'w kern" where
  "kern_kevent ops cops clk td fd nchanges nevents tsp u s =
     (if fd < 0 then (Scan_ret EBADF, u, s)
      else case fget (nat fd) s of
        (Inl e, s1) \<Rightarrow> (Scan_ret e, u, s1)
      | (Inr fp, s1) \<Rightarrow>
          (case kern_kevent_fp ops cops clk td fp nchanges nevents tsp u s1 of
             (Scan_ret e, u2, s2) \<Rightarrow> (Scan_ret e, u2, fdrop fp s2)
           | r \<Rightarrow> r))"

text \<open>
  The arguments of the system call.  \<open>ka_changelist\<close> are the events from the pointer
  \<^verbatim>\<open>changelist\<close> on, \<open>ka_eventlist\<close> those written before the pointer
  \<^verbatim>\<open>eventlist\<close>, and \<open>ka_timeout\<close> what the pointer to the timeout
  points to.  The routines \<^verbatim>\<open>copyin\<close> and \<^verbatim>\<open>copyout\<close> of
  \<^verbatim>\<open>compat/user_glue.c\<close> copy memory and never fail.
\<close>

record kevent_args =
  ka_fd :: int
  ka_changelist :: "kevent list"
  ka_nchanges :: int
  ka_eventlist :: "kevent list"
  ka_nevents :: int
  ka_timeout :: "(int \<times> int) option"

definition kevent_copyout :: "kevent list \<Rightarrow> kevent_args \<Rightarrow> int \<times> kevent_args" where
  "kevent_copyout kevs uap = (0, uap\<lparr>ka_eventlist := ka_eventlist uap @ kevs\<rparr>)"

definition kevent_copyin :: "nat \<Rightarrow> kevent_args \<Rightarrow> int \<times> kevent list \<times> kevent_args" where
  "kevent_copyin count uap =
     (0, take count (ka_changelist uap), uap\<lparr>ka_changelist := drop count (ka_changelist uap)\<rparr>)"

definition kern_kevent_generic ::
    "'w fops \<Rightarrow> kevent_args copyops \<Rightarrow> sbclock \<Rightarrow> nat \<Rightarrow> kevent_args \<Rightarrow> 'w kern \<Rightarrow>
     scanres \<times> kevent_args \<times> 'w kern" where
  "kern_kevent_generic ops cops clk td uap s =
     kern_kevent ops cops clk td (ka_fd uap) (ka_nchanges uap) (ka_nevents uap) (ka_timeout uap) uap s"

definition sys_kevent ::
    "'w fops \<Rightarrow> sbclock \<Rightarrow> nat \<Rightarrow> kevent_args \<Rightarrow> 'w kern \<Rightarrow> scanres \<times> kevent_args \<times> 'w kern" where
  "sys_kevent ops clk td uap s =
     kern_kevent_generic ops \<lparr>k_copyout = kevent_copyout, k_copyin = kevent_copyin\<rparr> clk td uap s"

section \<open>Activation and removal\<close>

text \<open>
  The walk over a knote list.  \<open>nokqlock\<close> is the flag
  \<^verbatim>\<open>KNF_NOKQLOCK\<close>: the knote is then in flux while its filter runs.
\<close>

definition knote_one :: "'w fops \<Rightarrow> u64 \<Rightarrow> bool \<Rightarrow> nat \<times> nat \<Rightarrow> 'w kern \<Rightarrow> 'w kern" where
  "knote_one ops hint nokqlock p s =
     (let kn = kn_of s p; q = fst p; k = snd p in
      if kn_in_flux kn \<and> KN_SCAN \<notin> kn_status kn then s
      else if nokqlock then
        let (event, s1) = f_event (ops (kn_fop kn)) p hint (kq_upd q (kn_enter_flux k) s);
            s2 = kq_upd q (kn_leave_flux k) s1;
            s3 = (if event then kq_upd q (KNOTE_ACTIVATE k) s2 else s2)
        in kq_upd q KQ_FLUX_WAKEUP s3
      else
        let (event, s1) = f_event (ops (kn_fop kn)) p hint s
        in if event then kq_upd q (KNOTE_ACTIVATE k) s1 else s1)"

definition knote_list :: "'w fops \<Rightarrow> knlid \<Rightarrow> u64 \<Rightarrow> bool \<Rightarrow> 'w kern \<Rightarrow> 'w kern" where
  "knote_list ops l hint nokqlock s = fold (knote_one ops hint nokqlock) (knl_get l s) s"

text \<open>The task of a kqueue that other kqueues watch.\<close>

definition kqueue_task :: "'w fops \<Rightarrow> nat \<Rightarrow> 'w kern \<Rightarrow> 'w kern" where
  "kqueue_task ops q s =
     kq_upd q (\<lambda>kq. kq\<lparr>kq_state := kq_state kq - {KQ_TASKSCHED}\<rparr>)
       (knote_list ops (Knl_kq q) 0 False s)"

definition kqueue_poll :: "bool \<Rightarrow> nat \<Rightarrow> 'w kern \<Rightarrow> (int + bool) \<times> 'w kern" where
  "kqueue_poll wantin fp s =
     (case kqueue_acquire fp s of
        (Inl e, s1) \<Rightarrow> (Inl e, s1)
      | (Inr q, s1) \<Rightarrow>
          let (rev, s2) =
                (if wantin then
                   if kq_count (kqs s1 q) \<noteq> 0 then (True, s1)
                   else (False, kq_upd q (\<lambda>kq. kq\<lparr>kq_selwait := True,
                                  kq_state := insert KQ_SEL (kq_state kq)\<rparr>) s1)
                 else (False, s1))
          in (Inr rev, kqueue_release q s2))"

text \<open>
  Emptying one list of a kqueue's tables by dropping its first knote again and again.  The
  number \<open>n\<close> bounds the passes.
\<close>

datatype dropres = Drop_done | Drop_sleep | Drop_fuel

fun kqueue_drop_bucket ::
    "nat \<Rightarrow> 'w fops \<Rightarrow> nat \<Rightarrow> (kqueue \<Rightarrow> nat list) \<Rightarrow> 'w kern \<Rightarrow> dropres \<times> 'w kern" where
  "kqueue_drop_bucket n ops q bucket s =
     (case bucket (kqs s q) of
        [] \<Rightarrow> (Drop_done, s)
      | k # _ \<Rightarrow>
          if kn_in_flux (kn_of s (q, k))
          then (Drop_sleep, kq_upd q (\<lambda>kq. kq\<lparr>kq_state := insert KQ_FLUXWAIT (kq_state kq)\<rparr>) s)
          else (case n of
                  0 \<Rightarrow> (Drop_fuel, s)
                | Suc n1 \<Rightarrow> kqueue_drop_bucket n1 ops q bucket
                              (knote_drop ops (q, k) (kq_upd q (kn_enter_flux k) s))))"

declare kqueue_drop_bucket.simps [simp del]

definition fd_bucket :: "nat \<Rightarrow> kqueue \<Rightarrow> nat list" where
  "fd_bucket fd kq = (if fd < kq_knlistsize kq then kq_knlist kq fd else [])"

fun knote_fdclose_from :: "'w fops \<Rightarrow> nat \<Rightarrow> nat list \<Rightarrow> 'w kern \<Rightarrow> dropres \<times> 'w kern" where
  "knote_fdclose_from ops fd [] s = (Drop_done, s)"
| "knote_fdclose_from ops fd (q # qs) s =
     (case kqueue_drop_bucket (length (fd_bucket fd (kqs s q))) ops q (fd_bucket fd) s of
        (Drop_done, s1) \<Rightarrow> knote_fdclose_from ops fd qs (kq_upd q KQ_FLUX_WAKEUP s1)
      | r \<Rightarrow> r)"

definition knote_fdclose :: "'w fops \<Rightarrow> nat \<Rightarrow> 'w kern \<Rightarrow> dropres \<times> 'w kern" where
  "knote_fdclose ops fd s = knote_fdclose_from ops fd (k_kqlist s) s"

text \<open>All lists of a kqueue, in the order of the two loops of \<^verbatim>\<open>kqueue_drain\<close>.\<close>

fun kqueue_drop_buckets ::
    "'w fops \<Rightarrow> nat \<Rightarrow> (kqueue \<Rightarrow> nat list) list \<Rightarrow> 'w kern \<Rightarrow> dropres \<times> 'w kern" where
  "kqueue_drop_buckets ops q [] s = (Drop_done, s)"
| "kqueue_drop_buckets ops q (b # bs) s =
     (case kqueue_drop_bucket (length (b (kqs s q))) ops q b s of
        (Drop_done, s1) \<Rightarrow> kqueue_drop_buckets ops q bs s1
      | r \<Rightarrow> r)"

definition kqueue_buckets :: "kqueue \<Rightarrow> (kqueue \<Rightarrow> nat list) list" where
  "kqueue_buckets kq =
     map (\<lambda>i kq. kq_knlist kq i) [0 ..< kq_knlistsize kq] @
     (if kq_knhashmask kq \<noteq> 0
      then map (\<lambda>i kq. kq_knhash kq i) [0 ..< unat (kq_knhashmask kq) + 1] else [])"

definition kqueue_drain :: "'w fops \<Rightarrow> nat \<Rightarrow> 'w kern \<Rightarrow> dropres \<times> 'w kern" where
  "kqueue_drain ops q s =
     (let s1 = kq_upd q (\<lambda>kq. kq\<lparr>kq_state := insert KQ_CLOSING (kq_state kq)\<rparr>) s in
      if kq_refcnt (kqs s1 q) > 1 then (Drop_sleep, s1)
      else case kqueue_drop_buckets ops q (kqueue_buckets (kqs s1 q)) s1 of
        (Drop_done, s2) \<Rightarrow>
          if KQ_TASKSCHED \<in> kq_state (kqs s2 q)
          then (Drop_sleep, kq_upd q (\<lambda>kq. kq\<lparr>kq_state := insert KQ_TASKDRAIN (kq_state kq)\<rparr>) s2)
          else
            (Drop_done,
             if KQ_SEL \<in> kq_state (kqs s2 q)
             then kq_upd q (\<lambda>kq. kq\<lparr>kq_selwait := False, kq_state := kq_state kq - {KQ_SEL}\<rparr>) s2
             else s2)
      | r \<Rightarrow> r)"

text \<open>
  Closing the last reference of a kqueue's file.  \<^verbatim>\<open>kqueue_destroy\<close> frees
  the tables; the kqueue's memory is then reused only after initialisation.
\<close>

definition kqueue_close :: "'w fops \<Rightarrow> nat \<Rightarrow> 'w kern \<Rightarrow> (int + dropres) \<times> 'w kern" where
  "kqueue_close ops fp s =
     (case kqueue_acquire fp s of
        (Inl e, s1) \<Rightarrow> (Inl e, s1)
      | (Inr q, s1) \<Rightarrow>
          (case kqueue_drain ops q s1 of
             (Drop_done, s2) \<Rightarrow>
               (Inl 0, file_upd fp (\<lambda>f. f\<lparr>f_data := None\<rparr>)
                  (kq_upd q (\<lambda>_. kqueue_init) (s2\<lparr>k_kqlist := remove1 q (k_kqlist s2)\<rparr>)))
           | (r, s2) \<Rightarrow> (Inr r, s2)))"

text \<open>
  Creating a kqueue: \<open>limok\<close> is the answer of \<^verbatim>\<open>chgkqcnt\<close>,
  \<open>newfd\<close> that of \<^verbatim>\<open>falloc_caps\<close> (a descriptor and its file), \<open>q\<close>
  the address the kqueue is allocated at.
\<close>

definition kern_kqueue :: "bool \<Rightarrow> int + (nat \<times> nat) \<Rightarrow> nat \<Rightarrow> 'w kern \<Rightarrow> int \<times> 'w kern" where
  "kern_kqueue limok newfd q s =
     (if \<not> limok then (ENOMEM, s)
      else case newfd of
        Inl e \<Rightarrow> (e, s)
      | Inr (fd, fp) \<Rightarrow>
          (0, s\<lparr>kqs := (kqs s)(q := kqueue_init), k_kqlist := q # k_kqlist s,
                k_fdt := (k_fdt s)(fd \<mapsto> fp),
                k_files := (k_files s)(fp := \<lparr>f_type = DTYPE_KQUEUE, f_data = Some q,
                                             f_nonblock = False, f_count = 1\<rparr>),
                k_retval := int fd\<rparr>))"

text \<open>A \<open>kevent\<close> call on a kqueue made for this call only, at address \<open>q\<close>.\<close>

definition kern_kevent_anonymous ::
    "'w fops \<Rightarrow> 'u copyops \<Rightarrow> sbclock \<Rightarrow> nat \<Rightarrow> nat \<Rightarrow> int \<Rightarrow> 'u \<Rightarrow> 'w kern \<Rightarrow>
     scanres \<times> 'u \<times> 'w kern" where
  "kern_kevent_anonymous ops cops clk td q nevents u s =
     (case kqueue_kevent ops cops clk td q nevents nevents None u
             (kq_upd q (\<lambda>_. kqueue_init\<lparr>kq_refcnt := 1\<rparr>) s) of
        (Scan_ret e, u1, s1) \<Rightarrow>
          (case kqueue_drain ops q s1 of
             (Drop_done, s2) \<Rightarrow> (Scan_ret e, u1, s2)
           | (_, s2) \<Rightarrow> (Scan_sleep, u1, s2))
      | r \<Rightarrow> r)"

definition kqfd_register ::
    "'w fops \<Rightarrow> nat \<Rightarrow> kevent \<Rightarrow> bool \<Rightarrow> 'w kern \<Rightarrow> kres \<times> 'w kern" where
  "kqfd_register ops fd kev waitok s =
     (case fget fd s of
        (Inl e, s1) \<Rightarrow> (KRet e, s1)
      | (Inr fp, s1) \<Rightarrow>
          (case kqueue_acquire fp s1 of
             (Inl e, s2) \<Rightarrow> (KRet e, fdrop fp s2)
           | (Inr q, s2) \<Rightarrow>
               (case kqueue_register ops q kev waitok s2 of
                  (KRet e, _, s3) \<Rightarrow> (KRet e, fdrop fp (kqueue_release q s3))
                | (KSleep, _, s3) \<Rightarrow> (KSleep, s3))))"

text \<open>
  An object goes away: its knotes are unlinked from it, and killed or, when \<open>killkn\<close> is
  not set, marked to disappear when they are next reported.
\<close>

definition knlist_cleardel_one :: "knlid \<Rightarrow> bool \<Rightarrow> nat \<times> nat \<Rightarrow> 'w kern \<Rightarrow> 'w kern" where
  "knlist_cleardel_one l killkn p s =
     (if kn_in_flux (kn_of s p) then s
      else
        let s1 = knlist_remove l p s in
        if killkn then knote_drop_detached p (kq_upd (fst p) (kn_enter_flux (snd p)) s1)
        else kq_upd (fst p) (kn_upd (snd p) (\<lambda>kn. kn\<lparr>kn_kevent :=
               (kn_kevent kn)\<lparr>ke_flags := kn_flags kn OR EV_EOF OR EV_ONESHOT\<rparr>\<rparr>)) s1)"

definition knlist_cleardel :: "knlid \<Rightarrow> bool \<Rightarrow> 'w kern \<Rightarrow> kres \<times> 'w kern" where
  "knlist_cleardel l killkn s =
     (let s1 = fold (knlist_cleardel_one l killkn) (knl_get l s) s in
      case knl_get l s1 of
        [] \<Rightarrow> (KRet 0, s1)
      | p # _ \<Rightarrow> (KSleep, kq_upd (fst p) (\<lambda>kq. kq\<lparr>kq_state := insert KQ_FLUXWAIT (kq_state kq)\<rparr>) s1))"

end
