(* ===== verification/Filters.thy ===== *)
theory Filters
  imports Kqueue
begin

text \<open>
  The filters of the event queue: the ones of \<^verbatim>\<open>sys/kern/kern_event.c\<close>
  (files, kqueues, processes, timers, user events, the null filter), of
  \<^verbatim>\<open>sys/kern/sys_eventfd.c\<close>, of \<^verbatim>\<open>sys/kern/uipc_socket.c\<close>,
  of \<^verbatim>\<open>sys/kern/kern_sig.c\<close> and of \<^verbatim>\<open>sys/kern/vfs_subr.c\<close>.
  The state \<open>world\<close> has the part of the kernel's objects that the filters read and
  write; \<open>kern_ops\<close> is the table of all filters.
\<close>

section \<open>Objects\<close>

text \<open>\<open>efd_sel\<close>: a thread that polls has recorded itself in the selinfo.\<close>

record eventfd =
  efd_count :: u64
  efd_flags :: u32
  efd_sel :: bool

record sockbuf =
  sb_acc :: u32
  sb_ccc :: u32
  sb_hiwat :: u32
  sb_mbcnt :: u32
  sb_mbmax :: u32
  sb_ctl :: u32
  sb_lowat :: u32
  sb_cantmore :: bool
  sb_stop :: bool
  sb_knote :: bool

text \<open>
  A socket; the members of the union are those of a listening socket when
  \<open>so_listening\<close> holds.
\<close>

record sock =
  so_listening :: bool
  sol_qlen :: u32
  sol_comp :: nat
  so_rcv :: sockbuf
  so_snd :: sockbuf
  so_error :: u32
  so_rerror :: u32
  so_isconnected :: bool
  so_connrequired :: bool

record proc =
  p_wexit :: bool
  p_zombie :: bool
  p_cansee :: int
  p_xexit :: u32
  p_xsig :: u32

record world =
  w_efd :: "nat \<Rightarrow> eventfd"
  w_so :: "nat \<Rightarrow> sock"
  w_proc :: "nat \<rightharpoonup> proc"
  w_curproc :: nat
  w_callout :: "nat \<times> nat \<Rightarrow> int option"
  w_ncallouts :: nat
  w_calloutmax :: nat
  w_uptime :: int
  w_boottime :: int

type_synonym kworld = "world kern"

definition w_upd :: "(world \<Rightarrow> world) \<Rightarrow> kworld \<Rightarrow> kworld" where
  "w_upd f s = s\<lparr>k_w := f (k_w s)\<rparr>"

definition so_upd :: "nat \<Rightarrow> (sock \<Rightarrow> sock) \<Rightarrow> kworld \<Rightarrow> kworld" where
  "so_upd i f = w_upd (\<lambda>w. w\<lparr>w_so := (w_so w)(i := f (w_so w i))\<rparr>)"

text \<open>Writing members of a knote.\<close>

definition kn_mod :: "nat \<times> nat \<Rightarrow> (knote \<Rightarrow> knote) \<Rightarrow> kworld \<Rightarrow> kworld" where
  "kn_mod p f = kq_upd (fst p) (kn_upd (snd p) f)"

definition set_data :: "u64 \<Rightarrow> knote \<Rightarrow> knote" where
  "set_data d kn = kn\<lparr>kn_kevent := (kn_kevent kn)\<lparr>ke_data := d\<rparr>\<rparr>"

definition set_fflags :: "u32 \<Rightarrow> knote \<Rightarrow> knote" where
  "set_fflags d kn = kn\<lparr>kn_kevent := (kn_kevent kn)\<lparr>ke_fflags := d\<rparr>\<rparr>"

definition or_flags :: "u16 \<Rightarrow> knote \<Rightarrow> knote" where
  "or_flags m kn = kn\<lparr>kn_kevent := (kn_kevent kn)\<lparr>ke_flags := kn_flags kn OR m\<rparr>\<rparr>"

definition clr_flags :: "u16 \<Rightarrow> knote \<Rightarrow> knote" where
  "clr_flags m kn = kn\<lparr>kn_kevent := (kn_kevent kn)\<lparr>ke_flags := kn_flags kn AND NOT m\<rparr>\<rparr>"

text \<open>
  The pointer \<^verbatim>\<open>kn->kn_fp->f_data\<close>: a knote holds a reference on its file,
  whose data stays as long.
\<close>

definition kn_fdata :: "kworld \<Rightarrow> nat \<times> nat \<Rightarrow> nat" where
  "kn_fdata s p =
     (case kn_fp (kn_of s p) of
        None \<Rightarrow> 0
      | Some i \<Rightarrow> (case f_data (k_files s i) of None \<Rightarrow> 0 | Some d \<Rightarrow> d))"

section \<open>Eventfd filters\<close>

abbreviation UINT64_MAX :: u64 where "UINT64_MAX \<equiv> 0xffffffffffffffff"

definition eventfd_kqfilter :: "nat \<Rightarrow> nat \<times> nat \<Rightarrow> kworld \<Rightarrow> int \<times> kworld" where
  "eventfd_kqfilter efd p s =
     (let filt = kn_filter (kn_of s p) in
      if filt = EVFILT_READ \<or> filt = EVFILT_WRITE then
        let s1 = kn_mod p (\<lambda>kn. kn\<lparr>kn_fop := if filt = EVFILT_READ then Eventfd_rfiltops
                                             else Eventfd_wfiltops\<rparr>) s;
            s2 = kn_mod p (\<lambda>kn. kn\<lparr>kn_hook := Some efd\<rparr>) s1
        in (0, knlist_add (Knl_efd efd) p s2)
      else (EINVAL, s))"

definition kn_efd :: "kworld \<Rightarrow> nat \<times> nat \<Rightarrow> nat" where
  "kn_efd s p = (case kn_hook (kn_of s p) of Some e \<Rightarrow> e | None \<Rightarrow> 0)"

definition filt_eventfddetach :: "nat \<times> nat \<Rightarrow> kworld \<Rightarrow> kworld" where
  "filt_eventfddetach p s = knlist_remove (Knl_efd (kn_efd s p)) p s"

definition filt_eventfdread :: "nat \<times> nat \<Rightarrow> u64 \<Rightarrow> kworld \<Rightarrow> bool \<times> kworld" where
  "filt_eventfdread p hint s =
     (let c = efd_count (w_efd (k_w s) (kn_efd s p)) in (c > 0, kn_mod p (set_data c) s))"

definition filt_eventfdwrite :: "nat \<times> nat \<Rightarrow> u64 \<Rightarrow> kworld \<Rightarrow> bool \<times> kworld" where
  "filt_eventfdwrite p hint s =
     (let c = efd_count (w_efd (k_w s) (kn_efd s p))
      in (UINT64_MAX - 1 > c, kn_mod p (set_data (UINT64_MAX - 1 - c)) s))"

section \<open>Socket filters\<close>

definition sbspace :: "sockbuf \<Rightarrow> int" where
  "sbspace sb =
     (if sb_stop sb then 0
      else let bleft = sint (sb_hiwat sb - sb_ccc sb); mleft = sint (sb_mbmax sb - sb_mbcnt sb)
           in if bleft < mleft then bleft else mleft)"

abbreviation NOTE_LOWAT :: u32 where "NOTE_LOWAT \<equiv> 0x0001"

definition soo_kqfilter :: "nat \<Rightarrow> nat \<times> nat \<Rightarrow> kworld \<Rightarrow> int \<times> kworld" where
  "soo_kqfilter so p s =
     (let filt = kn_filter (kn_of s p);
          add = (\<lambda>fop l f.
            let s1 = kn_mod p (\<lambda>kn. kn\<lparr>kn_fop := fop\<rparr>) s;
                s2 = knlist_add l p s1
            in if so_listening (w_so (k_w s) so) then s2 else so_upd so f s2)
      in if filt = EVFILT_READ then
           (0, add Soread_filtops (Knl_sord so) (\<lambda>o'. o'\<lparr>so_rcv := (so_rcv o')\<lparr>sb_knote := True\<rparr>\<rparr>))
         else if filt = EVFILT_WRITE then
           (0, add Sowrite_filtops (Knl_sowr so) (\<lambda>o'. o'\<lparr>so_snd := (so_snd o')\<lparr>sb_knote := True\<rparr>\<rparr>))
         else if filt = EVFILT_EMPTY then
           (0, add Soempty_filtops (Knl_sowr so) (\<lambda>o'. o'\<lparr>so_snd := (so_snd o')\<lparr>sb_knote := True\<rparr>\<rparr>))
         else (EINVAL, s))"

definition filt_sordetach :: "nat \<times> nat \<Rightarrow> kworld \<Rightarrow> kworld" where
  "filt_sordetach p s =
     (let so = kn_fdata s p; s1 = knlist_remove (Knl_sord so) p s
      in if \<not> so_listening (w_so (k_w s1) so) \<and> knlist_empty (Knl_sord so) s1
         then so_upd so (\<lambda>o'. o'\<lparr>so_rcv := (so_rcv o')\<lparr>sb_knote := False\<rparr>\<rparr>) s1 else s1)"

definition filt_sowdetach :: "nat \<times> nat \<Rightarrow> kworld \<Rightarrow> kworld" where
  "filt_sowdetach p s =
     (let so = kn_fdata s p; s1 = knlist_remove (Knl_sowr so) p s
      in if \<not> so_listening (w_so (k_w s1) so) \<and> knlist_empty (Knl_sowr so) s1
         then so_upd so (\<lambda>o'. o'\<lparr>so_snd := (so_snd o')\<lparr>sb_knote := False\<rparr>\<rparr>) s1 else s1)"

text \<open>
  No socket hook is registered by the sources, so \<^verbatim>\<open>hhook_run_socket\<close> does
  nothing and returns 0.
\<close>

definition filt_soread :: "nat \<times> nat \<Rightarrow> u64 \<Rightarrow> kworld \<Rightarrow> bool \<times> kworld" where
  "filt_soread p hint s =
     (let so = w_so (k_w s) (kn_fdata s p) in
      if so_listening so then
        let s1 = kn_mod p (set_data (ucast (sol_qlen so))) s
        in if so_error so \<noteq> 0
           then (True, kn_mod p (set_fflags (so_error so)) (kn_mod p (or_flags EV_EOF) s1))
           else (sol_comp so \<noteq> 0, s1)
      else
        let s1 = kn_mod p (set_data (ucast (sb_acc (so_rcv so) - sb_ctl (so_rcv so)))) s
        in if sb_cantmore (so_rcv so)
           then (True, kn_mod p (set_fflags (so_error so)) (kn_mod p (or_flags EV_EOF) s1))
           else if so_error so \<noteq> 0 \<or> so_rerror so \<noteq> 0 then (True, s1)
           else if fl (kn_sfflags (kn_of s1 p)) NOTE_LOWAT then
             (sint (kn_data (kn_of s1 p)) \<ge> sint (kn_sdata (kn_of s1 p)), s1)
           else (sb_acc (so_rcv so) \<ge> sb_lowat (so_rcv so), s1))"

definition filt_sowrite :: "nat \<times> nat \<Rightarrow> u64 \<Rightarrow> kworld \<Rightarrow> bool \<times> kworld" where
  "filt_sowrite p hint s =
     (let so = w_so (k_w s) (kn_fdata s p) in
      if so_listening so then (False, s)
      else
        let s1 = kn_mod p (set_data (word_of_int (sbspace (so_snd so)))) s
        in if sb_cantmore (so_snd so)
           then (True, kn_mod p (set_fflags (so_error so)) (kn_mod p (or_flags EV_EOF) s1))
           else if so_error so \<noteq> 0 then (True, s1)
           else if \<not> so_isconnected so \<and> so_connrequired so then (False, s1)
           else if fl (kn_sfflags (kn_of s1 p)) NOTE_LOWAT then
             (sint (kn_data (kn_of s1 p)) \<ge> sint (kn_sdata (kn_of s1 p)), s1)
           else (sint (kn_data (kn_of s1 p)) \<ge> sint (sb_lowat (so_snd so)), s1))"

definition filt_soempty :: "nat \<times> nat \<Rightarrow> u64 \<Rightarrow> kworld \<Rightarrow> bool \<times> kworld" where
  "filt_soempty p hint s =
     (let so = w_so (k_w s) (kn_fdata s p) in
      if so_listening so then (True, s)
      else (sb_ccc (so_snd so) = 0, kn_mod p (set_data (ucast (sb_ccc (so_snd so)))) s))"

section \<open>Kqueues watched by a kqueue, and file attachment\<close>

definition kqueue_kqfilter :: "nat \<times> nat \<Rightarrow> kworld \<Rightarrow> int \<times> kworld" where
  "kqueue_kqfilter p s =
     (let kq = kn_fdata s p in
      if kn_filter (kn_of s p) \<noteq> EVFILT_READ then (EINVAL, s)
      else
        let s1 = kn_mod p (st_set {KN_KQUEUE}) s;
            s2 = kn_mod p (\<lambda>kn. kn\<lparr>kn_fop := Kqread_filtops\<rparr>) s1
        in (0, knlist_add (Knl_kq kq) p s2))"

definition filt_kqdetach :: "nat \<times> nat \<Rightarrow> kworld \<Rightarrow> kworld" where
  "filt_kqdetach p s = knlist_remove (Knl_kq (kn_fdata s p)) p s"

definition filt_kqueue :: "nat \<times> nat \<Rightarrow> u64 \<Rightarrow> kworld \<Rightarrow> bool \<times> kworld" where
  "filt_kqueue p hint s =
     (let s1 = kn_mod p (set_data (word_of_int (kq_count (kqs s (kn_fdata s p))))) s
      in (sint (kn_data (kn_of s1 p)) > 0, s1))"

text \<open>
  The method \<^verbatim>\<open>fo_kqfilter\<close> of the file; \<open>DTYPE_OTHER\<close> stands for the
  files whose method is \<^verbatim>\<open>invfo_kqfilter\<close>.
\<close>

definition filt_fileattach :: "nat \<times> nat \<Rightarrow> kworld \<Rightarrow> int \<times> kworld" where
  "filt_fileattach p s =
     (case kn_fp (kn_of s p) of
        None \<Rightarrow> (EINVAL, s)
      | Some i \<Rightarrow>
          (case f_type (k_files s i) of
             DTYPE_SOCKET \<Rightarrow> soo_kqfilter (kn_fdata s p) p s
           | DTYPE_KQUEUE \<Rightarrow> kqueue_kqfilter p s
           | DTYPE_EVENTFD \<Rightarrow> eventfd_kqfilter (kn_fdata s p) p s
           | DTYPE_OTHER \<Rightarrow> (EINVAL, s)))"

section \<open>Process, signal and file system filters\<close>

abbreviation NOTE_EXIT :: u32 where "NOTE_EXIT \<equiv> 0x80000000"
abbreviation NOTE_FORK :: u32 where "NOTE_FORK \<equiv> 0x40000000"
abbreviation NOTE_EXEC :: u32 where "NOTE_EXEC \<equiv> 0x20000000"
abbreviation NOTE_PCTRLMASK :: u32 where "NOTE_PCTRLMASK \<equiv> 0xf0000000"
abbreviation NOTE_TRACK :: u32 where "NOTE_TRACK \<equiv> 0x00000001"
abbreviation NOTE_TRACKERR :: u32 where "NOTE_TRACKERR \<equiv> 0x00000002"
abbreviation NOTE_CHILD :: u32 where "NOTE_CHILD \<equiv> 0x00000004"
abbreviation NOTE_SIGNAL :: u64 where "NOTE_SIGNAL \<equiv> 0x08000000"

definition KW_EXITCODE :: "u32 \<Rightarrow> u32 \<Rightarrow> u32" where
  "KW_EXITCODE ret sig = push_bit 8 (ret AND 0xff) OR sig"

definition filt_proc :: "nat \<times> nat \<Rightarrow> u64 \<Rightarrow> kworld \<Rightarrow> bool \<times> kworld" where
  "filt_proc p hint s =
     (case kn_proc (kn_of s p) of
        None \<Rightarrow> (False, s)
      | Some pr \<Rightarrow>
          let event = ucast hint AND NOTE_PCTRLMASK;
              s1 = (if fl (kn_sfflags (kn_of s p)) event
                    then kn_mod p (\<lambda>kn. set_fflags (kn_fflags kn OR event) kn) s else s)
          in if event = NOTE_EXIT then
               let s2 = kn_mod p (\<lambda>kn. (or_flags (EV_EOF OR EV_ONESHOT) kn)\<lparr>kn_proc := None\<rparr>) s1;
                   s3 = (if fl (kn_fflags (kn_of s2 p)) NOTE_EXIT
                         then case w_proc (k_w s2) pr of
                                None \<Rightarrow> s2
                              | Some x \<Rightarrow> kn_mod p (set_data (ucast (KW_EXITCODE (p_xexit x) (p_xsig x)))) s2
                         else s2);
                   s4 = (if kn_fflags (kn_of s3 p) = 0 then kn_mod p (or_flags EV_DROP) s3 else s3)
               in (True, s4)
             else (kn_fflags (kn_of s1 p) \<noteq> 0, s1))"

definition filt_procdetach :: "nat \<times> nat \<Rightarrow> kworld \<Rightarrow> kworld" where
  "filt_procdetach p s =
     (let s1 = (case kn_knlist (kn_of s p) of None \<Rightarrow> s | Some l \<Rightarrow> knlist_remove l p s)
      in kn_mod p (\<lambda>kn. kn\<lparr>kn_proc := None\<rparr>) s1)"

text \<open>
  \<^verbatim>\<open>pfind\<close> looks a live process up by its number, a \<^verbatim>\<open>pid_t\<close>
  of 32 bits; \<^verbatim>\<open>pfind_any\<close> also finds zombies.
\<close>

definition pfind_any :: "u64 \<Rightarrow> kworld \<Rightarrow> nat option" where
  "pfind_any pid s =
     (let i = unat (ucast pid :: u32) in case w_proc (k_w s) i of None \<Rightarrow> None | Some _ \<Rightarrow> Some i)"

definition pfind :: "u64 \<Rightarrow> kworld \<Rightarrow> nat option" where
  "pfind pid s =
     (let i = unat (ucast pid :: u32)
      in case w_proc (k_w s) i of None \<Rightarrow> None | Some x \<Rightarrow> if p_zombie x then None else Some i)"

text \<open>
  The middle of \<^verbatim>\<open>filt_procattach\<close>, from the setting of
  \<open>p_proc\<close> to the insertion in the process's list; \<open>True\<close> when the knote has to be
  activated at once.
\<close>

definition procattach_kn :: "nat \<Rightarrow> nat \<times> nat \<Rightarrow> kworld \<Rightarrow> bool \<times> kworld" where
  "procattach_kn pr p s =
     (let s1 = kn_mod p (\<lambda>kn. or_flags EV_CLEAR (kn\<lparr>kn_proc := Some pr\<rparr>)) s;
          immediate = fl (kn_flags (kn_of s1 p)) EV_FLAG2;
          s2 = (if immediate then kn_mod p (\<lambda>kn.
                  (set_fflags NOTE_CHILD (set_data (kn_sdata kn) (clr_flags EV_FLAG2 kn)))
                  \<lparr>kn_sfflags := kn_sfflags kn AND NOT (NOTE_EXIT OR NOTE_EXEC OR NOTE_FORK)\<rparr>) s1
                else s1);
          s3 = (if fl (kn_flags (kn_of s2 p)) EV_FLAG1
                then kn_mod p (clr_flags EV_FLAG1) s2 else s2)
      in (immediate, knlist_add (Knl_proc pr) p s3))"

definition filt_procattach :: "nat \<times> nat \<Rightarrow> kworld \<Rightarrow> int \<times> kworld" where
  "filt_procattach p s =
     (let kn = kn_of s p;
          act = kq_upd (fst p) (KNOTE_ACTIVATE (snd p))
      in
      case (if fl (kn_sfflags kn) NOTE_EXIT then pfind_any (kn_id kn) s else pfind (kn_id kn) s) of
        None \<Rightarrow> (ESRCH, s)
      | Some pr \<Rightarrow>
          (case w_proc (k_w s) pr of
             None \<Rightarrow> (ESRCH, s)
           | Some x \<Rightarrow>
               if p_cansee x \<noteq> 0 then (p_cansee x, s)
               else
                 let (immediate, s4) = procattach_kn pr p s
                 in if immediate then (0, act s4)
                    else if p_wexit x then
                      let (ev, s5) = filt_proc p (ucast NOTE_EXIT) s4
                      in (0, if ev then act s5 else s5)
                    else (0, s4)))"

definition filt_sigattach :: "nat \<times> nat \<Rightarrow> kworld \<Rightarrow> int \<times> kworld" where
  "filt_sigattach p s =
     (let pr = w_curproc (k_w s);
          s1 = kn_mod p (\<lambda>kn. or_flags EV_CLEAR (kn\<lparr>kn_proc := Some pr\<rparr>)) s
      in (0, knlist_add (Knl_proc pr) p s1))"

definition filt_sigdetach :: "nat \<times> nat \<Rightarrow> kworld \<Rightarrow> kworld" where
  "filt_sigdetach p s =
     (case kn_proc (kn_of s p) of None \<Rightarrow> s | Some pr \<Rightarrow> knlist_remove (Knl_proc pr) p s)"

definition filt_signal :: "nat \<times> nat \<Rightarrow> u64 \<Rightarrow> kworld \<Rightarrow> bool \<times> kworld" where
  "filt_signal p hint s =
     (let s1 = (if fl hint NOTE_SIGNAL \<and> kn_id (kn_of s p) = hint AND NOT NOTE_SIGNAL
                then kn_mod p (\<lambda>kn. set_data (kn_data kn + 1) kn) s else s)
      in (kn_data (kn_of s1 p) \<noteq> 0, s1))"

definition filt_fsattach :: "nat \<times> nat \<Rightarrow> kworld \<Rightarrow> int \<times> kworld" where
  "filt_fsattach p s = (0, knlist_add Knl_fs p (kn_mod p (or_flags EV_CLEAR) s))"

definition filt_fsdetach :: "nat \<times> nat \<Rightarrow> kworld \<Rightarrow> kworld" where
  "filt_fsdetach p s = knlist_remove Knl_fs p s"

definition filt_fsevent :: "nat \<times> nat \<Rightarrow> u64 \<Rightarrow> kworld \<Rightarrow> bool \<times> kworld" where
  "filt_fsevent p hint s =
     (let s1 = kn_mod p (\<lambda>kn. set_fflags (kn_fflags kn OR ucast hint) kn) s
      in (kn_fflags (kn_of s1 p) \<noteq> 0, s1))"

section \<open>Timers\<close>

abbreviation NOTE_SECONDS :: u32 where "NOTE_SECONDS \<equiv> 0x1"
abbreviation NOTE_MSECONDS :: u32 where "NOTE_MSECONDS \<equiv> 0x2"
abbreviation NOTE_USECONDS :: u32 where "NOTE_USECONDS \<equiv> 0x4"
abbreviation NOTE_NSECONDS :: u32 where "NOTE_NSECONDS \<equiv> 0x8"
abbreviation NOTE_ABSTIME :: u32 where "NOTE_ABSTIME \<equiv> 0x10"
abbreviation NOTE_TIMER_PRECMASK :: u32 where "NOTE_TIMER_PRECMASK \<equiv> 0xf"

text \<open>
  A fraction of \<open>x\<close> units of 1/n second, \<^verbatim>\<open>((x) * (((uint64_t)1 << 63)
  / (n / 2))) >> 32\<close>, and the conversion for a unit with whole seconds split off.  An
  \<^verbatim>\<open>int64_t\<close> is kept as its 64 bits and read with \<open>sint\<close>.
\<close>

definition FRAC_TO_SBT :: "nat \<Rightarrow> u64 \<Rightarrow> u64" where
  "FRAC_TO_SBT n x = drop_bit 32 (x * (0x8000000000000000 div word_of_nat (n div 2)))"

definition unit2sbintime :: "nat \<Rightarrow> u64 \<Rightarrow> u64" where
  "unit2sbintime n data =
     (if sint data \<ge> int n then
        let secs = word_of_int (sint data div int n) :: u64 in
        if sint secs > SBT_MAX div SBT_1S then word_of_int SBT_MAX
        else push_bit 32 secs OR FRAC_TO_SBT n (word_of_int (sint data mod int n))
      else FRAC_TO_SBT n data)"

definition timer2sbintime :: "u64 \<Rightarrow> u32 \<Rightarrow> int" where
  "timer2sbintime data flags =
     (let prec = flags AND NOTE_TIMER_PRECMASK in
      if prec = NOTE_SECONDS then
        if sint data > SBT_MAX div SBT_1S then SBT_MAX else sint (push_bit 32 data)
      else if prec = NOTE_MSECONDS \<or> prec = 0 then sint (unit2sbintime 1000 data)
      else if prec = NOTE_USECONDS then sint (unit2sbintime 1000000 data)
      else if prec = NOTE_NSECONDS then sint (unit2sbintime 1000000000 data)
      else -1)"

text \<open>The validation also changes \<open>kn_sdata\<close>; it returns the error or the period.\<close>

definition filt_timervalidate :: "nat \<times> nat \<Rightarrow> kworld \<Rightarrow> (int + int) \<times> kworld" where
  "filt_timervalidate p s =
     (let kn = kn_of s p in
      if sint (kn_sdata kn) < 0 then (Inl EINVAL, s)
      else
        let s1 = (if kn_sdata kn = 0 \<and> \<not> fl (kn_flags kn) EV_ONESHOT
                  then kn_mod p (\<lambda>kn. kn\<lparr>kn_sdata := 1\<rparr>) s else s);
            kn1 = kn_of s1 p
        in if fl (kn_sfflags kn1) (NOT (NOTE_TIMER_PRECMASK OR NOTE_ABSTIME)) then (Inl EINVAL, s1)
           else
             let to = timer2sbintime (kn_sdata kn1) (kn_sfflags kn1);
                 to1 = (if fl (kn_sfflags kn1) NOTE_ABSTIME then to - w_boottime (k_w s1) else to)
             in if to1 < 0 then (Inl EINVAL, s1) else (Inr to1, s1))"

text \<open>A sum of two 64-bit times wraps around.\<close>

definition sbt_add :: "int \<Rightarrow> int \<Rightarrow> int" where
  "sbt_add a b = sint (word_of_int (a + b) :: u64)"

definition filt_timerstart :: "nat \<times> nat \<Rightarrow> int \<Rightarrow> kworld \<Rightarrow> kworld" where
  "filt_timerstart p to s =
     (let abst = fl (kn_sfflags (kn_of s p)) NOTE_ABSTIME;
          nxt = (if abst then to else sbt_add to (w_uptime (k_w s)));
          s1 = kn_mod p (\<lambda>kn. kn\<lparr>kn_next := nxt, kn_to := if abst then 0 else to\<rparr>) s
      in w_upd (\<lambda>w. w\<lparr>w_callout := (w_callout w)(p \<mapsto> nxt)\<rparr>) s1)"

definition filt_timerattach :: "nat \<times> nat \<Rightarrow> kworld \<Rightarrow> int \<times> kworld" where
  "filt_timerattach p s =
     (case filt_timervalidate p s of
        (Inl e, s1) \<Rightarrow> (e, s1)
      | (Inr to, s1) \<Rightarrow>
          if w_ncallouts (k_w s1) \<ge> w_calloutmax (k_w s1) then (ENOMEM, s1)
          else
            let s2 = w_upd (\<lambda>w. w\<lparr>w_ncallouts := w_ncallouts w + 1\<rparr>) s1;
                s3 = (if \<not> fl (kn_sfflags (kn_of s2 p)) NOTE_ABSTIME
                      then kn_mod p (or_flags EV_CLEAR) s2 else s2);
                s4 = kn_mod p (st_clr {KN_DETACHED}) s3
            in (0, filt_timerstart p to s4))"

definition filt_timerdetach :: "nat \<times> nat \<Rightarrow> kworld \<Rightarrow> kworld" where
  "filt_timerdetach p s =
     kn_mod p (st_set {KN_DETACHED})
       (w_upd (\<lambda>w. w\<lparr>w_callout := (w_callout w)(p := None), w_ncallouts := w_ncallouts w - 1\<rparr>) s)"

text \<open>The callout routine of a timer.\<close>

definition filt_timerexpire :: "nat \<times> nat \<Rightarrow> kworld \<Rightarrow> kworld" where
  "filt_timerexpire p s =
     (let s0 = w_upd (\<lambda>w. w\<lparr>w_callout := (w_callout w)(p := None)\<rparr>) s;
          s1 = kn_mod p (\<lambda>kn. set_data (kn_data kn + 1) kn) s0;
          s2 = kq_upd (fst p) (KNOTE_ACTIVATE (snd p)) s1;
          kn = kn_of s2 p
      in if fl (kn_flags kn) EV_ONESHOT then s2
         else if kn_to kn = 0 then s2
         else
           let nxt = sbt_add (kn_next kn) (kn_to kn)
           in w_upd (\<lambda>w. w\<lparr>w_callout := (w_callout w)(p \<mapsto> nxt)\<rparr>)
                (kn_mod p (\<lambda>kn. kn\<lparr>kn_next := nxt\<rparr>) s2))"

definition filt_timertouch ::
    "touch \<Rightarrow> nat \<times> nat \<Rightarrow> kevent \<Rightarrow> kworld \<Rightarrow> kevent \<times> kworld" where
  "filt_timertouch t p kev s =
     (case t of
        EVENT_REGISTER \<Rightarrow>
          if fl (ke_flags kev) EV_ADD then
            let s1 = w_upd (\<lambda>w. w\<lparr>w_callout := (w_callout w)(p := None)\<rparr>) s;
                s2 = (if KN_QUEUED \<in> kn_status (kn_of s1 p)
                      then kq_upd (fst p) (knote_dequeue (snd p)) s1 else s1);
                s3 = kn_mod p (\<lambda>kn. set_data 0 (st_clr {KN_ACTIVE} kn)) s2;
                s4 = kn_mod p (\<lambda>kn. kn\<lparr>kn_sfflags := ke_fflags kev, kn_sdata := ke_data kev\<rparr>) s3
            in (kev, case filt_timervalidate p s4 of
                       (Inl e, s5) \<Rightarrow> kn_mod p (\<lambda>kn. set_data (word_of_int e) (or_flags EV_ERROR kn)) s5
                     | (Inr to, s5) \<Rightarrow> filt_timerstart p to s5)
          else (kev, s)
      | EVENT_PROCESS \<Rightarrow>
          (kn_kevent (kn_of s p),
           if fl (kn_flags (kn_of s p)) EV_CLEAR
           then kn_mod p (\<lambda>kn. set_fflags 0 (set_data 0 kn)) s else s))"

definition filt_timer :: "nat \<times> nat \<Rightarrow> u64 \<Rightarrow> kworld \<Rightarrow> bool \<times> kworld" where
  "filt_timer p hint s = (kn_data (kn_of s p) \<noteq> 0, s)"

section \<open>User events\<close>

abbreviation NOTE_FFCTRLMASK :: u32 where "NOTE_FFCTRLMASK \<equiv> 0xc0000000"
abbreviation NOTE_FFAND :: u32 where "NOTE_FFAND \<equiv> 0x40000000"
abbreviation NOTE_FFOR :: u32 where "NOTE_FFOR \<equiv> 0x80000000"
abbreviation NOTE_FFCOPY :: u32 where "NOTE_FFCOPY \<equiv> 0xc0000000"
abbreviation NOTE_FFLAGSMASK :: u32 where "NOTE_FFLAGSMASK \<equiv> 0x00ffffff"
abbreviation NOTE_TRIGGER :: u32 where "NOTE_TRIGGER \<equiv> 0x01000000"

definition filt_userattach :: "nat \<times> nat \<Rightarrow> kworld \<Rightarrow> int \<times> kworld" where
  "filt_userattach p s =
     (0, kn_mod p (\<lambda>kn. kn\<lparr>kn_hook := None,
           kn_hookid := if fl (kn_fflags kn) NOTE_TRIGGER then 1 else 0\<rparr>) s)"

definition filt_userdetach :: "nat \<times> nat \<Rightarrow> kworld \<Rightarrow> kworld" where
  "filt_userdetach p s = s"

definition filt_user :: "nat \<times> nat \<Rightarrow> u64 \<Rightarrow> kworld \<Rightarrow> bool \<times> kworld" where
  "filt_user p hint s = (kn_hookid (kn_of s p) \<noteq> 0, s)"

definition user_clear :: "knote \<Rightarrow> knote" where
  "user_clear kn = set_fflags 0 (set_data 0 (kn\<lparr>kn_hookid := 0\<rparr>))"

definition filt_usertouch ::
    "touch \<Rightarrow> nat \<times> nat \<Rightarrow> kevent \<Rightarrow> kworld \<Rightarrow> kevent \<times> kworld" where
  "filt_usertouch t p kev s =
     (case t of
        EVENT_REGISTER \<Rightarrow>
          let s1 = (if fl (ke_fflags kev) NOTE_TRIGGER
                    then kn_mod p (\<lambda>kn. kn\<lparr>kn_hookid := 1\<rparr>) s else s);
              ffctrl = ke_fflags kev AND NOTE_FFCTRLMASK;
              kev1 = kev\<lparr>ke_fflags := ke_fflags kev AND NOTE_FFLAGSMASK\<rparr>;
              s2 = (if ffctrl = NOTE_FFAND
                    then kn_mod p (\<lambda>kn. kn\<lparr>kn_sfflags := kn_sfflags kn AND ke_fflags kev1\<rparr>) s1
                    else if ffctrl = NOTE_FFOR
                    then kn_mod p (\<lambda>kn. kn\<lparr>kn_sfflags := kn_sfflags kn OR ke_fflags kev1\<rparr>) s1
                    else if ffctrl = NOTE_FFCOPY
                    then kn_mod p (\<lambda>kn. kn\<lparr>kn_sfflags := ke_fflags kev1\<rparr>) s1
                    else s1);
              s3 = kn_mod p (\<lambda>kn. kn\<lparr>kn_sdata := ke_data kev1\<rparr>) s2
          in (kev1, if fl (ke_flags kev1) EV_CLEAR then kn_mod p user_clear s3 else s3)
      | EVENT_PROCESS \<Rightarrow>
          (let kn = kn_of s p
           in ((kn_kevent kn)\<lparr>ke_fflags := kn_sfflags kn, ke_data := kn_sdata kn\<rparr>,
               if fl (kn_flags kn) EV_CLEAR then kn_mod p user_clear s else s)))"

section \<open>The table of filters\<close>

definition filt_nullattach :: "nat \<times> nat \<Rightarrow> kworld \<Rightarrow> int \<times> kworld" where
  "filt_nullattach p s = (ENXIO, s)"

text \<open>
  An entry that is NULL in the table is never called: it does nothing here.  The tables of
  files that \<^verbatim>\<open>fo_kqfilter\<close> installs have no attach routine, and only the
  timer and the user filter have a touch routine.
\<close>

fun kern_ops :: "filtop \<Rightarrow> world filterops" where
  "kern_ops File_filtops =
     \<lparr>f_attach = filt_fileattach, f_detach = (\<lambda>p s. s), f_event = (\<lambda>p h s. (False, s)),
      f_touch = (\<lambda>t p kev s. (kev, s))\<rparr>"
| "kern_ops Kqread_filtops =
     \<lparr>f_attach = (\<lambda>p s. (0, s)), f_detach = filt_kqdetach, f_event = filt_kqueue,
      f_touch = (\<lambda>t p kev s. (kev, s))\<rparr>"
| "kern_ops Proc_filtops =
     \<lparr>f_attach = filt_procattach, f_detach = filt_procdetach, f_event = filt_proc,
      f_touch = (\<lambda>t p kev s. (kev, s))\<rparr>"
| "kern_ops Timer_filtops =
     \<lparr>f_attach = filt_timerattach, f_detach = filt_timerdetach, f_event = filt_timer,
      f_touch = filt_timertouch\<rparr>"
| "kern_ops User_filtops =
     \<lparr>f_attach = filt_userattach, f_detach = filt_userdetach, f_event = filt_user,
      f_touch = filt_usertouch\<rparr>"
| "kern_ops Null_filtops =
     \<lparr>f_attach = filt_nullattach, f_detach = (\<lambda>p s. s), f_event = (\<lambda>p h s. (False, s)),
      f_touch = (\<lambda>t p kev s. (kev, s))\<rparr>"
| "kern_ops Sig_filtops =
     \<lparr>f_attach = filt_sigattach, f_detach = filt_sigdetach, f_event = filt_signal,
      f_touch = (\<lambda>t p kev s. (kev, s))\<rparr>"
| "kern_ops Fs_filtops =
     \<lparr>f_attach = filt_fsattach, f_detach = filt_fsdetach, f_event = filt_fsevent,
      f_touch = (\<lambda>t p kev s. (kev, s))\<rparr>"
| "kern_ops Eventfd_rfiltops =
     \<lparr>f_attach = (\<lambda>p s. (0, s)), f_detach = filt_eventfddetach, f_event = filt_eventfdread,
      f_touch = (\<lambda>t p kev s. (kev, s))\<rparr>"
| "kern_ops Eventfd_wfiltops =
     \<lparr>f_attach = (\<lambda>p s. (0, s)), f_detach = filt_eventfddetach, f_event = filt_eventfdwrite,
      f_touch = (\<lambda>t p kev s. (kev, s))\<rparr>"
| "kern_ops Soread_filtops =
     \<lparr>f_attach = (\<lambda>p s. (0, s)), f_detach = filt_sordetach, f_event = filt_soread,
      f_touch = (\<lambda>t p kev s. (kev, s))\<rparr>"
| "kern_ops Sowrite_filtops =
     \<lparr>f_attach = (\<lambda>p s. (0, s)), f_detach = filt_sowdetach, f_event = filt_sowrite,
      f_touch = (\<lambda>t p kev s. (kev, s))\<rparr>"
| "kern_ops Soempty_filtops =
     \<lparr>f_attach = (\<lambda>p s. (0, s)), f_detach = filt_sowdetach, f_event = filt_soempty,
      f_touch = (\<lambda>t p kev s. (kev, s))\<rparr>"

text \<open>The array \<^verbatim>\<open>sysfilt_ops\<close> as it is initialised.\<close>

definition sysfilt_ops :: "int \<Rightarrow> filtent" where
  "sysfilt_ops i =
     (let locked = (\<lambda>f. \<lparr>for_fop = Some f, for_nolock = False, for_refcnt = 0\<rparr>);
          nolock = (\<lambda>f. \<lparr>for_fop = Some f, for_nolock = True, for_refcnt = 0\<rparr>)
      in if i \<in> {0, 1, 3, 7, 12} then nolock File_filtops
         else if i = 4 then nolock Proc_filtops
         else if i = 5 then nolock Sig_filtops
         else if i = 6 then nolock Timer_filtops
         else if i = 8 then nolock Fs_filtops
         else if i = 10 then nolock User_filtops
         else if i \<in> {2, 9, 11} then locked Null_filtops
         else \<lparr>for_fop = None, for_nolock = False, for_refcnt = 0\<rparr>)"

text \<open>
  A process has forked: its knotes are activated, and the ones that track children register
  two knotes on the child, one that reports it and one that goes on tracking.  The search
  for a matching knote is skipped for both, so the registration never sleeps.
\<close>

definition knote_fork_one :: "u64 \<Rightarrow> nat \<times> nat \<Rightarrow> kworld \<Rightarrow> kworld" where
  "knote_fork_one pid p s =
     (let kn = kn_of s p; q = fst p; k = snd p;
          act = (\<lambda>s. case f_event (kern_ops (kn_fop (kn_of s p))) p (ucast NOTE_FORK) s of
                       (True, s1) \<Rightarrow> kq_upd q (KNOTE_ACTIVATE k) s1
                     | (False, s1) \<Rightarrow> s1);
          reg = (\<lambda>fs s.
            let kn = kn_of s p;
                kev = \<lparr>ke_ident = pid, ke_filter = kn_filter kn,
                       ke_flags = kn_flags kn OR EV_ADD OR EV_ENABLE OR fs,
                       ke_fflags = kn_sfflags kn, ke_data = kn_id kn,
                       ke_udata = ke_udata (kn_kevent kn), ke_ext = [0, 0, 0, 0]\<rparr>
            in case kqueue_register kern_ops q kev False s of
                 (KRet e, _, s1) \<Rightarrow>
                   if e \<noteq> 0 then kn_mod p (\<lambda>kn. set_fflags (kn_fflags kn OR NOTE_TRACKERR) kn) s1
                   else s1
               | (KSleep, _, s1) \<Rightarrow> s1)
      in if kn_in_flux kn \<and> KN_SCAN \<notin> kn_status kn then s
         else if \<not> fl (kn_sfflags kn) NOTE_TRACK then act s
         else
           let s1 = kq_upd q (kn_enter_flux k) s;
               s2 = reg (EV_ONESHOT OR EV_FLAG2) s1;
               s3 = reg EV_FLAG1 s2;
               s4 = act s3
           in kq_upd q (\<lambda>kq. KQ_FLUX_WAKEUP (kn_leave_flux k kq)) s4)"

definition knote_fork :: "nat \<Rightarrow> u64 \<Rightarrow> kworld \<Rightarrow> kworld" where
  "knote_fork pr pid s = fold (knote_fork_one pid) (knl_get (Knl_proc pr) s) s"

end
