(* ===== verification/Knote_Inv.thy ===== *)
theory Knote_Inv
  imports Knote
begin

text \<open>
  The invariant of a kqueue, in three parts, and how the operations of theory \<open>Knote\<close>
  keep it.  \<open>queue_ok\<close>: the pending queue holds each knote marked \<open>KN_QUEUED\<close>
  exactly once and nothing else but markers, \<open>kq_count\<close> is its number of knotes, and only
  triggered knotes are queued.  \<open>index_ok X\<close>: every knote outside \<open>X\<close> is linked in
  the one list that its identifier selects, and the lists hold live knotes only.
  \<open>ready_ok X\<close>: outside \<open>X\<close> no enabled knote that has triggered is missing from the
  queue, that is, no event is lost.
\<close>

section \<open>Field equations\<close>

lemma kn_upd_simps [simp]:
  "kq_refcnt (kn_upd k f kq) = kq_refcnt kq"
  "kq_head (kn_upd k f kq) = kq_head kq"
  "kq_count (kn_upd k f kq) = kq_count kq"
  "kq_selwait (kn_upd k f kq) = kq_selwait kq"
  "kq_si_note (kn_upd k f kq) = kq_si_note kq"
  "kq_state (kn_upd k f kq) = kq_state kq"
  "kq_knlistsize (kn_upd k f kq) = kq_knlistsize kq"
  "kq_knlist (kn_upd k f kq) = kq_knlist kq"
  "kq_knhashmask (kn_upd k f kq) = kq_knhashmask kq"
  "kq_knhash (kn_upd k f kq) = kq_knhash kq"
  "kq_fresh (kn_upd k f kq) = kq_fresh kq"
  "kq_notes (kn_upd k f kq) = (kq_notes kq)(k := map_option f (kq_notes kq k))"
  by (simp_all add: kn_upd_def)

lemma kqueue_wakeup_simps [simp]:
  "kq_refcnt (kqueue_wakeup kq) = kq_refcnt kq"
  "kq_head (kqueue_wakeup kq) = kq_head kq"
  "kq_count (kqueue_wakeup kq) = kq_count kq"
  "kq_si_note (kqueue_wakeup kq) = kq_si_note kq"
  "kq_knlistsize (kqueue_wakeup kq) = kq_knlistsize kq"
  "kq_knlist (kqueue_wakeup kq) = kq_knlist kq"
  "kq_knhashmask (kqueue_wakeup kq) = kq_knhashmask kq"
  "kq_knhash (kqueue_wakeup kq) = kq_knhash kq"
  "kq_fresh (kqueue_wakeup kq) = kq_fresh kq"
  "kq_notes (kqueue_wakeup kq) = kq_notes kq"
  by (simp_all add: kqueue_wakeup_def kqueue_schedtask_def Let_def)

lemma kqueue_wakeup_closing [simp]:
  "KQ_CLOSING \<in> kq_state (kqueue_wakeup kq) \<longleftrightarrow> KQ_CLOSING \<in> kq_state kq"
  by (simp add: kqueue_wakeup_def kqueue_schedtask_def Let_def)

lemma kqueue_wakeup_sleep [simp]: "KQ_SLEEP \<notin> kq_state (kqueue_wakeup kq)"
  by (simp add: kqueue_wakeup_def kqueue_schedtask_def Let_def)

lemma KQ_FLUX_WAKEUP_simps [simp]:
  "kq_refcnt (KQ_FLUX_WAKEUP kq) = kq_refcnt kq"
  "kq_head (KQ_FLUX_WAKEUP kq) = kq_head kq"
  "kq_count (KQ_FLUX_WAKEUP kq) = kq_count kq"
  "kq_selwait (KQ_FLUX_WAKEUP kq) = kq_selwait kq"
  "kq_si_note (KQ_FLUX_WAKEUP kq) = kq_si_note kq"
  "kq_state (KQ_FLUX_WAKEUP kq) = kq_state kq - {KQ_FLUXWAIT}"
  "kq_knlistsize (KQ_FLUX_WAKEUP kq) = kq_knlistsize kq"
  "kq_knlist (KQ_FLUX_WAKEUP kq) = kq_knlist kq"
  "kq_knhashmask (KQ_FLUX_WAKEUP kq) = kq_knhashmask kq"
  "kq_knhash (KQ_FLUX_WAKEUP kq) = kq_knhash kq"
  "kq_fresh (KQ_FLUX_WAKEUP kq) = kq_fresh kq"
  "kq_notes (KQ_FLUX_WAKEUP kq) = kq_notes kq"
  by (auto simp: KQ_FLUX_WAKEUP_def)

lemma st_simps [simp]:
  "kn_kevent (st_set F kn) = kn_kevent kn" "kn_fop (st_set F kn) = kn_fop kn"
  "kn_influx (st_set F kn) = kn_influx kn" "kn_status (st_set F kn) = kn_status kn \<union> F"
  "kn_kevent (st_clr F kn) = kn_kevent kn" "kn_fop (st_clr F kn) = kn_fop kn"
  "kn_influx (st_clr F kn) = kn_influx kn" "kn_status (st_clr F kn) = kn_status kn - F"
  by (simp_all add: st_set_def st_clr_def)

lemma kn_at_Some [simp]: "kq_notes kq k = Some kn \<Longrightarrow> kn_at kq k = kn"
  by (simp add: kn_at_def)

lemma kn_at_upd [simp]: "kq_notes kq k = Some kn \<Longrightarrow> kn_at (kn_upd k f kq) k = f kn"
  by (simp add: kn_at_def)

lemma knote_enqueue_simps [simp]:
  "kq_head (knote_enqueue k kq) = kq_head kq @ [QNote k]"
  "kq_count (knote_enqueue k kq) = kq_count kq + 1"
  "kq_notes (knote_enqueue k kq) =
     (kq_notes kq)(k := map_option (st_set {KN_QUEUED}) (kq_notes kq k))"
  "kq_refcnt (knote_enqueue k kq) = kq_refcnt kq"
  "kq_si_note (knote_enqueue k kq) = kq_si_note kq"
  "kq_knlistsize (knote_enqueue k kq) = kq_knlistsize kq"
  "kq_knlist (knote_enqueue k kq) = kq_knlist kq"
  "kq_knhashmask (knote_enqueue k kq) = kq_knhashmask kq"
  "kq_knhash (knote_enqueue k kq) = kq_knhash kq"
  "kq_fresh (knote_enqueue k kq) = kq_fresh kq"
  by (simp_all add: knote_enqueue_def Let_def kn_upd_def)

lemma knote_enqueue_closing [simp]:
  "KQ_CLOSING \<in> kq_state (knote_enqueue k kq) \<longleftrightarrow> KQ_CLOSING \<in> kq_state kq"
  by (simp add: knote_enqueue_def Let_def)

lemma knote_dequeue_simps [simp]:
  "kq_head (knote_dequeue k kq) = remove1 (QNote k) (kq_head kq)"
  "kq_count (knote_dequeue k kq) = kq_count kq - 1"
  "kq_notes (knote_dequeue k kq) =
     (kq_notes kq)(k := map_option (st_clr {KN_QUEUED}) (kq_notes kq k))"
  "kq_refcnt (knote_dequeue k kq) = kq_refcnt kq"
  "kq_si_note (knote_dequeue k kq) = kq_si_note kq"
  "kq_state (knote_dequeue k kq) = kq_state kq"
  "kq_knlistsize (knote_dequeue k kq) = kq_knlistsize kq"
  "kq_knlist (knote_dequeue k kq) = kq_knlist kq"
  "kq_knhashmask (knote_dequeue k kq) = kq_knhashmask kq"
  "kq_knhash (knote_dequeue k kq) = kq_knhash kq"
  "kq_fresh (knote_dequeue k kq) = kq_fresh kq"
  by (simp_all add: knote_dequeue_def Let_def kn_upd_def)

section \<open>The pending queue\<close>

definition has_st :: "knflag \<Rightarrow> kqueue \<Rightarrow> nat \<Rightarrow> bool" where
  "has_st f kq k \<longleftrightarrow> (\<exists>kn. kq_notes kq k = Some kn \<and> f \<in> kn_status kn)"

definition queue_ok :: "kqueue \<Rightarrow> bool" where
  "queue_ok kq \<longleftrightarrow>
     distinct (kq_head kq) \<and>
     (\<forall>k. QNote k \<in> set (kq_head kq) \<longleftrightarrow> has_st KN_QUEUED kq k) \<and>
     kq_count kq = int (length (filter is_QNote (kq_head kq))) \<and>
     (\<forall>k. has_st KN_QUEUED kq k \<longrightarrow> has_st KN_ACTIVE kq k)"

definition ready_ok :: "nat set \<Rightarrow> kqueue \<Rightarrow> bool" where
  "ready_ok X kq \<longleftrightarrow>
     (\<forall>k. k \<notin> X \<longrightarrow> has_st KN_ACTIVE kq k \<longrightarrow> \<not> has_st KN_DISABLED kq k \<longrightarrow>
          has_st KN_QUEUED kq k)"

lemma has_st_upd_set [simp]:
  "has_st f (kn_upd k (st_set F) kq) j \<longleftrightarrow>
     has_st f kq j \<or> (j = k \<and> f \<in> F \<and> kq_notes kq k \<noteq> None)"
  by (auto simp: has_st_def)

lemma has_st_upd_clr [simp]:
  "has_st f (kn_upd k (st_clr F) kq) j \<longleftrightarrow> has_st f kq j \<and> \<not> (j = k \<and> f \<in> F)"
  by (auto simp: has_st_def)

lemma has_st_upd_same:
  "(\<And>kn. kn_status (g kn) = kn_status kn) \<Longrightarrow> has_st f (kn_upd k g kq) j = has_st f kq j"
  by (auto simp: has_st_def)

lemma has_st_enqueue [simp]:
  "has_st f (knote_enqueue k kq) j \<longleftrightarrow>
     has_st f kq j \<or> (j = k \<and> f = KN_QUEUED \<and> kq_notes kq k \<noteq> None)"
  by (auto simp: has_st_def)

lemma has_st_dequeue [simp]:
  "has_st f (knote_dequeue k kq) j \<longleftrightarrow> has_st f kq j \<and> \<not> (j = k \<and> f = KN_QUEUED)"
  by (auto simp: has_st_def)

lemma has_st_wakeups [simp]:
  "has_st f (kqueue_wakeup kq) j = has_st f kq j"
  "has_st f (KQ_FLUX_WAKEUP kq) j = has_st f kq j"
  by (simp_all add: has_st_def)

lemma queue_okD:
  assumes "queue_ok kq"
  shows "distinct (kq_head kq)"
    and "QNote k \<in> set (kq_head kq) \<longleftrightarrow> has_st KN_QUEUED kq k"
    and "kq_count kq = int (length (filter is_QNote (kq_head kq)))"
    and "has_st KN_QUEUED kq k \<Longrightarrow> has_st KN_ACTIVE kq k"
  using assms by (auto simp: queue_ok_def)

lemma queue_ok_enqueue:
  assumes "queue_ok kq" "kq_notes kq k \<noteq> None" "\<not> has_st KN_QUEUED kq k" "has_st KN_ACTIVE kq k"
  shows "queue_ok (knote_enqueue k kq)"
  using assms unfolding queue_ok_def by auto

lemma queue_ok_dequeue:
  assumes "queue_ok kq" "has_st KN_QUEUED kq k"
  shows "queue_ok (knote_dequeue k kq)"
proof -
  have "QNote k \<in> set (kq_head kq)"
    using assms by (simp add: queue_okD)
  then have "Suc (length (filter is_QNote (remove1 (QNote k) (kq_head kq))))
      = length (filter is_QNote (kq_head kq))"
    by (rule length_filter_remove1) simp
  then show ?thesis
    using assms unfolding queue_ok_def by auto
qed

lemma queue_ok_same:
  assumes "kq_head kq' = kq_head kq" "kq_count kq' = kq_count kq"
    and "\<And>k. has_st KN_QUEUED kq' k = has_st KN_QUEUED kq k"
    and "\<And>k. has_st KN_ACTIVE kq' k = has_st KN_ACTIVE kq k"
  shows "queue_ok kq' = queue_ok kq"
  using assms by (simp add: queue_ok_def)

lemma queue_ok_upd_same:
  "(\<And>kn. kn_status (g kn) = kn_status kn) \<Longrightarrow> queue_ok (kn_upd k g kq) = queue_ok kq"
  by (rule queue_ok_same) (simp_all add: has_st_upd_same)

lemma queue_ok_wakeups [simp]:
  "queue_ok (kqueue_wakeup kq) = queue_ok kq" "queue_ok (KQ_FLUX_WAKEUP kq) = queue_ok kq"
  by (rule queue_ok_same; simp)+

lemma queue_ok_set_active: "queue_ok kq \<Longrightarrow> queue_ok (kn_upd k (st_set {KN_ACTIVE}) kq)"
  by (auto simp: queue_ok_def)

lemma queue_ok_set_other:
  "KN_QUEUED \<notin> F \<Longrightarrow> queue_ok kq \<Longrightarrow> queue_ok (kn_upd k (st_set F) kq)"
  by (auto simp: queue_ok_def)

lemma queue_ok_clr_other:
  "KN_QUEUED \<notin> F \<Longrightarrow> KN_ACTIVE \<notin> F \<Longrightarrow> queue_ok kq \<Longrightarrow> queue_ok (kn_upd k (st_clr F) kq)"
  by (auto simp: queue_ok_def)

lemma has_st_kn_at: "kq_notes kq k \<noteq> None \<Longrightarrow> f \<in> kn_status (kn_at kq k) \<longleftrightarrow> has_st f kq k"
  by (auto simp: has_st_def)

lemma status_inter_empty:
  "kq_notes kq k \<noteq> None \<Longrightarrow>
   kn_status (kn_at kq k) \<inter> {a, b} = {} \<longleftrightarrow> \<not> has_st a kq k \<and> \<not> has_st b kq k"
  by (auto simp: has_st_def)

lemma KNOTE_ACTIVATE_cases:
  assumes "kq_notes kq k \<noteq> None"
  shows "KNOTE_ACTIVATE k kq =
    (let kq1 = kn_upd k (st_set {KN_ACTIVE}) kq
     in if has_st KN_QUEUED kq k \<or> has_st KN_DISABLED kq k then kq1 else knote_enqueue k kq1)"
  using assms by (auto simp: KNOTE_ACTIVATE_def Let_def has_st_def)

lemma queue_ok_activate:
  assumes "queue_ok kq" "kq_notes kq k \<noteq> None"
  shows "queue_ok (KNOTE_ACTIVATE k kq)"
  using assms
  by (auto simp: KNOTE_ACTIVATE_cases Let_def queue_ok_set_active intro!: queue_ok_enqueue)

lemma ready_ok_activate:
  assumes "ready_ok X kq" "kq_notes kq k \<noteq> None"
  shows "ready_ok X (KNOTE_ACTIVATE k kq)"
  using assms by (auto simp: KNOTE_ACTIVATE_cases Let_def ready_ok_def)

lemma ready_ok_mono: "ready_ok X kq \<Longrightarrow> X \<subseteq> Y \<Longrightarrow> ready_ok Y kq"
  by (auto simp: ready_ok_def)

lemma ready_ok_same:
  assumes "\<And>k f. k \<notin> X \<Longrightarrow> has_st f kq' k = has_st f kq k"
  shows "ready_ok X kq' = ready_ok X kq"
  using assms by (simp add: ready_ok_def)

section \<open>The knote tables\<close>

definition index_ok :: "nat set \<Rightarrow> kqueue \<Rightarrow> bool" where
  "index_ok X kq \<longleftrightarrow>
     (\<forall>k kn. kq_notes kq k = Some kn \<longrightarrow> k \<notin> X \<longrightarrow> k \<in> set (kn_klist kq kn)) \<and>
     (\<forall>i k. k \<in> set (kq_knlist kq i) \<longrightarrow>
        i < kq_knlistsize kq \<and> k \<notin> X \<and>
        (\<exists>kn. kq_notes kq k = Some kn \<and> f_isfd (kn_fop kn) \<and> unat (kn_id kn) = i)) \<and>
     (\<forall>i k. k \<in> set (kq_knhash kq i) \<longrightarrow>
        kq_knhashmask kq \<noteq> 0 \<and> k \<notin> X \<and>
        (\<exists>kn. kq_notes kq k = Some kn \<and> \<not> f_isfd (kn_fop kn) \<and>
              KN_HASH (kn_id kn) (kq_knhashmask kq) = i)) \<and>
     (\<forall>i. distinct (kq_knlist kq i)) \<and> (\<forall>i. distinct (kq_knhash kq i))"

lemma index_ok_note:
  "index_ok X kq \<Longrightarrow> kq_notes kq k = Some kn \<Longrightarrow> k \<notin> X \<Longrightarrow> k \<in> set (kn_klist kq kn)"
  unfolding index_ok_def by blast

lemma index_ok_fd:
  "index_ok X kq \<Longrightarrow> k \<in> set (kq_knlist kq i) \<Longrightarrow>
     i < kq_knlistsize kq \<and> k \<notin> X \<and>
     (\<exists>kn. kq_notes kq k = Some kn \<and> f_isfd (kn_fop kn) \<and> unat (kn_id kn) = i)"
  unfolding index_ok_def by blast

lemma index_ok_nfd:
  "index_ok X kq \<Longrightarrow> k \<in> set (kq_knhash kq i) \<Longrightarrow>
     kq_knhashmask kq \<noteq> 0 \<and> k \<notin> X \<and>
     (\<exists>kn. kq_notes kq k = Some kn \<and> \<not> f_isfd (kn_fop kn) \<and>
           KN_HASH (kn_id kn) (kq_knhashmask kq) = i)"
  unfolding index_ok_def by blast

lemma index_ok_distinct:
  "index_ok X kq \<Longrightarrow> distinct (kq_knlist kq i)" "index_ok X kq \<Longrightarrow> distinct (kq_knhash kq i)"
  unfolding index_ok_def by blast+

lemma index_okI:
  assumes "\<And>k kn. kq_notes kq k = Some kn \<Longrightarrow> k \<notin> X \<Longrightarrow> k \<in> set (kn_klist kq kn)"
    and "\<And>i k. k \<in> set (kq_knlist kq i) \<Longrightarrow>
        i < kq_knlistsize kq \<and> k \<notin> X \<and>
        (\<exists>kn. kq_notes kq k = Some kn \<and> f_isfd (kn_fop kn) \<and> unat (kn_id kn) = i)"
    and "\<And>i k. k \<in> set (kq_knhash kq i) \<Longrightarrow>
        kq_knhashmask kq \<noteq> 0 \<and> k \<notin> X \<and>
        (\<exists>kn. kq_notes kq k = Some kn \<and> \<not> f_isfd (kn_fop kn) \<and>
              KN_HASH (kn_id kn) (kq_knhashmask kq) = i)"
    and "\<And>i. distinct (kq_knlist kq i)" "\<And>i. distinct (kq_knhash kq i)"
  shows "index_ok X kq"
  using assms unfolding index_ok_def by blast

text \<open>Two knotes of a kqueue never watch the same identifier with the same filter.\<close>

definition uniq_ok :: "nat set \<Rightarrow> kqueue \<Rightarrow> bool" where
  "uniq_ok X kq \<longleftrightarrow>
     (\<forall>j k a b. kq_notes kq j = Some a \<longrightarrow> kq_notes kq k = Some b \<longrightarrow> j \<notin> X \<longrightarrow> k \<notin> X \<longrightarrow>
        kn_id a = kn_id b \<longrightarrow> kn_filter a = kn_filter b \<longrightarrow> j = k)"

definition fresh_ok :: "kqueue \<Rightarrow> bool" where
  "fresh_ok kq \<longleftrightarrow> (\<forall>k \<ge> kq_fresh kq. kq_notes kq k = None)"

text \<open>The part of a knote that the tables depend on.\<close>

definition kn_key :: "knote \<Rightarrow> u64 \<times> int \<times> bool" where
  "kn_key kn = (kn_id kn, kn_filter kn, f_isfd (kn_fop kn))"

lemma kn_key_klist: "kn_key a = kn_key b \<Longrightarrow> kn_klist kq a = kn_klist kq b"
  by (simp add: kn_key_def kn_klist_def)

lemma index_ok_same:
  assumes "\<And>k. map_option kn_key (kq_notes kq' k) = map_option kn_key (kq_notes kq k)"
    and "kq_knlistsize kq' = kq_knlistsize kq" "kq_knlist kq' = kq_knlist kq"
    and "kq_knhashmask kq' = kq_knhashmask kq" "kq_knhash kq' = kq_knhash kq"
    and "index_ok X kq"
  shows "index_ok X kq'"
proof -
  have bwd: "\<exists>kn. kq_notes kq k = Some kn \<and> kn_key kn = kn_key kn'"
    if "kq_notes kq' k = Some kn'" for k kn'
    using assms(1) [of k] that by (auto simp: map_option_case split: option.splits)
  have fwd: "\<exists>kn'. kq_notes kq' k = Some kn' \<and> kn_key kn = kn_key kn'"
    if "kq_notes kq k = Some kn" for k kn
    using assms(1) [of k] that by (auto simp: map_option_case split: option.splits)
  have klist: "kn_klist kq' kn = kn_klist kq kn" for kn
    using assms(2-5) by (simp add: kn_klist_def)
  have 1: "k \<in> set (kn_klist kq' kn')" if h: "kq_notes kq' k = Some kn'" "k \<notin> X" for k kn'
  proof -
    obtain kn where "kq_notes kq k = Some kn" "kn_key kn = kn_key kn'"
      using bwd [OF h(1)] by blast
    then have "k \<in> set (kn_klist kq kn)" "kn_klist kq kn = kn_klist kq kn'"
      using assms(6) h(2) by (auto simp: index_ok_def intro!: kn_key_klist)
    then show ?thesis by (simp add: klist)
  qed
  have 2: "i < kq_knlistsize kq \<and> k \<notin> X \<and>
      (\<exists>kn. kq_notes kq' k = Some kn \<and> f_isfd (kn_fop kn) \<and> unat (kn_id kn) = i)"
    if h: "k \<in> set (kq_knlist kq i)" for i k
  proof -
    obtain kn where "i < kq_knlistsize kq" "k \<notin> X" "kq_notes kq k = Some kn"
      "f_isfd (kn_fop kn)" "unat (kn_id kn) = i"
      using assms(6) h unfolding index_ok_def by blast
    then show ?thesis using fwd [of k kn] by (auto simp: kn_key_def)
  qed
  have 3: "kq_knhashmask kq \<noteq> 0 \<and> k \<notin> X \<and>
      (\<exists>kn. kq_notes kq' k = Some kn \<and> \<not> f_isfd (kn_fop kn) \<and>
            KN_HASH (kn_id kn) (kq_knhashmask kq) = i)"
    if h: "k \<in> set (kq_knhash kq i)" for i k
  proof -
    obtain kn where "kq_knhashmask kq \<noteq> 0" "k \<notin> X" "kq_notes kq k = Some kn"
      "\<not> f_isfd (kn_fop kn)" "KN_HASH (kn_id kn) (kq_knhashmask kq) = i"
      using assms(6) h unfolding index_ok_def by blast
    then show ?thesis using fwd [of k kn] by (auto simp: kn_key_def)
  qed
  have 4: "\<forall>i. distinct (kq_knlist kq i)" "\<forall>i. distinct (kq_knhash kq i)"
    using assms(6) by (auto simp: index_ok_def)
  show ?thesis
    unfolding index_ok_def assms(2-5) using 1 2 3 4 by blast
qed

end
