(* ===== verification/Kqueue_Inv.thy ===== *)
theory Kqueue_Inv
  imports Kqueue Knote_Inv
begin

text \<open>
  The contract between the event queue and its filters, as the locale \<open>filters\<close>, and
  what follows from it: every operation of theory \<open>Kqueue\<close> keeps the invariant of the
  kqueue it works on and leaves the other kqueues alone.
\<close>

section \<open>The invariant\<close>

definition calm :: "nat set \<Rightarrow> kqueue \<Rightarrow> bool" where
  "calm X kq \<longleftrightarrow>
     (\<forall>k kn. kq_notes kq k = Some kn \<longrightarrow> k \<notin> X \<longrightarrow> kn_influx kn = 0 \<and> KN_SCAN \<notin> kn_status kn)"

definition kq_inv :: "kqueue \<Rightarrow> bool" where
  "kq_inv kq \<longleftrightarrow> queue_ok kq \<and> index_ok {} kq \<and> ready_ok {} kq \<and> fresh_ok kq \<and> calm {} kq"

text \<open>
  The same while the knotes \<open>X\<close> are allocated and not yet linked, and while an operation
  has the knote \<open>k\<close> in flux.
\<close>

definition kq_alloc :: "nat set \<Rightarrow> kqueue \<Rightarrow> bool" where
  "kq_alloc X kq \<longleftrightarrow>
     queue_ok kq \<and> index_ok X kq \<and> ready_ok {} kq \<and> fresh_ok kq \<and> calm {} kq \<and>
     (\<forall>k \<in> X. kq_notes kq k = Some zero_knote)"

definition kq_mid :: "nat set \<Rightarrow> nat \<Rightarrow> kqueue \<Rightarrow> bool" where
  "kq_mid X k kq \<longleftrightarrow>
     queue_ok kq \<and> index_ok X kq \<and> ready_ok {k} kq \<and> fresh_ok kq \<and> calm {k} kq \<and>
     k \<notin> X \<and> (\<forall>j \<in> X. kq_notes kq j = Some zero_knote) \<and>
     (\<exists>kn. kq_notes kq k = Some kn \<and> kn_influx kn = 1)"

definition marks :: "kqueue \<Rightarrow> qent list" where
  "marks kq = filter (\<lambda>e. \<not> is_QNote e) (kq_head kq)"

section \<open>Steps a filter may make\<close>

text \<open>
  What a filter's event, detach and process routines may do to the kqueue: change the knote
  they are given, outside its key, its flux count and the flags the queue rests on.
\<close>

definition st_core :: "knote \<Rightarrow> knflag set" where
  "st_core kn = kn_status kn \<inter> {KN_ACTIVE, KN_QUEUED, KN_DISABLED, KN_MARKER, KN_SCAN}"

definition note_step :: "nat \<Rightarrow> kqueue \<Rightarrow> kqueue \<Rightarrow> bool" where
  "note_step k a b \<longleftrightarrow>
     (\<exists>g sn. b = (kn_upd k g a)\<lparr>kq_si_note := sn\<rparr> \<and>
       (\<forall>kn. kn_key (g kn) = kn_key kn \<and> st_core (g kn) = st_core kn \<and>
             kn_influx (g kn) = kn_influx kn))"

text \<open>
  The attach routine and the touch routine of a change may also queue or dequeue the knote.
\<close>

definition kn_stable :: "knote \<Rightarrow> knote \<Rightarrow> bool" where
  "kn_stable a b \<longleftrightarrow>
     kn_key a = kn_key b \<and> kn_influx a = kn_influx b \<and>
     kn_status a \<inter> {KN_DISABLED, KN_SCAN, KN_MARKER} = kn_status b \<inter> {KN_DISABLED, KN_SCAN, KN_MARKER}"

definition cb_step :: "nat \<Rightarrow> kqueue \<Rightarrow> kqueue \<Rightarrow> bool" where
  "cb_step k a b \<longleftrightarrow>
     kq_knlistsize b = kq_knlistsize a \<and> kq_knlist b = kq_knlist a \<and>
     kq_knhashmask b = kq_knhashmask a \<and> kq_knhash b = kq_knhash a \<and>
     kq_fresh b = kq_fresh a \<and> kq_refcnt b = kq_refcnt a \<and>
     (KQ_CLOSING \<in> kq_state b \<longleftrightarrow> KQ_CLOSING \<in> kq_state a) \<and>
     (\<forall>j. j \<noteq> k \<longrightarrow> kq_notes b j = kq_notes a j) \<and>
     rel_option kn_stable (kq_notes a k) (kq_notes b k) \<and>
     (queue_ok a \<longrightarrow> queue_ok b) \<and> marks b = marks a"

definition other_step :: "kqueue \<Rightarrow> kqueue \<Rightarrow> bool" where
  "other_step a b \<longleftrightarrow> (\<exists>sn. b = a\<lparr>kq_si_note := sn\<rparr>)"

definition kern_frame :: "'w kern \<Rightarrow> 'w kern \<Rightarrow> bool" where
  "kern_frame s s' \<longleftrightarrow>
     k_filt s' = k_filt s \<and> k_files s' = k_files s \<and> k_fdt s' = k_fdt s \<and>
     k_kqlist s' = k_kqlist s \<and> k_mem s' = k_mem s \<and> k_retval s' = k_retval s"

locale filters =
  fixes ops :: "'w fops"
  assumes event_step:
    "f_event (ops t) (q, k) h s = (b, s') \<Longrightarrow>
       kern_frame s s' \<and> note_step k (kqs s q) (kqs s' q) \<and>
       (\<forall>q'. q' \<noteq> q \<longrightarrow> other_step (kqs s q') (kqs s' q'))"
  and detach_step:
    "f_detach (ops t) (q, k) s = s' \<Longrightarrow>
       kern_frame s s' \<and> note_step k (kqs s q) (kqs s' q) \<and>
       (\<forall>q'. q' \<noteq> q \<longrightarrow> other_step (kqs s q') (kqs s' q'))"
  and attach_step:
    "kq_notes (kqs s q) k = Some kn \<Longrightarrow> kn_fop kn = t \<Longrightarrow> f_attach (ops t) (q, k) s = (e, s') \<Longrightarrow>
       kern_frame s s' \<and> cb_step k (kqs s q) (kqs s' q) \<and>
       (\<forall>q'. q' \<noteq> q \<longrightarrow> other_step (kqs s q') (kqs s' q'))"
  and touch_register_step:
    "kq_notes (kqs s q) k \<noteq> None \<Longrightarrow>
       f_touch (ops t) EVENT_REGISTER (q, k) kev s = (kev', s') \<Longrightarrow>
       kern_frame s s' \<and> cb_step k (kqs s q) (kqs s' q) \<and>
       (\<forall>q'. q' \<noteq> q \<longrightarrow> other_step (kqs s q') (kqs s' q'))"
  and touch_process_step:
    "kq_notes (kqs s q) k = Some kn \<Longrightarrow>
       f_touch (ops t) EVENT_PROCESS (q, k) (kn_kevent kn) s = (kev', s') \<Longrightarrow>
       ke_ident kev' = kn_id kn \<and> ke_filter kev' = kn_filter kn \<and>
       kern_frame s s' \<and> note_step k (kqs s q) (kqs s' q) \<and>
       (\<forall>q'. q' \<noteq> q \<longrightarrow> other_step (kqs s q') (kqs s' q'))"

section \<open>Steps keep the invariant\<close>

lemma kq_inv_sel [simp]:
  "queue_ok (kq\<lparr>kq_si_note := sn\<rparr>) = queue_ok kq"
  "index_ok X (kq\<lparr>kq_si_note := sn\<rparr>) = index_ok X kq"
  "ready_ok X (kq\<lparr>kq_si_note := sn\<rparr>) = ready_ok X kq"
  "fresh_ok (kq\<lparr>kq_si_note := sn\<rparr>) = fresh_ok kq"
  "calm X (kq\<lparr>kq_si_note := sn\<rparr>) = calm X kq"
  "marks (kq\<lparr>kq_si_note := sn\<rparr>) = marks kq"
  "kq_inv (kq\<lparr>kq_si_note := sn\<rparr>) = kq_inv kq"
  by (simp_all add: queue_ok_def index_ok_def ready_ok_def fresh_ok_def calm_def marks_def
      has_st_def kn_klist_def kq_inv_def)

lemma marks_kn_upd [simp]: "marks (kn_upd k f kq) = marks kq"
  by (simp add: marks_def)

lemma kq_alloc_empty: "kq_alloc {} kq \<longleftrightarrow> kq_inv kq"
  by (simp add: kq_alloc_def kq_inv_def)

lemma other_step_inv: "other_step a b \<Longrightarrow> kq_inv a \<Longrightarrow> kq_inv b"
  by (auto simp: other_step_def)

lemma other_step_refl [simp]: "other_step a a"
  by (auto simp: other_step_def intro: exI [of _ "kq_si_note a"])

lemma other_step_trans: "other_step a b \<Longrightarrow> other_step b c \<Longrightarrow> other_step a c"
  by (auto simp: other_step_def)

lemma kern_frame_refl [simp]: "kern_frame s s"
  by (simp add: kern_frame_def)

lemma kern_frame_trans: "kern_frame a b \<Longrightarrow> kern_frame b c \<Longrightarrow> kern_frame a c"
  by (simp add: kern_frame_def)

lemma st_core_has:
  assumes "st_core a = st_core b" "f \<in> {KN_ACTIVE, KN_QUEUED, KN_DISABLED, KN_MARKER, KN_SCAN}"
  shows "f \<in> kn_status a \<longleftrightarrow> f \<in> kn_status b"
  using assms unfolding st_core_def by blast

lemma note_step_cb: "note_step k a b \<Longrightarrow> cb_step k a b"
proof -
  assume "note_step k a b"
  then obtain g sn where b: "b = (kn_upd k g a)\<lparr>kq_si_note := sn\<rparr>"
    and g: "\<And>kn. kn_key (g kn) = kn_key kn" "\<And>kn. st_core (g kn) = st_core kn"
      "\<And>kn. kn_influx (g kn) = kn_influx kn"
    by (auto simp: note_step_def)
  have st: "has_st f (kn_upd k g a) j = has_st f a j"
    if "f \<in> {KN_ACTIVE, KN_QUEUED, KN_DISABLED, KN_MARKER, KN_SCAN}" for f j
    using st_core_has [OF g(2) that] by (auto simp: has_st_def)
  have "queue_ok (kn_upd k g a) = queue_ok a"
    by (rule queue_ok_same) (simp_all add: st)
  moreover have "kn_stable kn (g kn)" for kn
    using g st_core_has [OF g(2) [of kn]] by (auto simp: kn_stable_def)
  ultimately show "cb_step k a b"
    by (auto simp: b cb_step_def marks_def rel_option_iff split: option.splits)
qed

lemma note_step_refl: "note_step k a a"
  unfolding note_step_def
  by (rule exI [of _ id], rule exI [of _ "kq_si_note a"]) (simp add: kn_upd_def option.map_id)

lemma cb_step_refl: "cb_step k a a"
  by (auto simp: cb_step_def kn_stable_def rel_option_iff split: option.splits)

lemma cb_step_mid: "cb_step k a b \<Longrightarrow> kq_mid X k a \<Longrightarrow> kq_mid X k b"
proof -
  assume cb: "cb_step k a b" and mid: "kq_mid X k a"
  then obtain x where x: "kq_notes a k = Some x" "kn_influx x = 1"
    by (auto simp: kq_mid_def)
  then obtain y where y: "kq_notes b k = Some y" "kn_stable x y"
    using cb by (auto simp: cb_step_def rel_option_iff split: option.splits)
  have nts: "kq_notes b j = kq_notes a j" if "j \<noteq> k" for j
    using cb that by (simp add: cb_step_def)
  have "map_option kn_key (kq_notes b j) = map_option kn_key (kq_notes a j)" for j
    using nts [of j] x y by (cases "j = k") (auto simp: kn_stable_def)
  then have "index_ok X b"
    using cb mid by (intro index_ok_same [of b a]) (auto simp: cb_step_def kq_mid_def)
  moreover have "ready_ok {k} b"
    using mid nts by (subst ready_ok_same [of _ _ a]) (auto simp: has_st_def kq_mid_def)
  moreover have "fresh_ok b"
    unfolding fresh_ok_def
  proof (intro allI impI)
    fix j assume "kq_fresh b \<le> j"
    then have "kq_notes a j = None"
      using cb mid by (auto simp: cb_step_def kq_mid_def fresh_ok_def)
    then show "kq_notes b j = None"
      using nts [of j] x by (cases "j = k") auto
  qed
  moreover have "calm {k} b"
    using mid nts by (auto simp: calm_def kq_mid_def)
  moreover have "\<forall>j \<in> X. kq_notes b j = Some zero_knote"
    using mid nts by (metis kq_mid_def)
  ultimately show "kq_mid X k b"
    using cb mid x y by (auto simp: kq_mid_def cb_step_def kn_stable_def)
qed

section \<open>Linking, unlinking and freeing a knote\<close>

lemma kn_klist_upd_simps [simp]:
  "kq_refcnt (kn_klist_upd kn f kq) = kq_refcnt kq"
  "kq_head (kn_klist_upd kn f kq) = kq_head kq"
  "kq_count (kn_klist_upd kn f kq) = kq_count kq"
  "kq_si_note (kn_klist_upd kn f kq) = kq_si_note kq"
  "kq_state (kn_klist_upd kn f kq) = kq_state kq"
  "kq_knlistsize (kn_klist_upd kn f kq) = kq_knlistsize kq"
  "kq_knhashmask (kn_klist_upd kn f kq) = kq_knhashmask kq"
  "kq_fresh (kn_klist_upd kn f kq) = kq_fresh kq"
  "kq_notes (kn_klist_upd kn f kq) = kq_notes kq"
  by (simp_all add: kn_klist_upd_def Let_def)

lemma has_st_klist_upd [simp]: "has_st f (kn_klist_upd kn g kq) j = has_st f kq j"
  by (simp add: has_st_def)

lemma queue_ok_klist_upd [simp]: "queue_ok (kn_klist_upd kn g kq) = queue_ok kq"
  by (rule queue_ok_same) simp_all

lemma index_ok_unlink:
  assumes "index_ok X kq" "kq_notes kq k = Some kn"
  shows "index_ok (insert k X) (kn_klist_upd kn (remove1 k) kq)"
proof (cases "f_isfd (kn_fop kn)")
  case True
  then show ?thesis
    using assms unfolding index_ok_def kn_klist_upd_def kn_klist_def Let_def
    by (auto split: if_splits) (metis option.inject)+
next
  case False
  then show ?thesis
    using assms unfolding index_ok_def kn_klist_upd_def kn_klist_def Let_def
    by (auto split: if_splits) (metis option.inject)+
qed

lemma index_ok_link:
  assumes "index_ok (insert k X) kq" "k \<notin> X" "kq_notes kq k = Some kn"
    and "f_isfd (kn_fop kn) \<Longrightarrow> unat (kn_id kn) < kq_knlistsize kq"
    and "\<not> f_isfd (kn_fop kn) \<Longrightarrow> kq_knhashmask kq \<noteq> 0"
  shows "index_ok X (kn_klist_upd kn (\<lambda>l. k # l) kq)"
proof (cases "f_isfd (kn_fop kn)")
  case True
  then show ?thesis
    using assms unfolding index_ok_def kn_klist_upd_def kn_klist_def Let_def
    by (auto split: if_splits) (metis option.inject)+
next
  case False
  then show ?thesis
    using assms unfolding index_ok_def kn_klist_upd_def kn_klist_def Let_def
    by (auto split: if_splits) (metis option.inject)+
qed

lemma index_ok_free:
  assumes "index_ok (insert k X) kq" "k \<notin> X" "kq_notes kq' = (kq_notes kq)(k := None)"
    and "kq_knlistsize kq' = kq_knlistsize kq" "kq_knlist kq' = kq_knlist kq"
    and "kq_knhashmask kq' = kq_knhashmask kq" "kq_knhash kq' = kq_knhash kq"
  shows "index_ok X kq'"
  using assms unfolding index_ok_def kn_klist_def
  by (auto split: if_splits)

definition kq_drop :: "nat \<Rightarrow> kqueue \<Rightarrow> kqueue" where
  "kq_drop k kq = knote_free (Some k) (knote_unlink k kq)"

lemma kq_drop_frame:
  assumes "queue_ok kq" "kq_notes kq k = Some kn"
  shows "kq_notes (kq_drop k kq) = (kq_notes kq)(k := None)"
    and "kq_refcnt (kq_drop k kq) = kq_refcnt kq" "kq_fresh (kq_drop k kq) = kq_fresh kq"
    and "kq_si_note (kq_drop k kq) = kq_si_note kq"
    and "kq_state (kq_drop k kq) = kq_state kq - {KQ_FLUXWAIT}"
    and "kq_knlistsize (kq_drop k kq) = kq_knlistsize kq"
    and "kq_knhashmask (kq_drop k kq) = kq_knhashmask kq"
    and "marks (kq_drop k kq) = marks kq"
    and "kq_head (kq_drop k kq) = remove1 (QNote k) (kq_head kq)"
proof -
  have "QNote k \<notin> set (kq_head kq)" if "KN_QUEUED \<notin> kn_status kn"
    using assms that by (auto simp: queue_ok_def has_st_def)
  then show hd: "kq_head (kq_drop k kq) = remove1 (QNote k) (kq_head kq)"
    using assms by (auto simp: kq_drop_def knote_free_def knote_unlink_def Let_def remove1_idem)
  show "marks (kq_drop k kq) = marks kq"
    unfolding marks_def hd by (simp add: filter_remove1 remove1_idem)
qed (use assms in \<open>auto simp: kq_drop_def knote_free_def knote_unlink_def Let_def\<close>)

lemma has_st_free [simp]:
  "has_st f (knote_free (Some k) kq) j \<longleftrightarrow> has_st f kq j \<and> j \<noteq> k"
  by (auto simp: has_st_def knote_free_def)

lemma kq_drop_queue_ok:
  assumes "queue_ok kq" "kq_notes kq k = Some kn"
  shows "queue_ok (kq_drop k kq)"
proof -
  define a where "a = (if kn_klist kq kn \<noteq> [] then kn_klist_upd kn (remove1 k) kq else kq)"
  define b where "b = (if KN_QUEUED \<in> kn_status kn then knote_dequeue k a else a)"
  have "queue_ok a" and na: "kq_notes a = kq_notes kq"
    using assms by (auto simp: a_def)
  then have b: "queue_ok b" and nq: "\<not> has_st KN_QUEUED b k"
    using assms by (auto simp: b_def has_st_def intro!: queue_ok_dequeue)
  have "queue_ok (knote_free (Some k) b)"
    using b nq unfolding queue_ok_def by (auto simp: knote_free_def has_st_def)
  moreover have "kq_drop k kq = knote_free (Some k) (KQ_FLUX_WAKEUP b)"
    using assms by (simp add: kq_drop_def knote_unlink_def Let_def a_def b_def)
  moreover have "queue_ok (knote_free (Some k) (KQ_FLUX_WAKEUP b)) = queue_ok (knote_free (Some k) b)"
    by (rule queue_ok_same) (simp_all add: knote_free_def has_st_def)
  ultimately show ?thesis by simp
qed

lemma kq_drop_index_ok:
  assumes "index_ok X kq" "k \<notin> X" "kq_notes kq k = Some kn"
  shows "index_ok X (kq_drop k kq)"
proof -
  define a where "a = (if kn_klist kq kn \<noteq> [] then kn_klist_upd kn (remove1 k) kq else kq)"
  have "kn_klist kq kn \<noteq> []"
    using assms unfolding index_ok_def by fastforce
  then have "index_ok (insert k X) a"
    using assms by (simp add: a_def index_ok_unlink)
  then show ?thesis
    by (rule index_ok_free [where kq = a])
      (use assms in \<open>auto simp: kq_drop_def knote_free_def knote_unlink_def Let_def a_def\<close>)
qed

lemma kq_mid_drop:
  assumes "kq_mid X k kq"
  shows "kq_alloc X (kq_drop k kq)"
proof -
  obtain kn where kn: "kq_notes kq k = Some kn" "queue_ok kq"
    using assms by (auto simp: kq_mid_def)
  note fr = kq_drop_frame [OF kn(2,1)]
  have "has_st f (kq_drop k kq) j \<longleftrightarrow> has_st f kq j \<and> j \<noteq> k" for f j
    by (auto simp: has_st_def fr)
  then have "ready_ok {} (kq_drop k kq)"
    using assms by (auto simp: ready_ok_def kq_mid_def)
  moreover have "fresh_ok (kq_drop k kq)" "calm {} (kq_drop k kq)"
    using assms by (auto simp: fresh_ok_def calm_def fr kq_mid_def)
  ultimately show ?thesis
    using assms kn by (auto simp: kq_alloc_def kq_mid_def kq_drop_queue_ok kq_drop_index_ok fr)
qed

section \<open>Leaving flux\<close>

definition kq_settle :: "nat \<Rightarrow> kqueue \<Rightarrow> kqueue" where
  "kq_settle k kq =
     (let kq1 = (if kn_status (kn_at kq k) \<inter> {KN_ACTIVE, KN_DISABLED, KN_QUEUED} = {KN_ACTIVE}
                 then knote_enqueue k kq else kq)
      in KQ_FLUX_WAKEUP (kn_leave_flux k (kn_upd k (st_clr {KN_SCAN}) kq1)))"

lemma kq_settle_cond:
  "kq_notes kq k = Some kn \<Longrightarrow>
   kn_status (kn_at kq k) \<inter> {KN_ACTIVE, KN_DISABLED, KN_QUEUED} = {KN_ACTIVE} \<longleftrightarrow>
   has_st KN_ACTIVE kq k \<and> \<not> has_st KN_DISABLED kq k \<and> \<not> has_st KN_QUEUED kq k"
  by (auto simp: has_st_def)

lemma kq_settle_notes:
  assumes "kq_notes kq k = Some kn"
  shows "kq_notes (kq_settle k kq) = (kq_notes kq)(k \<mapsto> kn\<lparr>
           kn_status := (if KN_ACTIVE \<in> kn_status kn \<and> KN_DISABLED \<notin> kn_status kn
                         then insert KN_QUEUED (kn_status kn) else kn_status kn) - {KN_SCAN},
           kn_influx := kn_influx kn - 1\<rparr>)"
proof (cases "has_st KN_ACTIVE kq k \<and> \<not> has_st KN_DISABLED kq k \<and> \<not> has_st KN_QUEUED kq k")
  case True
  then show ?thesis
    using assms by (simp only: kq_settle_def kq_settle_cond [OF assms] Let_def)
      (simp add: kn_leave_flux_def st_clr_def st_set_def has_st_def)
next
  case False
  then have "(if KN_ACTIVE \<in> kn_status kn \<and> KN_DISABLED \<notin> kn_status kn
                         then insert KN_QUEUED (kn_status kn) else kn_status kn) = kn_status kn"
    using assms by (auto simp: has_st_def)
  with False show ?thesis
    using assms by (simp only: kq_settle_def kq_settle_cond [OF assms] Let_def)
      (simp add: kn_leave_flux_def st_clr_def)
qed

lemma kq_settle_frame:
  "kq_refcnt (kq_settle k kq) = kq_refcnt kq" "kq_fresh (kq_settle k kq) = kq_fresh kq"
  "kq_si_note (kq_settle k kq) = kq_si_note kq"
  "kq_knlistsize (kq_settle k kq) = kq_knlistsize kq" "kq_knlist (kq_settle k kq) = kq_knlist kq"
  "kq_knhashmask (kq_settle k kq) = kq_knhashmask kq" "kq_knhash (kq_settle k kq) = kq_knhash kq"
  "marks (kq_settle k kq) = marks kq"
  "KQ_CLOSING \<in> kq_state (kq_settle k kq) \<longleftrightarrow> KQ_CLOSING \<in> kq_state kq"
  by (auto simp: kq_settle_def Let_def kn_leave_flux_def marks_def)

lemma kq_settle_inv:
  assumes "kq_mid X k kq"
  shows "kq_alloc X (kq_settle k kq)"
proof -
  obtain kn where kn: "kq_notes kq k = Some kn" "kn_influx kn = 1"
    using assms by (auto simp: kq_mid_def)
  note nt = kq_settle_notes [OF kn(1)]
  define a where "a = (if has_st KN_ACTIVE kq k \<and> \<not> has_st KN_DISABLED kq k \<and>
    \<not> has_st KN_QUEUED kq k then knote_enqueue k kq else kq)"
  have "queue_ok a"
    using assms kn by (auto simp: a_def kq_mid_def intro!: queue_ok_enqueue)
  moreover have "kq_settle k kq = KQ_FLUX_WAKEUP (kn_leave_flux k (kn_upd k (st_clr {KN_SCAN}) a))"
    by (simp only: kq_settle_def kq_settle_cond [OF kn(1)] Let_def a_def)
  ultimately have qi: "queue_ok (kq_settle k kq)"
    by (simp add: kn_leave_flux_def queue_ok_upd_same queue_ok_clr_other)
  have ix: "index_ok X (kq_settle k kq)"
    by (rule index_ok_same [where kq = kq])
      (use assms kn in \<open>auto simp: kq_settle_frame nt kn_key_def kq_mid_def\<close>)
  have "has_st f (kq_settle k kq) j = has_st f kq j" if "j \<noteq> k" for f j
    using that by (simp add: has_st_def nt)
  moreover have "ready_ok {k} kq"
    using assms by (simp add: kq_mid_def)
  moreover have "has_st KN_ACTIVE (kq_settle k kq) k \<Longrightarrow> \<not> has_st KN_DISABLED (kq_settle k kq) k \<Longrightarrow>
    has_st KN_QUEUED (kq_settle k kq) k"
    by (simp add: has_st_def nt split: if_splits)
  ultimately have "ready_ok {} (kq_settle k kq)"
    unfolding ready_ok_def by (metis singletonD)
  moreover have "fresh_ok (kq_settle k kq)"
    using assms kn by (auto simp: fresh_ok_def kq_mid_def kq_settle_frame nt)
  moreover have "calm {} (kq_settle k kq)"
    using assms kn by (auto simp: calm_def kq_mid_def nt)
  moreover have "\<forall>j \<in> X. kq_notes (kq_settle k kq) j = Some zero_knote"
    using assms by (auto simp: nt kq_mid_def)
  ultimately show ?thesis
    using qi ix by (simp add: kq_alloc_def)
qed

end
