(* ===== verification/Kqueue_Find.thy ===== *)
theory Kqueue_Find
  imports Kqueue_Inv
begin

text \<open>
  The search for the knote of a change: \<open>kqueue_expand\<close> and \<open>kqueue_findkn\<close> keep the
  tables in order, the search returns a knote exactly when there is one with the change's
  identifier and filter, and leaves room for a new one.
\<close>

section \<open>State updates\<close>

lemma kq_upd_simps [simp]:
  "kqs (kq_upd q f s) = (kqs s)(q := f (kqs s q))"
  "k_filt (kq_upd q f s) = k_filt s" "k_files (kq_upd q f s) = k_files s"
  "k_fdt (kq_upd q f s) = k_fdt s" "k_kqlist (kq_upd q f s) = k_kqlist s"
  "k_knl (kq_upd q f s) = k_knl s" "k_mem (kq_upd q f s) = k_mem s"
  "k_retval (kq_upd q f s) = k_retval s" "k_w (kq_upd q f s) = k_w s"
  by (simp_all add: kq_upd_def)

lemma kq_upd_kq_upd [simp]: "kq_upd q f (kq_upd q g s) = kq_upd q (\<lambda>kq. f (g kq)) s"
  by (simp add: kq_upd_def)

lemma kq_upd_ident [simp]: "kq_upd q (\<lambda>_. kqs s q) s = s"
  by (simp add: kq_upd_def)

lemma file_upd_simps [simp]:
  "kqs (file_upd i f s) = kqs s" "k_filt (file_upd i f s) = k_filt s"
  "k_fdt (file_upd i f s) = k_fdt s" "k_kqlist (file_upd i f s) = k_kqlist s"
  "k_knl (file_upd i f s) = k_knl s" "k_mem (file_upd i f s) = k_mem s"
  "k_retval (file_upd i f s) = k_retval s" "k_w (file_upd i f s) = k_w s"
  "k_files (file_upd i f s) = (k_files s)(i := f (k_files s i))"
  by (simp_all add: file_upd_def)

lemma filt_upd_simps [simp]:
  "kqs (filt_upd i f s) = kqs s" "k_files (filt_upd i f s) = k_files s"
  "k_fdt (filt_upd i f s) = k_fdt s" "k_kqlist (filt_upd i f s) = k_kqlist s"
  "k_knl (filt_upd i f s) = k_knl s" "k_mem (filt_upd i f s) = k_mem s"
  "k_retval (filt_upd i f s) = k_retval s" "k_w (filt_upd i f s) = k_w s"
  by (simp_all add: filt_upd_def)

lemma fdrop_opt_simps [simp]:
  "kqs (fdrop_opt i s) = kqs s" "k_filt (fdrop_opt i s) = k_filt s"
  "k_fdt (fdrop_opt i s) = k_fdt s" "k_kqlist (fdrop_opt i s) = k_kqlist s"
  "k_knl (fdrop_opt i s) = k_knl s" "k_mem (fdrop_opt i s) = k_mem s"
  "k_retval (fdrop_opt i s) = k_retval s" "k_w (fdrop_opt i s) = k_w s"
  by (simp_all add: fdrop_opt_def fdrop_def split: option.split)

lemma kqueue_fo_release_simps [simp]:
  "kqs (kqueue_fo_release i s) = kqs s" "k_files (kqueue_fo_release i s) = k_files s"
  "k_fdt (kqueue_fo_release i s) = k_fdt s" "k_kqlist (kqueue_fo_release i s) = k_kqlist s"
  "k_knl (kqueue_fo_release i s) = k_knl s" "k_mem (kqueue_fo_release i s) = k_mem s"
  "k_retval (kqueue_fo_release i s) = k_retval s" "k_w (kqueue_fo_release i s) = k_w s"
  by (simp_all add: kqueue_fo_release_def)

lemma kqueue_fo_find_kqs:
  assumes "kqueue_fo_find filt s = (fo, s')"
  shows "kqs s' = kqs s" "k_files s' = k_files s" "k_fdt s' = k_fdt s" "k_kqlist s' = k_kqlist s"
    "k_knl s' = k_knl s" "k_mem s' = k_mem s" "k_retval s' = k_retval s" "k_w s' = k_w s"
  using assms by (auto simp: kqueue_fo_find_def Let_def split: if_splits)

section \<open>Growing the tables\<close>

text \<open>What the search may change of the kqueue.\<close>

definition find_step :: "kqueue \<Rightarrow> kqueue \<Rightarrow> bool" where
  "find_step a b \<longleftrightarrow>
     kq_notes b = kq_notes a \<and> kq_head b = kq_head a \<and> kq_count b = kq_count a \<and>
     kq_refcnt b = kq_refcnt a \<and> kq_fresh b = kq_fresh a \<and> kq_si_note b = kq_si_note a \<and>
     (KQ_CLOSING \<in> kq_state b \<longleftrightarrow> KQ_CLOSING \<in> kq_state a) \<and>
     (\<forall>X. index_ok X a \<longrightarrow> index_ok X b)"

lemma find_step_refl [simp]: "find_step a a"
  by (simp add: find_step_def)

lemma find_step_trans: "find_step a b \<Longrightarrow> find_step b c \<Longrightarrow> find_step a c"
  by (simp add: find_step_def)

lemma find_step_fluxwait [simp]:
  "find_step a (a\<lparr>kq_state := insert KQ_FLUXWAIT (kq_state a)\<rparr>)"
  by (auto simp: find_step_def index_ok_def kn_klist_def)

lemma find_step_alloc:
  assumes "find_step a b" "kq_alloc X a"
  shows "kq_alloc X b"
proof -
  have st: "has_st f b k = has_st f a k" for f k
    using assms(1) by (simp add: find_step_def has_st_def)
  have "queue_ok b = queue_ok a"
    using assms(1) by (intro queue_ok_same) (auto simp: st find_step_def)
  moreover have "ready_ok {} b = ready_ok {} a"
    by (rule ready_ok_same) (simp add: st)
  moreover have "fresh_ok b = fresh_ok a" "calm {} b = calm {} a"
    using assms(1) by (auto simp: find_step_def fresh_ok_def calm_def)
  ultimately show ?thesis
    using assms by (auto simp: kq_alloc_def find_step_def)
qed

lemma index_ok_grow:
  assumes "index_ok X kq" "kq_knlistsize kq \<le> n"
  shows "index_ok X (kq\<lparr>kq_knlistsize := n,
           kq_knlist := (\<lambda>i. if i < kq_knlistsize kq then kq_knlist kq i else [])\<rparr>)"
proof -
  have "(\<lambda>i. if i < kq_knlistsize kq then kq_knlist kq i else []) = kq_knlist kq"
  proof
    fix i
    have "k \<in> set (kq_knlist kq i) \<Longrightarrow> i < kq_knlistsize kq" for k
      using assms(1) unfolding index_ok_def by blast
    then show "(if i < kq_knlistsize kq then kq_knlist kq i else []) = kq_knlist kq i"
      by (cases "kq_knlist kq i") auto
  qed
  then have "kq\<lparr>kq_knlistsize := n,
      kq_knlist := (\<lambda>i. if i < kq_knlistsize kq then kq_knlist kq i else [])\<rparr> = kq\<lparr>kq_knlistsize := n\<rparr>"
    by simp
  moreover have "index_ok X (kq\<lparr>kq_knlistsize := n\<rparr>)"
  proof (rule index_okI)
    show "k \<in> set (kn_klist (kq\<lparr>kq_knlistsize := n\<rparr>) kn)"
      if "kq_notes (kq\<lparr>kq_knlistsize := n\<rparr>) k = Some kn" "k \<notin> X" for k kn
      using index_ok_note [OF assms(1), of k kn] that by (simp add: kn_klist_def split: if_splits)
  qed (use assms(2) index_ok_fd [OF assms(1)] index_ok_nfd [OF assms(1)]
      index_ok_distinct [OF assms(1)] in \<open>fastforce+\<close>)
  ultimately show ?thesis by (simp only:)
qed

lemma index_ok_hash:
  assumes "index_ok X kq" "kq_knhashmask kq = 0"
  shows "index_ok X (kq\<lparr>kq_knhash := (\<lambda>_. []), kq_knhashmask := 63\<rparr>)"
proof -
  have "kq_knhash kq i = []" for i
  proof (cases "kq_knhash kq i")
    case (Cons k ks)
    then have "k \<in> set (kq_knhash kq i)" by simp
    then show ?thesis using assms unfolding index_ok_def by blast
  qed simp
  then have "f_isfd (kn_fop kn) \<and> k \<in> set (kq_knlist kq (unat (kn_id kn)))"
    if "kq_notes kq k = Some kn" "k \<notin> X" for k kn
    using index_ok_note [OF assms(1) that] by (auto simp: kn_klist_def split: if_splits)
  then show ?thesis
    by (intro index_okI)
      (use index_ok_fd [OF assms(1)] index_ok_distinct [OF assms(1)]
        in \<open>auto simp: kn_klist_def\<close>)
qed

lemma kqueue_expand_step:
  assumes "kqueue_expand fops ident ok kq = (e, kq')"
  shows "find_step kq kq'"
proof -
  have "index_ok X kq'" if "index_ok X kq" for X
    using assms that
    by (auto simp: kqueue_expand_def Let_def kq_grow_ge split: if_splits
        intro!: index_ok_grow index_ok_hash)
  moreover have "kq_notes kq' = kq_notes kq" "kq_head kq' = kq_head kq" "kq_count kq' = kq_count kq"
    "kq_refcnt kq' = kq_refcnt kq" "kq_fresh kq' = kq_fresh kq" "kq_si_note kq' = kq_si_note kq"
    "kq_state kq' = kq_state kq"
    using assms by (auto simp: kqueue_expand_def Let_def split: if_splits)
  ultimately show ?thesis by (simp add: find_step_def)
qed

definition kq_room :: "filtop \<Rightarrow> u64 \<Rightarrow> kqueue \<Rightarrow> bool" where
  "kq_room fops ident kq \<longleftrightarrow>
     (if f_isfd fops then unat ident < kq_knlistsize kq else kq_knhashmask kq \<noteq> 0)"

lemma kqueue_expand_room: "kqueue_expand fops ident ok kq = (0, kq') \<Longrightarrow> kq_room fops ident kq'"
  by (auto simp: kqueue_expand_def kq_room_def Let_def kq_grow_gt split: if_splits)


section \<open>The search\<close>

definition files_keep :: "(nat \<Rightarrow> kfile) \<Rightarrow> (nat \<Rightarrow> kfile) \<Rightarrow> bool" where
  "files_keep f g \<longleftrightarrow>
     (\<forall>i. f_type (g i) = f_type (f i) \<and> f_data (g i) = f_data (f i) \<and> f_nonblock (g i) = f_nonblock (f i))"

lemma files_keep_refl [simp]: "files_keep f f"
  by (simp add: files_keep_def)

lemma files_keep_trans: "files_keep f g \<Longrightarrow> files_keep g h \<Longrightarrow> files_keep f h"
  by (simp add: files_keep_def)

lemma files_keep_count [simp]:
  "files_keep f (f(i := f i\<lparr>f_count := c\<rparr>))"
  by (simp add: files_keep_def)

definition find_rel :: "nat \<Rightarrow> 'w kern \<Rightarrow> 'w kern \<Rightarrow> bool" where
  "find_rel q s s' \<longleftrightarrow>
     find_step (kqs s q) (kqs s' q) \<and> (\<forall>q'. q' \<noteq> q \<longrightarrow> kqs s' q' = kqs s q') \<and>
     k_filt s' = k_filt s \<and> k_fdt s' = k_fdt s \<and> k_kqlist s' = k_kqlist s \<and> k_knl s' = k_knl s \<and>
     k_mem s' = k_mem s \<and> k_retval s' = k_retval s \<and> k_w s' = k_w s \<and>
     files_keep (k_files s) (k_files s')"

lemma find_rel_refl [simp]: "find_rel q s s"
  by (simp add: find_rel_def)

lemma find_rel_trans: "find_rel q s t \<Longrightarrow> find_rel q t u \<Longrightarrow> find_rel q s u"
  unfolding find_rel_def by (auto intro: find_step_trans files_keep_trans)

lemma find_rel_upd: "find_step (kqs s q) (f (kqs s q)) \<Longrightarrow> find_rel q s (kq_upd q f s)"
  by (simp add: find_rel_def)

lemma find_rel_fdrop: "find_rel q s (fdrop i s)"
  by (simp add: find_rel_def fdrop_def)

lemma find_rel_fdrop_opt: "find_rel q s (fdrop_opt i s)"
  by (simp add: fdrop_opt_def find_rel_fdrop split: option.split)

lemma find_rel_fget: "fget fd s = (r, s') \<Longrightarrow> find_rel q s s'"
  by (auto simp: find_rel_def fget_def split: option.splits)

fun findres_state :: "'w findres \<Rightarrow> 'w kern" where
  "findres_state (Find_err e fpo s) = s"
| "findres_state (Found fpo kno s) = s"
| "findres_state (Find_sleep s) = s"

lemma kqueue_flux_check_rel: "find_rel q s (findres_state (kqueue_flux_check q fpo kno s))"
proof (cases kno)
  case (Some k)
  have "find_rel q s (fdrop_opt fpo (kq_upd q (\<lambda>kq. kq\<lparr>kq_state := insert KQ_FLUXWAIT (kq_state kq)\<rparr>) s))"
    by (rule find_rel_trans [OF find_rel_upd find_rel_fdrop_opt]) simp
  then show ?thesis
    using Some by (simp add: kqueue_flux_check_def)
qed (simp add: kqueue_flux_check_def)


definition kq_find :: "filtop \<Rightarrow> kqueue \<Rightarrow> kevent \<Rightarrow> nat option" where
  "kq_find fops kq kev =
     (if f_isfd fops then kq_find_fd kq (ke_ident kev) (ke_filter kev) else kq_find_hash kq kev)"

definition find_ok :: "filtop \<Rightarrow> nat \<Rightarrow> kevent \<Rightarrow> 'w kern \<Rightarrow> 'w findres \<Rightarrow> bool" where
  "find_ok fops q kev s r \<longleftrightarrow>
     find_rel q s (findres_state r) \<and>
     (case r of
        Found fpo kno s' \<Rightarrow>
          (fl (ke_flags kev) EV_ADD \<longrightarrow> kq_room fops (ke_ident kev) (kqs s' q)) \<and>
          kno = kq_find fops (kqs s' q) kev \<and>
          (\<forall>k. kno = Some k \<longrightarrow> \<not> kn_in_flux (kn_of s' (q, k)))
      | Find_err e _ _ \<Rightarrow> e \<noteq> 0
      | _ \<Rightarrow> True)"

lemma find_ok_rel: "find_rel q s t \<Longrightarrow> find_ok fops q kev t r \<Longrightarrow> find_ok fops q kev s r"
  by (auto simp: find_ok_def intro: find_rel_trans split: findres.splits)

lemma find_ok_check:
  assumes "fl (ke_flags kev) EV_ADD \<Longrightarrow> kq_room fops (ke_ident kev) (kqs s q)"
    and "kno = kq_find fops (kqs s q) kev"
  shows "find_ok fops q kev s (kqueue_flux_check q fpo kno s)"
  using assms kqueue_flux_check_rel [of q s fpo kno]
  by (auto simp: find_ok_def kqueue_flux_check_def split: option.splits)

lemma find_ok_hash:
  assumes "\<not> f_isfd fops"
  shows "find_ok fops q kev s (kqueue_findkn fops q waitok kev s)"
proof -
  obtain e kq1 where x: "(if fl (ke_flags kev) EV_ADD
      then kqueue_expand fops (ke_ident kev) (waitok \<or> k_mem s) (kqs s q) else (0, kqs s q)) = (e, kq1)"
    by fastforce
  then have st: "find_step (kqs s q) kq1"
    by (auto split: if_splits intro: kqueue_expand_step)
  show ?thesis
  proof (cases "e = 0")
    case True
    have "find_ok fops q kev (kq_upd q (\<lambda>_. kq1) s)
        (kqueue_flux_check q None (kq_find_hash kq1 kev) (kq_upd q (\<lambda>_. kq1) s))"
      using assms x True by (intro find_ok_check)
        (auto simp: kq_find_def split: if_splits intro: kqueue_expand_room)
    then have "find_ok fops q kev s
        (kqueue_flux_check q None (kq_find_hash kq1 kev) (kq_upd q (\<lambda>_. kq1) s))"
      by (rule find_ok_rel [OF find_rel_upd, rotated]) (simp add: st)
    then show ?thesis
      using assms x True by (simp add: kqueue_findkn.simps [of fops] Let_def)
  next
    case False
    then show ?thesis
      using assms x by (simp add: kqueue_findkn.simps [of fops] Let_def find_ok_def)
  qed
qed

lemma find_ok_fd_ready:
  assumes "f_isfd fops" "find_rel q s0 s1"
    and "fl (ke_flags kev) EV_ADD \<Longrightarrow>
      fst (kqueue_expand fops (ke_ident kev) (k_mem s1) (kqs s1 q)) = 0"
    and "s2 = (if fl (ke_flags kev) EV_ADD
       then kq_upd q (\<lambda>kq. snd (kqueue_expand fops (ke_ident kev) (k_mem s1) kq)) s1 else s1)"
  shows "find_ok fops q kev s0 (kqueue_flux_check q (Some fp)
      (kq_find_fd (kqs s2 q) (ke_ident kev) (ke_filter kev)) s2)"
    and "find_rel q s0 s2"
proof -
  have "find_rel q s1 s2"
    using assms(4) by (auto intro!: find_rel_upd kqueue_expand_step [OF surjective_pairing])
  then show rel: "find_rel q s0 s2"
    using assms(2) by (blast intro: find_rel_trans)
  have "kq_room fops (ke_ident kev) (kqs s2 q)" if "fl (ke_flags kev) EV_ADD"
    using kqueue_expand_room [of fops "ke_ident kev" "k_mem s1" "kqs s1 q" "kqs s2 q"] assms(3,4) that
    by (metis fun_upd_same kq_upd_simps(1) prod.collapse)
  then show "find_ok fops q kev s0 (kqueue_flux_check q (Some fp)
      (kq_find_fd (kqs s2 q) (ke_ident kev) (ke_filter kev)) s2)"
    using assms(1) by (intro find_ok_rel [OF rel] find_ok_check) (simp_all add: kq_find_def)
qed

lemma kqueue_findkn_ready:
  assumes "f_isfd fops" "unat (ke_ident kev) \<le> INT_MAX" "fget (unat (ke_ident kev)) s = (Inr fp, s1)"
    and "\<not> (fl (ke_flags kev) EV_ADD \<and>
       fst (kqueue_expand fops (ke_ident kev) (k_mem s1) (kqs s1 q)) \<noteq> 0)"
  shows "kqueue_findkn fops q waitok kev s =
    (let s2 = (if fl (ke_flags kev) EV_ADD
          then kq_upd q (\<lambda>kq. snd (kqueue_expand fops (ke_ident kev) (k_mem s1) kq)) s1 else s1)
     in if f_type (k_files s2 fp) = DTYPE_KQUEUE \<and> f_data (k_files s2 fp) = Some q
        then Find_err EINVAL (Some fp) s2
        else kqueue_flux_check q (Some fp)
               (kq_find_fd (kqs s2 q) (ke_ident kev) (ke_filter kev)) s2)"
  unfolding kqueue_findkn.simps [of fops q waitok kev s] assms(3)
  using assms by (simp only: if_True if_False leD [OF assms(2)] prod.case sum.case)

lemma kqueue_findkn_ok: "find_ok fops q kev s (kqueue_findkn fops q waitok kev s)"
proof (induction fops q waitok kev s rule: kqueue_findkn.induct)
  case (1 fops q waitok kev s)
  show ?case
  proof (cases "f_isfd fops \<and> unat (ke_ident kev) \<le> INT_MAX")
    case False
    then show ?thesis
      using find_ok_hash [of fops q kev s waitok]
      by (cases "f_isfd fops") (auto simp: kqueue_findkn.simps [of fops] find_ok_def)
  next
    case fd: True
    obtain r s1 where g: "fget (unat (ke_ident kev)) s = (r, s1)"
      by fastforce
    have rel: "find_rel q s s1"
      using g by (rule find_rel_fget)
    show ?thesis
    proof (cases r)
      case (Inl e)
      then have "e \<noteq> 0"
        using g by (auto simp: fget_def split: option.splits)
      then show ?thesis
        using fd g Inl rel by (simp add: kqueue_findkn.simps [of fops] find_ok_def)
    next
      case (Inr fp)
      let ?x = "fst (kqueue_expand fops (ke_ident kev) (k_mem s1) (kqs s1 q))"
      show ?thesis
      proof (cases "fl (ke_flags kev) EV_ADD \<and> ?x \<noteq> 0")
        case True
        obtain e kq2 where x: "kqueue_expand fops (ke_ident kev) (waitok \<or> k_mem (fdrop fp s1))
            (kqs (fdrop fp s1) q) = (e, kq2)"
          by fastforce
        have rel2: "find_rel q s (fdrop fp s1)" "find_rel q s (kq_upd q (\<lambda>_. kq2) (fdrop fp s1))"
          using rel kqueue_expand_step [OF x]
          by (blast intro: find_rel_trans find_rel_fdrop find_rel_upd)+
        have ih: "find_ok fops q kev (kq_upd q (\<lambda>_. kq2) (fdrop fp s1))
            (kqueue_findkn fops q waitok kev (kq_upd q (\<lambda>_. kq2) (fdrop fp s1)))" if "e = 0"
          using 1 fd g Inr True x that by (auto simp: Let_def)
        show ?thesis
          using fd g Inr True x rel2 find_ok_rel [OF rel2(2) ih]
          by (simp add: kqueue_findkn.simps [of fops q waitok kev s] Let_def find_ok_def)
      next
        case False
        define s2 where "s2 = (if fl (ke_flags kev) EV_ADD
          then kq_upd q (\<lambda>kq. snd (kqueue_expand fops (ke_ident kev) (k_mem s1) kq)) s1 else s1)"
        have "kqueue_findkn fops q waitok kev s =
            (if f_type (k_files s2 fp) = DTYPE_KQUEUE \<and> f_data (k_files s2 fp) = Some q
             then Find_err EINVAL (Some fp) s2
             else kqueue_flux_check q (Some fp)
                    (kq_find_fd (kqs s2 q) (ke_ident kev) (ke_filter kev)) s2)"
          using kqueue_findkn_ready [of fops kev s fp s1 q waitok] fd g Inr False
          unfolding s2_def Let_def by blast
        then show ?thesis
          using find_ok_fd_ready [OF _ rel _ s2_def] fd False by (auto simp: find_ok_def)
      qed
    qed
  qed
qed

end
