(* ===== verification/Kqueue_Register.thy ===== *)
theory Kqueue_Register
  imports Kqueue_Find
begin

text \<open>
  Registration of a change: \<open>kqueue_register\<close> keeps the invariant of its kqueue, changes
  no knote but the one of the change, deletes it on \<open>EV_DELETE\<close> and never adds a second
  knote for the same identifier and filter.
\<close>

section \<open>What the search returns\<close>

lemma kq_find_Some:
  assumes "index_ok X kq" "kq_find fops kq kev = Some k"
  shows "\<exists>kn. kq_notes kq k = Some kn \<and> k \<notin> X \<and> kn_id kn = ke_ident kev \<and>
           kn_filter kn = ke_filter kev \<and> f_isfd (kn_fop kn) = f_isfd fops"
proof (cases "f_isfd fops")
  case True
  then have "k \<in> set (kq_knlist kq (unat (ke_ident kev)))" "ke_filter kev = kn_filter (kn_at kq k)"
    using assms(2) by (auto simp: kq_find_def kq_find_fd_def find_Some_iff split: if_splits)
  then show ?thesis
    using index_ok_fd [OF assms(1), of k "unat (ke_ident kev)"] True by (auto simp: word_unat_eq_iff)
next
  case False
  then have "k \<in> set (kq_knhash kq (KN_HASH (ke_ident kev) (kq_knhashmask kq)))"
    "ke_ident kev = kn_id (kn_at kq k)" "ke_filter kev = kn_filter (kn_at kq k)"
    using assms(2) by (auto simp: kq_find_def kq_find_hash_def find_Some_iff split: if_splits)
  moreover obtain kn where "kq_notes kq k = Some kn" "k \<notin> X" "\<not> f_isfd (kn_fop kn)"
    using index_ok_nfd [OF assms(1) calculation(1)] by blast
  ultimately show ?thesis
    using False by simp
qed

definition find_skips :: "filtop \<Rightarrow> kevent \<Rightarrow> bool" where
  "find_skips fops kev \<longleftrightarrow>
     \<not> f_isfd fops \<and> ke_filter kev = EVFILT_PROC \<and> fl (ke_flags kev) (EV_FLAG1 OR EV_FLAG2)"

lemma kq_find_None:
  assumes "index_ok X kq" "kq_find fops kq kev = None" "\<not> find_skips fops kev"
    and "kq_notes kq k = Some kn" "k \<notin> X" "f_isfd (kn_fop kn) = f_isfd fops"
    and "kn_id kn = ke_ident kev"
  shows "kn_filter kn \<noteq> ke_filter kev"
proof -
  have k: "k \<in> set (kn_klist kq kn)"
    using assms by (blast intro: index_ok_note)
  show ?thesis
  proof (cases "f_isfd fops")
    case True
    then have l: "k \<in> set (kq_knlist kq (unat (ke_ident kev)))"
      using k assms by (simp add: kn_klist_def)
    then have "unat (ke_ident kev) < kq_knlistsize kq"
      using index_ok_fd [OF assms(1)] by blast
    then show ?thesis
      using assms(2,4) True l by (auto simp: kq_find_def kq_find_fd_def find_None_iff)
  next
    case False
    then have l: "k \<in> set (kq_knhash kq (KN_HASH (ke_ident kev) (kq_knhashmask kq)))"
      using k assms by (simp add: kn_klist_def)
    then have "kq_knhashmask kq \<noteq> 0"
      using index_ok_nfd [OF assms(1)] by blast
    then show ?thesis
      using assms(2,3,4,7) False l
      by (auto simp: kq_find_def kq_find_hash_def find_skips_def find_None_iff split: if_splits)
        (metis kn_at_Some)+
  qed
qed

section \<open>What an operation on a kqueue leaves alone\<close>

definition kq_keep :: "nat \<Rightarrow> 'w kern \<Rightarrow> 'w kern \<Rightarrow> bool" where
  "kq_keep q s s' \<longleftrightarrow>
     (\<forall>q'. q' \<noteq> q \<longrightarrow> other_step (kqs s q') (kqs s' q')) \<and>
     kq_refcnt (kqs s' q) = kq_refcnt (kqs s q) \<and>
     (KQ_CLOSING \<in> kq_state (kqs s' q) \<longleftrightarrow> KQ_CLOSING \<in> kq_state (kqs s q)) \<and>
     marks (kqs s' q) = marks (kqs s q) \<and>
     k_fdt s' = k_fdt s \<and> k_kqlist s' = k_kqlist s \<and> k_mem s' = k_mem s \<and>
     k_retval s' = k_retval s \<and> files_keep (k_files s) (k_files s')"

definition notes_but :: "nat \<Rightarrow> kqueue \<Rightarrow> kqueue \<Rightarrow> bool" where
  "notes_but k a b \<longleftrightarrow> (\<forall>j. j \<noteq> k \<longrightarrow> kq_notes b j = kq_notes a j)"

lemma kq_keep_refl [simp]: "kq_keep q s s"
  by (simp add: kq_keep_def)

lemma kq_keep_trans: "kq_keep q s t \<Longrightarrow> kq_keep q t u \<Longrightarrow> kq_keep q s u"
  unfolding kq_keep_def by (auto intro: other_step_trans files_keep_trans)

lemma notes_but_refl [simp]: "notes_but k a a"
  by (simp add: notes_but_def)

lemma notes_but_trans: "notes_but k a b \<Longrightarrow> notes_but k b c \<Longrightarrow> notes_but k a c"
  by (simp add: notes_but_def)

lemma kq_keep_upd:
  "kq_refcnt (f (kqs s q)) = kq_refcnt (kqs s q) \<Longrightarrow>
   (KQ_CLOSING \<in> kq_state (f (kqs s q)) \<longleftrightarrow> KQ_CLOSING \<in> kq_state (kqs s q)) \<Longrightarrow>
   marks (f (kqs s q)) = marks (kqs s q) \<Longrightarrow> kq_keep q s (kq_upd q f s)"
  by (simp add: kq_keep_def)

lemma kq_keep_fdrop_opt: "kq_keep q s (fdrop_opt i s)"
  by (cases i) (simp_all add: kq_keep_def fdrop_opt_def fdrop_def)

lemma kq_keep_fo_release: "kq_keep q s (kqueue_fo_release i s)"
  by (simp add: kq_keep_def)

lemma find_rel_keep: "find_rel q s s' \<Longrightarrow> kq_keep q s s'"
  by (auto simp: find_rel_def find_step_def kq_keep_def marks_def)

lemma cb_keep:
  assumes "kern_frame s s'" "cb_step k (kqs s q) (kqs s' q)"
    and "\<forall>q'. q' \<noteq> q \<longrightarrow> other_step (kqs s q') (kqs s' q')"
  shows "kq_keep q s s'" "notes_but k (kqs s q) (kqs s' q)"
  using assms by (auto simp: kq_keep_def kern_frame_def cb_step_def notes_but_def)

lemma kq_keep_inv: "kq_keep q s s' \<Longrightarrow> q' \<noteq> q \<Longrightarrow> kq_inv (kqs s q') \<Longrightarrow> kq_inv (kqs s' q')"
  by (auto simp: kq_keep_def intro: other_step_inv)

lemma knote_drop_detached_eq:
  "kqs (knote_drop_detached (q, k) s) q = kq_drop k (kqs s q)"
  by (simp add: knote_drop_detached_def Let_def kq_drop_def)

lemma knote_drop_detached_keep:
  assumes "queue_ok (kqs s q)" "kq_notes (kqs s q) k = Some kn"
  shows "kq_keep q s (knote_drop_detached (q, k) s)"
proof -
  have "kq_keep q s (kq_upd q (kq_drop k) s)"
    by (rule kq_keep_upd) (simp_all add: kq_drop_frame [OF assms])
  then show ?thesis
    by (auto simp: kq_keep_def knote_drop_detached_def Let_def kq_drop_def fdrop_opt_def fdrop_def
        files_keep_def split: option.split)
qed

section \<open>One knote in flux\<close>

lemma kq_mid_note: "kq_mid X k kq \<Longrightarrow> \<exists>kn. kq_notes kq k = Some kn \<and> kn_influx kn = 1"
  by (simp add: kq_mid_def)

lemma kq_mid_queue_ok: "kq_mid X k kq \<Longrightarrow> queue_ok kq"
  by (simp add: kq_mid_def)

lemma kq_mid_set_active: "kq_mid X k kq \<Longrightarrow> kq_mid X k (kn_upd k (st_set {KN_ACTIVE}) kq)"
proof -
  assume m: "kq_mid X k kq"
  have "index_ok X (kn_upd k (st_set {KN_ACTIVE}) kq)"
    by (rule index_ok_same [where kq = kq])
      (use m in \<open>auto simp: kq_mid_def kn_key_def option.map_comp comp_def\<close>)
  moreover have "ready_ok {k} (kn_upd k (st_set {KN_ACTIVE}) kq)"
    using m by (subst ready_ok_same [of _ _ kq]) (auto simp: kq_mid_def)
  ultimately show ?thesis
    using m by (auto simp: kq_mid_def queue_ok_set_active fresh_ok_def calm_def)
qed

section \<open>A new knote\<close>

lemma index_ok_but:
  assumes "index_ok (insert k X) a" "notes_but k a b"
    and "kq_knlistsize b = kq_knlistsize a" "kq_knlist b = kq_knlist a"
    and "kq_knhashmask b = kq_knhashmask a" "kq_knhash b = kq_knhash a"
  shows "index_ok (insert k X) b"
proof (rule index_okI)
  have nt: "kq_notes b j = kq_notes a j" if "j \<noteq> k" for j
    using assms(2) that by (simp add: notes_but_def)
  show "j \<in> set (kn_klist b kn)" if "kq_notes b j = Some kn" "j \<notin> insert k X" for j kn
    using index_ok_note [OF assms(1), of j kn] nt [of j] that assms(3-6)
    by (simp add: kn_klist_def split: if_splits)
  show "i < kq_knlistsize b \<and> j \<notin> insert k X \<and>
      (\<exists>kn. kq_notes b j = Some kn \<and> f_isfd (kn_fop kn) \<and> unat (kn_id kn) = i)"
    if "j \<in> set (kq_knlist b i)" for i j
    using index_ok_fd [OF assms(1), of j i] nt [of j] that assms(3-6) by auto
  show "kq_knhashmask b \<noteq> 0 \<and> j \<notin> insert k X \<and>
      (\<exists>kn. kq_notes b j = Some kn \<and> \<not> f_isfd (kn_fop kn) \<and>
            KN_HASH (kn_id kn) (kq_knhashmask b) = i)"
    if "j \<in> set (kq_knhash b i)" for i j
    using index_ok_nfd [OF assms(1), of j i] nt [of j] that assms(3-6) by auto
qed (simp_all add: assms(4,6) index_ok_distinct [OF assms(1)])

lemma index_ok_insert_new:
  assumes "index_ok X kq" "kq_notes kq n = None"
  shows "index_ok (insert n X) kq"
proof (rule index_okI)
  show "i < kq_knlistsize kq \<and> k \<notin> insert n X \<and>
      (\<exists>kn. kq_notes kq k = Some kn \<and> f_isfd (kn_fop kn) \<and> unat (kn_id kn) = i)"
    if "k \<in> set (kq_knlist kq i)" for i k
    using index_ok_fd [OF assms(1) that] assms(2) by auto
  show "kq_knhashmask kq \<noteq> 0 \<and> k \<notin> insert n X \<and>
      (\<exists>kn. kq_notes kq k = Some kn \<and> \<not> f_isfd (kn_fop kn) \<and>
            KN_HASH (kn_id kn) (kq_knhashmask kq) = i)"
    if "k \<in> set (kq_knhash kq i)" for i k
    using index_ok_nfd [OF assms(1) that] assms(2) by auto
qed (use index_ok_note [OF assms(1)] index_ok_distinct [OF assms(1)] in auto)

text \<open>An unlinked knote that is not queued: it can be freed, or linked.\<close>

definition kq_loose :: "nat set \<Rightarrow> nat \<Rightarrow> kqueue \<Rightarrow> bool" where
  "kq_loose X k kq \<longleftrightarrow>
     queue_ok kq \<and> index_ok (insert k X) kq \<and> k \<notin> X \<and> ready_ok {k} kq \<and> fresh_ok kq \<and>
     calm {k} kq \<and> \<not> has_st KN_QUEUED kq k \<and> (\<forall>j \<in> X. kq_notes kq j = Some zero_knote)"

lemma kq_loose_free:
  assumes "kq_loose X k kq"
  shows "kq_alloc X (knote_free (Some k) kq)"
proof -
  have "queue_ok (knote_free (Some k) kq)"
    using assms by (auto simp: kq_loose_def queue_ok_def) (auto simp: knote_free_def)
  moreover have "index_ok X (knote_free (Some k) kq)"
    by (rule index_ok_free [where kq = kq and k = k])
      (use assms in \<open>auto simp: kq_loose_def knote_free_def\<close>)
  ultimately show ?thesis
    using assms by (auto simp: kq_loose_def kq_alloc_def ready_ok_def)
      (auto simp: fresh_ok_def calm_def knote_free_def split: if_splits)
qed

lemma kq_alloc_loose:
  assumes "kq_alloc (insert k X) kq" "k \<notin> X"
  shows "kq_loose X k kq"
  using assms by (auto simp: kq_alloc_def kq_loose_def has_st_def zero_knote_def calm_def
      intro: ready_ok_mono)

lemma kq_free_alloc: "kq_alloc (insert k X) kq \<Longrightarrow> k \<notin> X \<Longrightarrow> kq_alloc X (knote_free (Some k) kq)"
  by (simp add: kq_alloc_loose kq_loose_free)

lemma kq_alloc_alloc:
  assumes "kq_inv kq" "knote_alloc ok kq = (tkn, kq')"
  shows "kq_alloc (set_option tkn) kq'" "marks kq' = marks kq"
    "kq_refcnt kq' = kq_refcnt kq" "kq_state kq' = kq_state kq"
    "tkn = Some k \<Longrightarrow> kq_notes kq' = (kq_notes kq)(k \<mapsto> zero_knote) \<and> kq_notes kq k = None"
    "tkn = None \<Longrightarrow> kq' = kq"
proof -
  have new: "kq_notes kq (kq_fresh kq) = None"
    using assms by (simp add: kq_inv_def fresh_ok_def)
  show "tkn = Some k \<Longrightarrow> kq_notes kq' = (kq_notes kq)(k \<mapsto> zero_knote) \<and> kq_notes kq k = None"
    "tkn = None \<Longrightarrow> kq' = kq" "marks kq' = marks kq"
    "kq_refcnt kq' = kq_refcnt kq" "kq_state kq' = kq_state kq"
    using assms(2) new by (auto simp: knote_alloc_def marks_def split: if_splits)
  show "kq_alloc (set_option tkn) kq'"
  proof (cases ok)
    case True
    define n where "n = kq_fresh kq"
    have r: "tkn = Some n" "kq' = kq\<lparr>kq_notes := (kq_notes kq)(n \<mapsto> zero_knote), kq_fresh := n + 1\<rparr>"
      using assms(2) True by (auto simp: knote_alloc_def n_def)
    have st: "has_st f kq' j = has_st f kq j" for f j
      using new by (auto simp: has_st_def r zero_knote_def n_def)
    have "kq_head kq' = kq_head kq" "kq_count kq' = kq_count kq"
      by (simp_all add: r)
    then have "queue_ok kq'"
      using assms(1) by (subst queue_ok_same [of _ kq]) (auto simp: st kq_inv_def)
    moreover have "ready_ok {} kq'"
      using assms(1) by (subst ready_ok_same [of _ _ kq]) (auto simp: st kq_inv_def)
    moreover have "index_ok {n} kq'"
      using assms(1) new by (intro index_ok_but [OF index_ok_insert_new])
        (auto simp: kq_inv_def r n_def notes_but_def)
    moreover have "fresh_ok kq'" "calm {} kq'"
      using assms(1) by (auto simp: kq_inv_def fresh_ok_def calm_def r zero_knote_def n_def)
    ultimately show ?thesis
      by (simp add: kq_alloc_def r)
  qed (use assms in \<open>simp add: knote_alloc_def kq_alloc_empty\<close>)
qed

lemma kq_new_loose:
  assumes "kq_alloc (insert k X) kq" "k \<notin> X"
    and "kq' = kn_enter_flux k (kn_upd k (kqueue_new_knote fops fpo kev) kq)"
  shows "kq_loose X k kq'"
    and "kq_notes kq' = (kq_notes kq)(k \<mapsto> (kqueue_new_knote fops fpo kev zero_knote)\<lparr>kn_influx := 1\<rparr>)"
    and "kq_refcnt kq' = kq_refcnt kq" "kq_state kq' = kq_state kq" "marks kq' = marks kq"
    and "kq_room fops i kq' = kq_room fops i kq"
proof -
  have z: "kq_notes kq k = Some zero_knote"
    using assms(1) by (simp add: kq_alloc_def)
  show nt: "kq_notes kq' = (kq_notes kq)(k \<mapsto> (kqueue_new_knote fops fpo kev zero_knote)\<lparr>kn_influx := 1\<rparr>)"
    using z by (simp add: assms(3) kn_enter_flux_def kqueue_new_knote_def zero_knote_def)
  show "kq_refcnt kq' = kq_refcnt kq" "kq_state kq' = kq_state kq" "marks kq' = marks kq"
    "kq_room fops i kq' = kq_room fops i kq"
    by (simp_all add: assms(3) kn_enter_flux_def marks_def kq_room_def)
  have but: "notes_but k kq kq'"
    by (simp add: nt notes_but_def)
  have st: "has_st f kq' j = has_st f kq j" if "j \<noteq> k \<or> f \<in> {KN_ACTIVE, KN_QUEUED}" for f j
    using z that by (auto simp: has_st_def nt kqueue_new_knote_def zero_knote_def)
  have hd: "kq_head kq' = kq_head kq" "kq_count kq' = kq_count kq" "kq_fresh kq' = kq_fresh kq"
    by (simp_all add: assms(3) kn_enter_flux_def)
  have "queue_ok kq'"
    using assms(1) hd by (subst queue_ok_same [of _ kq]) (auto simp: st kq_alloc_def)
  moreover have "ready_ok {k} kq'"
    using assms(1) by (subst ready_ok_same [of _ _ kq]) (auto simp: st kq_alloc_def intro: ready_ok_mono)
  moreover have "index_ok (insert k X) kq'"
    by (rule index_ok_but [OF _ but])
      (use assms in \<open>simp_all add: kq_alloc_def kn_enter_flux_def\<close>)
  moreover have "fresh_ok kq'" "calm {k} kq'" "\<forall>j \<in> X. kq_notes kq' j = Some zero_knote"
    using assms(1,2) z by (auto simp: kq_alloc_def fresh_ok_def calm_def nt hd)
  moreover have "\<not> has_st KN_QUEUED kq' k"
    using z by (simp add: st) (simp add: has_st_def zero_knote_def)
  ultimately show "kq_loose X k kq'"
    using assms(2) by (simp add: kq_loose_def)
qed

lemma knote_attach_ok:
  assumes "kq_loose X k kq" "kq_notes kq k = Some kn" "kn_influx kn = 1"
    and "kq_room (kn_fop kn) (kn_id kn) kq" "knote_attach k kq = (e, kq')"
  shows "e \<noteq> 0 \<Longrightarrow> kq' = kq" and "e = 0 \<Longrightarrow> kq_mid X k kq'"
    and "kq_notes kq' = kq_notes kq" "kq_refcnt kq' = kq_refcnt kq" "kq_state kq' = kq_state kq"
    and "marks kq' = marks kq"
proof -
  have r: "e = 0 \<and> kq' = kn_klist_upd kn (\<lambda>l. k # l) kq \<or> e \<noteq> 0 \<and> kq' = kq"
    using assms(2,4,5) by (auto simp: knote_attach_def kq_room_def Let_def split: if_splits)
  then show "e \<noteq> 0 \<Longrightarrow> kq' = kq" "kq_notes kq' = kq_notes kq" "kq_refcnt kq' = kq_refcnt kq"
    "kq_state kq' = kq_state kq" "marks kq' = marks kq"
    by (auto simp: marks_def)
  show "kq_mid X k kq'" if "e = 0"
  proof -
    have k': "kq' = kn_klist_upd kn (\<lambda>l. k # l) kq"
      using r that by simp
    have "index_ok X kq'"
      unfolding k' using assms(1,2,4) by (intro index_ok_link) (auto simp: kq_loose_def kq_room_def)
    then show ?thesis
      using assms(1-3) by (auto simp: kq_mid_def kq_loose_def k' ready_ok_def fresh_ok_def calm_def)
  qed
qed

section \<open>An update in progress\<close>

definition kq_hold :: "nat set \<Rightarrow> nat \<Rightarrow> kqueue \<Rightarrow> bool" where
  "kq_hold X k kq \<longleftrightarrow>
     queue_ok kq \<and> index_ok X kq \<and> ready_ok {k} kq \<and> fresh_ok kq \<and> calm {k} kq \<and>
     k \<notin> X \<and> (\<forall>j \<in> X. kq_notes kq j = Some zero_knote) \<and> kq_notes kq k \<noteq> None"

lemma kq_mid_hold:
  "kq_mid X k kq \<longleftrightarrow> kq_hold X k kq \<and> (\<forall>kn. kq_notes kq k = Some kn \<longrightarrow> kn_influx kn = 1)"
  by (auto simp: kq_mid_def kq_hold_def)

lemma kq_alloc_hold: "kq_alloc X kq \<Longrightarrow> kq_notes kq k \<noteq> None \<Longrightarrow> k \<notin> X \<Longrightarrow> kq_hold X k kq"
  by (auto simp: kq_alloc_def kq_hold_def calm_def intro: ready_ok_mono)

lemma kq_hold_upd:
  assumes "kq_hold X k kq"
    and "\<And>kn. kn_key (g kn) = kn_key kn"
    and "\<And>kn. KN_QUEUED \<in> kn_status (g kn) \<longleftrightarrow> KN_QUEUED \<in> kn_status kn"
    and "\<And>kn. KN_ACTIVE \<in> kn_status (g kn) \<longleftrightarrow> KN_ACTIVE \<in> kn_status kn"
  shows "kq_hold X k (kn_upd k g kq)"
proof -
  have st: "has_st f (kn_upd k g kq) j = has_st f kq j" if "j \<noteq> k \<or> f \<in> {KN_QUEUED, KN_ACTIVE}" for f j
    using that assms(3,4) by (auto simp: has_st_def)
  have "queue_ok (kn_upd k g kq)"
    using assms(1) by (subst queue_ok_same [of _ kq]) (auto simp: st kq_hold_def)
  moreover have "ready_ok {k} (kn_upd k g kq)"
    using assms(1) by (subst ready_ok_same [of _ _ kq]) (auto simp: st kq_hold_def)
  moreover have "index_ok X (kn_upd k g kq)"
    by (rule index_ok_same [where kq = kq])
      (use assms in \<open>auto simp: kq_hold_def option.map_comp comp_def\<close>)
  ultimately show ?thesis
    using assms(1) by (auto simp: kq_hold_def fresh_ok_def calm_def)
qed

lemma kq_notes_activate:
  assumes "kq_notes kq k = Some kn"
  shows "kq_notes (KNOTE_ACTIVATE k kq) = (kq_notes kq)(k \<mapsto> st_set
    (if KN_DISABLED \<in> kn_status kn then {KN_ACTIVE} else {KN_ACTIVE, KN_QUEUED}) kn)"
proof -
  have "st_set F (st_set G kn) = st_set (F \<union> G) kn" for F G
    by (simp add: st_set_def Un_ac)
  moreover have "st_set {KN_ACTIVE} kn = st_set {KN_ACTIVE, KN_QUEUED} kn" if "KN_QUEUED \<in> kn_status kn"
    using that by (simp add: st_set_def insert_absorb insert_commute)
  ultimately show ?thesis
    using assms by (auto simp: KNOTE_ACTIVATE_cases Let_def has_st_def insert_commute)
qed

lemma KNOTE_ACTIVATE_frame [simp]:
  "kq_refcnt (KNOTE_ACTIVATE k kq) = kq_refcnt kq" "kq_fresh (KNOTE_ACTIVATE k kq) = kq_fresh kq"
  "kq_si_note (KNOTE_ACTIVATE k kq) = kq_si_note kq"
  "kq_knlistsize (KNOTE_ACTIVATE k kq) = kq_knlistsize kq" "kq_knlist (KNOTE_ACTIVATE k kq) = kq_knlist kq"
  "kq_knhashmask (KNOTE_ACTIVATE k kq) = kq_knhashmask kq" "kq_knhash (KNOTE_ACTIVATE k kq) = kq_knhash kq"
  "marks (KNOTE_ACTIVATE k kq) = marks kq"
  "KQ_CLOSING \<in> kq_state (KNOTE_ACTIVATE k kq) \<longleftrightarrow> KQ_CLOSING \<in> kq_state kq"
  by (auto simp: KNOTE_ACTIVATE_def Let_def marks_def)

lemma kq_hold_activate:
  assumes "kq_hold X k kq"
  shows "kq_hold X k (KNOTE_ACTIVATE k kq)"
proof -
  obtain kn where kn: "kq_notes kq k = Some kn"
    using assms by (auto simp: kq_hold_def)
  note nt = kq_notes_activate [OF kn]
  have "index_ok X (KNOTE_ACTIVATE k kq)"
    by (rule index_ok_same [where kq = kq]) (use assms kn in \<open>auto simp: nt kq_hold_def kn_key_def\<close>)
  moreover have "queue_ok (KNOTE_ACTIVATE k kq)" "ready_ok {k} (KNOTE_ACTIVATE k kq)"
    using assms by (auto simp: kq_hold_def intro!: queue_ok_activate ready_ok_activate)
  ultimately show ?thesis
    using assms kn by (auto simp: kq_hold_def nt fresh_ok_def calm_def)
qed

text \<open>The state an update hands to the filter.\<close>

definition kq_update_prep :: "kevent \<Rightarrow> nat \<Rightarrow> kqueue \<Rightarrow> kqueue" where
  "kq_update_prep kev k kq =
     (let kq1 = (if fl (ke_flags kev) EV_FORCEONESHOT
                 then KNOTE_ACTIVATE k (kn_upd k (\<lambda>kn. kn\<lparr>kn_kevent :=
                        (kn_kevent kn)\<lparr>ke_flags := kn_flags kn OR EV_ONESHOT\<rparr>\<rparr>) kq)
                 else kq);
          kq2 = (if fl (ke_flags kev) EV_ENABLE then kn_upd k (st_clr {KN_DISABLED}) kq1
                 else if fl (ke_flags kev) EV_DISABLE then kn_upd k (st_set {KN_DISABLED}) kq1
                 else kq1);
          kq3 = kn_enter_flux k (kn_upd k (st_set {KN_SCAN}) kq2)
      in kn_upd k (\<lambda>kn. kn\<lparr>kn_kevent := (kn_kevent kn)\<lparr>ke_udata := ke_udata kev\<rparr>\<rparr>) kq3)"

lemma kqueue_reg_update_prep:
  assumes "\<not> fl (ke_flags kev) EV_DELETE"
  shows "kqueue_reg_update ops (q, k) fops kev s =
    (let s4 = kq_upd q (kq_update_prep kev k) s;
         (kev1, s5) = (if \<not> f_isfd fops \<and> f_has_touch fops
            then f_touch (ops fops) EVENT_REGISTER (q, k) kev s4
            else (kev, kq_upd q (kn_upd k (\<lambda>kn.
                   kn\<lparr>kn_sfflags := ke_fflags kev, kn_sdata := ke_data kev\<rparr>)) s4))
     in (kev1, kqueue_done_ev_add ops (q, k) s5))"
proof -
  have eq: "kq_upd q (kn_upd k (\<lambda>kn. kn\<lparr>kn_kevent := (kn_kevent kn)\<lparr>ke_udata := ke_udata kev\<rparr>\<rparr>))
      (kq_upd q (\<lambda>kq. kn_enter_flux k (kn_upd k (st_set {KN_SCAN}) kq))
      (if fl (ke_flags kev) EV_ENABLE then kq_upd q (kn_upd k (st_clr {KN_DISABLED})) s1
       else if fl (ke_flags kev) EV_DISABLE then kq_upd q (kn_upd k (st_set {KN_DISABLED})) s1 else s1))
    = kq_upd q (kq_update_prep kev k) s"
    if "s1 = (if fl (ke_flags kev) EV_FORCEONESHOT
                  then kq_upd q (\<lambda>kq. KNOTE_ACTIVATE k (kn_upd k (\<lambda>kn. kn\<lparr>kn_kevent :=
                         (kn_kevent kn)\<lparr>ke_flags := kn_flags kn OR EV_ONESHOT\<rparr>\<rparr>) kq)) s
                  else s)" for s1
    unfolding that by (simp add: kq_update_prep_def Let_def kq_upd_def)
  show ?thesis
    unfolding kqueue_reg_update_def Let_def fst_conv snd_conv eq [OF refl] using assms by simp
qed

lemma kq_update_prep_ok:
  assumes "kq_alloc X kq" "kq_notes kq k = Some kn" "k \<notin> X"
  shows "kq_mid X k (kq_update_prep kev k kq)"
    and "notes_but k kq (kq_update_prep kev k kq)"
    and "\<exists>kn'. kq_notes (kq_update_prep kev k kq) k = Some kn' \<and> kn_key kn' = kn_key kn \<and>
       (KN_DISABLED \<in> kn_status kn' \<longleftrightarrow>
          (if fl (ke_flags kev) EV_ENABLE then False
           else if fl (ke_flags kev) EV_DISABLE then True else KN_DISABLED \<in> kn_status kn))"
    and "kq_refcnt (kq_update_prep kev k kq) = kq_refcnt kq"
    and "marks (kq_update_prep kev k kq) = marks kq"
    and "KQ_CLOSING \<in> kq_state (kq_update_prep kev k kq) \<longleftrightarrow> KQ_CLOSING \<in> kq_state kq"
proof -
  have h: "kq_hold X k kq"
    using assms by (intro kq_alloc_hold) auto
  define g1 where "g1 = (\<lambda>kn :: knote. kn\<lparr>kn_kevent := (kn_kevent kn)\<lparr>ke_flags := kn_flags kn OR EV_ONESHOT\<rparr>\<rparr>)"
  define kq1 where "kq1 = (if fl (ke_flags kev) EV_FORCEONESHOT
    then KNOTE_ACTIVATE k (kn_upd k g1 kq) else kq)"
  have h1: "kq_hold X k kq1"
    using h by (auto simp: kq1_def g1_def kn_key_def intro!: kq_hold_activate kq_hold_upd)
  have "\<exists>kn1. kq_notes kq1 = (kq_notes kq)(k \<mapsto> kn1) \<and> kn_key kn1 = kn_key kn \<and>
      kn_influx kn1 = kn_influx kn \<and> (KN_DISABLED \<in> kn_status kn1 \<longleftrightarrow> KN_DISABLED \<in> kn_status kn)"
  proof (cases "fl (ke_flags kev) EV_FORCEONESHOT")
    case True
    then show ?thesis
      using assms(2) kq_notes_activate [of "kn_upd k g1 kq" k "g1 kn"]
      by (auto simp: kq1_def g1_def kn_key_def)
  qed (use assms(2) in \<open>auto simp: kq1_def fun_upd_idem intro!: exI [of _ kn]\<close>)
  then obtain kn1 where n1: "kq_notes kq1 = (kq_notes kq)(k \<mapsto> kn1)" "kn_key kn1 = kn_key kn"
    "kn_influx kn1 = kn_influx kn" "KN_DISABLED \<in> kn_status kn1 \<longleftrightarrow> KN_DISABLED \<in> kn_status kn"
    by blast
  define g where "g = (\<lambda>kn :: knote. kn\<lparr>
     kn_status := (if fl (ke_flags kev) EV_ENABLE then kn_status kn - {KN_DISABLED}
       else if fl (ke_flags kev) EV_DISABLE then kn_status kn \<union> {KN_DISABLED} else kn_status kn) \<union> {KN_SCAN},
     kn_influx := kn_influx kn + 1,
     kn_kevent := (kn_kevent kn)\<lparr>ke_udata := ke_udata kev\<rparr>\<rparr>)"
  have eq: "kq_update_prep kev k kq = kn_upd k g kq1"
    unfolding kq_update_prep_def Let_def g1_def [symmetric] kq1_def [symmetric]
    by (simp add: kn_upd_def kn_enter_flux_def g_def st_set_def st_clr_def option.map_comp comp_def)
  have "kn_influx kn = 0"
    using assms by (auto simp: kq_alloc_def calm_def)
  then show "kq_mid X k (kq_update_prep kev k kq)"
    using kq_hold_upd [OF h1, of g] n1 unfolding kq_mid_hold eq
    by (auto simp: g_def kn_key_def split: if_splits)
  show "notes_but k kq (kq_update_prep kev k kq)"
    by (simp add: eq notes_but_def n1)
  show "\<exists>kn'. kq_notes (kq_update_prep kev k kq) k = Some kn' \<and> kn_key kn' = kn_key kn \<and>
       (KN_DISABLED \<in> kn_status kn' \<longleftrightarrow>
          (if fl (ke_flags kev) EV_ENABLE then False
           else if fl (ke_flags kev) EV_DISABLE then True else KN_DISABLED \<in> kn_status kn))"
    using n1 by (simp add: eq) (simp add: g_def kn_key_def)
  show "kq_refcnt (kq_update_prep kev k kq) = kq_refcnt kq"
    "marks (kq_update_prep kev k kq) = marks kq"
    "KQ_CLOSING \<in> kq_state (kq_update_prep kev k kq) \<longleftrightarrow> KQ_CLOSING \<in> kq_state kq"
    by (auto simp: eq kq1_def)
qed

lemma kq_keep_free:
  "kq_keep q s (kq_upd q (knote_free tkn) s)"
  by (rule kq_keep_upd) (simp_all add: knote_free_def marks_def split: option.split)

lemma kq_free_alloc_opt: "kq_alloc (set_option tkn) kq \<Longrightarrow> kq_inv (knote_free tkn kq)"
  using kq_free_alloc [of _ "{}"] by (cases tkn) (auto simp: kq_alloc_empty knote_free_def)

lemma kq_notes_free [simp]:
  "kq_notes (knote_free tkn kq) = (\<lambda>j. if tkn = Some j then None else kq_notes kq j)"
  by (auto simp: knote_free_def split: option.split)

text \<open>
  The state in which \<open>kqueue_register\<close> has allocated the spare knote and taken its
  reference on the filter.
\<close>

definition reg_start :: "nat \<Rightarrow> kevent \<Rightarrow> bool \<Rightarrow> 'w kern \<Rightarrow> nat option \<times> 'w kern" where
  "reg_start q kev waitok s1 =
     (let (tkn, kq2) = (if fl (ke_flags kev) EV_ADD
                        then knote_alloc (waitok \<or> k_mem s1) (kqs s1 q) else (None, kqs s1 q))
      in (tkn, kq_upd q (\<lambda>_. kq2) s1))"

lemma reg_start_ok:
  assumes "kq_inv (kqs s q)" "kqueue_fo_find filt s = (fo, s1)" "reg_start q kev waitok s1 = (tkn, s2)"
  shows "kq_alloc (set_option tkn) (kqs s2 q)" "kq_keep q s s2"
    and "tkn = Some k \<Longrightarrow> kq_notes (kqs s2 q) = (kq_notes (kqs s q))(k \<mapsto> zero_knote) \<and>
           kq_notes (kqs s q) k = None"
    and "tkn = None \<Longrightarrow> kqs s2 q = kqs s q"
proof -
  note fo = kqueue_fo_find_kqs [OF assms(2)]
  obtain kq2 where k2: "(if fl (ke_flags kev) EV_ADD
      then knote_alloc (waitok \<or> k_mem s1) (kqs s1 q) else (None, kqs s1 q)) = (tkn, kq2)"
    "s2 = kq_upd q (\<lambda>_. kq2) s1"
    using assms(3) by (auto simp: reg_start_def split: prod.splits)
  have "kq_alloc (set_option tkn) kq2 \<and> marks kq2 = marks (kqs s q) \<and>
      kq_refcnt kq2 = kq_refcnt (kqs s q) \<and> kq_state kq2 = kq_state (kqs s q) \<and>
      (\<forall>k. tkn = Some k \<longrightarrow> kq_notes kq2 = (kq_notes (kqs s q))(k \<mapsto> zero_knote) \<and>
         kq_notes (kqs s q) k = None) \<and> (tkn = None \<longrightarrow> kq2 = kqs s q)"
  proof (cases "fl (ke_flags kev) EV_ADD")
    case True
    then have "knote_alloc (waitok \<or> k_mem s1) (kqs s q) = (tkn, kq2)"
      using k2(1) by (simp add: fo)
    then show ?thesis
      using kq_alloc_alloc [OF assms(1)] by blast
  qed (use assms(1) k2(1) fo in \<open>auto simp: kq_alloc_empty\<close>)
  then show "kq_alloc (set_option tkn) (kqs s2 q)" "kq_keep q s s2"
    "tkn = Some k \<Longrightarrow> kq_notes (kqs s2 q) = (kq_notes (kqs s q))(k \<mapsto> zero_knote) \<and>
       kq_notes (kqs s q) k = None"
    "tkn = None \<Longrightarrow> kqs s2 q = kqs s q"
    by (auto simp: k2(2) fo kq_keep_def)
qed

lemma kqueue_register_start:
  "kqueue_register ops q kev waitok s =
     (if fl (ke_flags kev) EV_ENABLE \<and> fl (ke_flags kev) EV_DISABLE then (KRet EINVAL, kev, s)
      else case kqueue_fo_find (ke_filter kev) s of
        (None, s1) \<Rightarrow> (KRet EINVAL, kev, s1)
      | (Some fops, s1) \<Rightarrow>
          (case reg_start q kev waitok s1 of (tkn, s2) \<Rightarrow>
            case kqueue_findkn fops q waitok kev s2 of
               Find_sleep s3 \<Rightarrow> (KSleep, kev, kq_upd q (knote_free tkn) s3)
             | Find_err e fpo s3 \<Rightarrow>
                 (KRet e, kev, kqueue_fo_release (ke_filter kev)
                    (kq_upd q (knote_free tkn) (fdrop_opt fpo s3)))
             | Found fpo (Some k) s3 \<Rightarrow>
                 (case kqueue_reg_update ops (q, k) fops kev s3 of (kev1, s4) \<Rightarrow>
                   (KRet 0, kev1, kqueue_fo_release (ke_filter kev)
                       (kq_upd q (knote_free tkn) (fdrop_opt fpo s4))))
             | Found fpo None s3 \<Rightarrow>
                 (if fl (ke_flags kev) EV_ADD then
                    case tkn of
                      None \<Rightarrow> (KRet ENOMEM, kev, kqueue_fo_release (ke_filter kev) (fdrop_opt fpo s3))
                    | Some k \<Rightarrow>
                        (case kqueue_reg_add ops (q, k) fops fpo kev s3 of (error, tkn1, kev1, s4) \<Rightarrow>
                          (KRet error, kev1, kq_upd q (knote_free tkn1) s4))
                  else (KRet ENOENT, kev, kqueue_fo_release (ke_filter kev) (fdrop_opt fpo s3)))))"
  unfolding kqueue_register_def reg_start_def Let_def by (simp only: case_prod_beta fst_conv snd_conv)

text \<open>The three outcomes of a registration, as relations between the kqueue before and after.\<close>

definition reg_none :: "kqueue \<Rightarrow> kqueue \<Rightarrow> kres \<Rightarrow> bool" where
  "reg_none a b r \<longleftrightarrow> kq_notes b = kq_notes a \<and> r \<noteq> KRet 0"

definition reg_changed :: "filtop \<Rightarrow> kevent \<Rightarrow> kqueue \<Rightarrow> kqueue \<Rightarrow> kres \<Rightarrow> bool" where
  "reg_changed fops kev a b r \<longleftrightarrow>
     r = KRet 0 \<and>
     (\<exists>k kn. kq_notes a k = Some kn \<and> kn_key kn = (ke_ident kev, ke_filter kev, f_isfd fops) \<and>
       (if fl (ke_flags kev) EV_DELETE then kq_notes b = (kq_notes a)(k := None)
        else notes_but k a b \<and>
          (\<exists>kn'. kq_notes b k = Some kn' \<and> kn_key kn' = kn_key kn \<and>
             (KN_DISABLED \<in> kn_status kn' \<longleftrightarrow>
                (if fl (ke_flags kev) EV_ENABLE then False
                 else if fl (ke_flags kev) EV_DISABLE then True else KN_DISABLED \<in> kn_status kn)))))"

definition reg_added :: "filtop \<Rightarrow> kevent \<Rightarrow> kqueue \<Rightarrow> kqueue \<Rightarrow> kres \<Rightarrow> bool" where
  "reg_added fops kev a b r \<longleftrightarrow>
     r = KRet 0 \<and> fl (ke_flags kev) EV_ADD \<and>
     (\<exists>k. kq_notes a k = None \<and> notes_but k a b \<and>
       (\<exists>kn. kq_notes b k = Some kn \<and> kn_key kn = (ke_ident kev, ke_filter kev, f_isfd fops) \<and>
         (KN_DISABLED \<in> kn_status kn \<longleftrightarrow> fl (ke_flags kev) EV_DISABLE))) \<and>
     (\<not> find_skips fops kev \<longrightarrow>
       (\<forall>j kn. kq_notes a j = Some kn \<longrightarrow> kn_key kn \<noteq> (ke_ident kev, ke_filter kev, f_isfd fops)))"

lemma reg_changed_notes:
  assumes "reg_changed fops kev a b r" "kq_notes b j = Some kn'"
  shows "\<exists>kn. kq_notes a j = Some kn \<and> kn_key kn = kn_key kn'"
proof (cases "fl (ke_flags kev) EV_DELETE")
  case True
  then obtain k where "kq_notes b = (kq_notes a)(k := None)"
    using assms(1) by (auto simp: reg_changed_def)
  then show ?thesis
    using assms(2) by (auto split: if_splits)
next
  case False
  then obtain k kn kn1 where "kq_notes a k = Some kn" "notes_but k a b" "kq_notes b k = Some kn1"
    "kn_key kn1 = kn_key kn"
    using assms(1) unfolding reg_changed_def by (simp only: if_False) blast
  then show ?thesis
    using assms(2) by (cases "j = k") (auto simp: notes_but_def)
qed

lemma reg_added_notes:
  assumes "reg_added fops kev a b r"
  shows "\<exists>k kn. kq_notes b = (kq_notes a)(k \<mapsto> kn) \<and> kq_notes a k = None \<and>
    kn_key kn = (ke_ident kev, ke_filter kev, f_isfd fops) \<and>
    (KN_DISABLED \<in> kn_status kn \<longleftrightarrow> fl (ke_flags kev) EV_DISABLE)"
proof -
  obtain k kn where k: "kq_notes a k = None" "notes_but k a b" "kq_notes b k = Some kn"
    "kn_key kn = (ke_ident kev, ke_filter kev, f_isfd fops)"
    "KN_DISABLED \<in> kn_status kn \<longleftrightarrow> fl (ke_flags kev) EV_DISABLE"
    using assms unfolding reg_added_def by blast
  then have "kq_notes b = (kq_notes a)(k \<mapsto> kn)"
    by (auto simp: notes_but_def)
  then show ?thesis
    using k by blast
qed

context filters
begin

lemma done_ev_add_ok:
  assumes "kq_mid X k (kqs s q)"
  shows "kq_alloc X (kqs (kqueue_done_ev_add ops (q, k) s) q) \<and>
    kq_keep q s (kqueue_done_ev_add ops (q, k) s) \<and>
    notes_but k (kqs s q) (kqs (kqueue_done_ev_add ops (q, k) s) q) \<and>
    rel_option (\<lambda>a b. kn_key a = kn_key b \<and> (KN_DISABLED \<in> kn_status a \<longleftrightarrow> KN_DISABLED \<in> kn_status b))
      (kq_notes (kqs s q) k) (kq_notes (kqs (kqueue_done_ev_add ops (q, k) s) q) k)"
proof -
  obtain event s1 where ev: "(if KN_DISABLED \<notin> kn_status (kn_of s (q, k))
      then f_event (ops (kn_fop (kn_of s (q, k)))) (q, k) 0 s else (False, s)) = (event, s1)"
    by fastforce
  have step: "kern_frame s s1 \<and> cb_step k (kqs s q) (kqs s1 q) \<and>
      (\<forall>q'. q' \<noteq> q \<longrightarrow> other_step (kqs s q') (kqs s1 q'))"
    using ev event_step [of "kn_fop (kn_of s (q, k))" q k 0 s event s1]
    by (auto split: if_splits intro: note_step_cb cb_step_refl)
  define s2 where "s2 = (if event then kq_upd q (kn_upd k (st_set {KN_ACTIVE})) s1 else s1)"
  have m1: "kq_mid X k (kqs s1 q)"
    using step assms by (blast intro: cb_step_mid)
  then have m2: "kq_mid X k (kqs s2 q)"
    by (simp add: s2_def kq_mid_set_active)
  have res: "kqueue_done_ev_add ops (q, k) s = kq_upd q (kq_settle k) s2"
    by (simp only: kqueue_done_ev_add_def ev prod.case fst_conv snd_conv s2_def [symmetric] Let_def)
      (simp add: kq_upd_def kq_settle_def kn_of_def)
  obtain a b where ab: "kq_notes (kqs s q) k = Some a" "kq_notes (kqs s1 q) k = Some b" "kn_stable a b"
    using step kq_mid_note [OF assms]
    by (auto simp: cb_step_def rel_option_iff split: option.splits)
  then obtain c where c: "kq_notes (kqs s2 q) k = Some c" "kn_key c = kn_key b"
    "KN_DISABLED \<in> kn_status c \<longleftrightarrow> KN_DISABLED \<in> kn_status b"
    by (cases event) (simp_all add: s2_def kn_key_def)
  have "kq_keep q s1 s2" "notes_but k (kqs s1 q) (kqs s2 q)"
    by (auto simp: s2_def notes_but_def marks_def intro!: kq_keep_upd)
  moreover have "kq_keep q s2 (kq_upd q (kq_settle k) s2)"
    by (rule kq_keep_upd) (simp_all add: kq_settle_frame)
  moreover have "notes_but k (kqs s2 q) (kq_settle k (kqs s2 q))"
    by (simp add: notes_but_def kq_settle_notes [OF c(1)])
  moreover have "kn_key a = kn_key b" "KN_DISABLED \<in> kn_status a \<longleftrightarrow> KN_DISABLED \<in> kn_status b"
    using ab(3) by (auto simp: kn_stable_def)
  ultimately show ?thesis
    using cb_keep [of s s1 k q] step ab c kq_settle_inv [OF m2]
    by (auto simp: res kq_settle_notes [OF c(1)] kn_key_def intro: kq_keep_trans notes_but_trans)
qed

lemma knote_drop_ok:
  assumes "kq_mid X k (kqs s q)"
  shows "kq_alloc X (kqs (knote_drop ops (q, k) s) q) \<and> kq_keep q s (knote_drop ops (q, k) s) \<and>
    kq_notes (kqs (knote_drop ops (q, k) s) q) = (kq_notes (kqs s q))(k := None)"
proof -
  define s1 where "s1 = (if KN_DETACHED \<notin> kn_status (kn_of s (q, k))
    then f_detach (ops (kn_fop (kn_of s (q, k)))) (q, k) s else s)"
  have step: "kern_frame s s1 \<and> cb_step k (kqs s q) (kqs s1 q) \<and>
      (\<forall>q'. q' \<noteq> q \<longrightarrow> other_step (kqs s q') (kqs s1 q'))"
    using detach_step [of "kn_fop (kn_of s (q, k))" q k s s1]
    by (auto simp: s1_def intro: note_step_cb cb_step_refl)
  have m: "kq_mid X k (kqs s1 q)"
    using step assms by (blast intro: cb_step_mid)
  then obtain kn1 where kn1: "kq_notes (kqs s1 q) k = Some kn1" "queue_ok (kqs s1 q)"
    by (auto simp: kq_mid_def)
  have res: "knote_drop ops (q, k) s = knote_drop_detached (q, k) s1"
    by (simp add: knote_drop_def s1_def)
  have "kq_notes (kq_drop k (kqs s1 q)) = (kq_notes (kqs s q))(k := None)"
    using kq_drop_frame(1) [OF kn1(2,1)] step by (auto simp: cb_step_def)
  then show ?thesis
    using cb_keep(1) [of s s1 k q] step kq_mid_drop [OF m] knote_drop_detached_keep [OF kn1(2,1)]
    by (auto simp: res knote_drop_detached_eq intro: kq_keep_trans)
qed

lemma reg_add_ok:
  assumes "kq_alloc {k} (kqs s q)" "kq_room fops (ke_ident kev) (kqs s q)"
    and "kqueue_reg_add ops (q, k) fops fpo kev s = (e, tkn, kev', s')"
  shows "kq_inv (knote_free tkn (kqs s' q)) \<and> kq_keep q s s' \<and>
    notes_but k (kqs s q) (knote_free tkn (kqs s' q)) \<and>
    (e \<noteq> 0 \<longrightarrow> kq_notes (knote_free tkn (kqs s' q)) k = None) \<and>
    (e = 0 \<longrightarrow> tkn = None \<and> (\<exists>kn. kq_notes (kqs s' q) k = Some kn \<and>
       kn_key kn = (ke_ident kev, ke_filter kev, f_isfd fops) \<and>
       (KN_DISABLED \<in> kn_status kn \<longleftrightarrow> fl (ke_flags kev) EV_DISABLE)))"
proof -
  define kq2 where "kq2 = kn_enter_flux k (kn_upd k (kqueue_new_knote fops fpo kev) (kqs s q))"
  define n where "n = (kqueue_new_knote fops fpo kev zero_knote)\<lparr>kn_influx := 1\<rparr>"
  obtain e3 kq3 where at: "knote_attach k kq2 = (e3, kq3)"
    by fastforce
  define s3 where "s3 = kq_upd q (\<lambda>_. kq3) s"
  obtain e4 s4 where att: "f_attach (ops (kn_fop (kn_of s3 (q, k)))) (q, k) s3 = (e4, s4)"
    by fastforce
  note new = kq_new_loose [where X = "{}", OF assms(1) _ kq2_def, simplified, folded n_def]
  have n: "kq_notes kq2 k = Some n" "kn_influx n = 1" "kn_fop n = fops" "kn_id n = ke_ident kev"
    "kn_filter n = ke_filter kev" "KN_DISABLED \<in> kn_status n \<longleftrightarrow> fl (ke_flags kev) EV_DISABLE"
    by (simp_all add: new(2)) (simp_all add: n_def kqueue_new_knote_def zero_knote_def)
  have room: "kq_room (kn_fop n) (kn_id n) kq2"
    using assms(2) n by (simp add: new(6))
  note att_ok = knote_attach_ok [OF new(1) n(1,2) room at]
  have k3: "kq_keep q s s3" "notes_but k (kqs s q) (kqs s3 q)"
    by (auto simp: s3_def notes_but_def att_ok new intro!: kq_keep_upd)
  have res: "(e, tkn, kev', s') =
      (if e3 \<noteq> 0 then (e3, Some k, kev\<lparr>ke_fflags := 0, ke_data := 0\<rparr>, s3)
       else if e4 \<noteq> 0 then (e4, None, kev\<lparr>ke_fflags := 0, ke_data := 0\<rparr>, knote_drop_detached (q, k) s4)
       else (0, None, kev\<lparr>ke_fflags := 0, ke_data := 0\<rparr>, kqueue_done_ev_add ops (q, k) s4))"
    unfolding assms(3) [symmetric]
    by (simp only: kqueue_reg_add_def Let_def fst_conv snd_conv kq_upd_kq_upd kq_upd_simps
        fun_upd_same kq2_def [symmetric] at att s3_def [symmetric] prod.case)
  show ?thesis
  proof (cases "e3 = 0")
    case False
    then have "kqs s3 q = kq2"
      by (simp add: s3_def att_ok)
    then show ?thesis
      using False res k3 kq_loose_free [OF new(1)]
      by (auto simp: kq_alloc_empty notes_but_def knote_free_def)
  next
    case True
    have step: "kern_frame s3 s4 \<and> cb_step k (kqs s3 q) (kqs s4 q) \<and>
        (\<forall>q'. q' \<noteq> q \<longrightarrow> other_step (kqs s3 q') (kqs s4 q'))"
      using attach_step [OF _ _ att, of n] att_ok(3) n(1) by (simp add: s3_def kn_of_def)
    have m: "kq_mid {} k (kqs s4 q)"
      using step att_ok(2) True by (auto simp: s3_def intro: cb_step_mid)
    have k4: "kq_keep q s s4" "notes_but k (kqs s q) (kqs s4 q)"
      using cb_keep [of s3 s4 k q] step k3 by (blast intro: kq_keep_trans notes_but_trans)+
    obtain n4 where n4: "kq_notes (kqs s4 q) k = Some n4" "kn_stable n n4"
      using step n(1) by (auto simp: s3_def att_ok cb_step_def rel_option_iff split: option.splits)
    have q4: "queue_ok (kqs s4 q)"
      using m by (rule kq_mid_queue_ok)
    show ?thesis
    proof (cases "e4 = 0")
      case False
      then show ?thesis
        using True res kq_mid_drop [OF m] knote_drop_detached_keep [OF q4 n4(1)] k4
          kq_drop_frame(1) [OF q4 n4(1)]
        by (auto simp: knote_free_def knote_drop_detached_eq kq_alloc_empty notes_but_def
            intro: kq_keep_trans)
    next
      case e4: True
      then show ?thesis
        using True res done_ev_add_ok [OF m] k4 n4 n
        by (auto simp: knote_free_def kq_alloc_empty kn_stable_def kn_key_def rel_option_iff
            intro: kq_keep_trans notes_but_trans split: option.splits)
    qed
  qed
qed

lemma reg_delete_ok:
  assumes "kq_alloc X (kqs s q)" "kq_notes (kqs s q) k \<noteq> None" "k \<notin> X"
    and "kqueue_reg_update ops (q, k) fops kev s = (kev', s')" "fl (ke_flags kev) EV_DELETE"
  shows "kq_alloc X (kqs s' q) \<and> kq_keep q s s' \<and>
    kq_notes (kqs s' q) = (kq_notes (kqs s q))(k := None)"
proof -
  let ?s1 = "kq_upd q (kn_enter_flux k) s"
  have "kq_hold X k (kqs ?s1 q)"
    using kq_alloc_hold [OF assms(1-3)]
    by (auto simp: kn_enter_flux_def kn_key_def intro!: kq_hold_upd)
  then have "kq_mid X k (kqs ?s1 q)"
    using assms(1,2) by (auto simp: kq_mid_hold kn_enter_flux_def kq_alloc_def calm_def)
  moreover have "kq_keep q s ?s1"
    by (rule kq_keep_upd) (auto simp: kn_enter_flux_def marks_def)
  moreover have "s' = knote_drop ops (q, k) ?s1"
    using assms(4,5) by (simp add: kqueue_reg_update_def Let_def)
  moreover have "(kq_notes (kqs ?s1 q))(k := None) = (kq_notes (kqs s q))(k := None)"
    by (simp add: kn_enter_flux_def)
  ultimately show ?thesis
    using knote_drop_ok [of X k ?s1 q] by (auto intro: kq_keep_trans)
qed

lemma reg_update_ok:
  assumes "kq_alloc X (kqs s q)" "kq_notes (kqs s q) k = Some kn" "k \<notin> X"
    and "kqueue_reg_update ops (q, k) fops kev s = (kev', s')" "\<not> fl (ke_flags kev) EV_DELETE"
  shows "kq_alloc X (kqs s' q) \<and> kq_keep q s s' \<and> notes_but k (kqs s q) (kqs s' q) \<and>
    (\<exists>kn'. kq_notes (kqs s' q) k = Some kn' \<and> kn_key kn' = kn_key kn \<and>
       (KN_DISABLED \<in> kn_status kn' \<longleftrightarrow>
          (if fl (ke_flags kev) EV_ENABLE then False
           else if fl (ke_flags kev) EV_DISABLE then True else KN_DISABLED \<in> kn_status kn)))"
proof -
  define s4 where "s4 = kq_upd q (kq_update_prep kev k) s"
  obtain kev1 s5 where t: "(if \<not> f_isfd fops \<and> f_has_touch fops
      then f_touch (ops fops) EVENT_REGISTER (q, k) kev s4
      else (kev, kq_upd q (kn_upd k (\<lambda>kn.
             kn\<lparr>kn_sfflags := ke_fflags kev, kn_sdata := ke_data kev\<rparr>)) s4)) = (kev1, s5)"
    by fastforce
  have res: "s' = kqueue_done_ev_add ops (q, k) s5"
    using assms(4) t kqueue_reg_update_prep [OF assms(5), of ops q k fops s]
    by (simp add: s4_def [symmetric] Let_def)
  note prep = kq_update_prep_ok [OF assms(1-3), of kev]
  have k4: "kq_keep q s s4" "notes_but k (kqs s q) (kqs s4 q)"
    by (auto simp: s4_def prep intro!: kq_keep_upd)
  have g: "note_step k (kqs s4 q) (kqs (kq_upd q (kn_upd k (\<lambda>kn.
      kn\<lparr>kn_sfflags := ke_fflags kev, kn_sdata := ke_data kev\<rparr>)) s4) q)"
    unfolding note_step_def
    by (rule exI [of _ "\<lambda>kn. kn\<lparr>kn_sfflags := ke_fflags kev, kn_sdata := ke_data kev\<rparr>"],
        rule exI [of _ "kq_si_note (kqs s4 q)"]) (simp add: kn_key_def st_core_def kn_upd_def)
  have step: "kern_frame s4 s5 \<and> cb_step k (kqs s4 q) (kqs s5 q) \<and>
      (\<forall>q'. q' \<noteq> q \<longrightarrow> other_step (kqs s4 q') (kqs s5 q'))"
    using t touch_register_step [of s4 q k fops kev kev1 s5] note_step_cb [OF g] prep(3)
    by (auto simp: kern_frame_def s4_def split: if_splits)
  have m5: "kq_mid X k (kqs s5 q)"
    using step prep(1) by (auto simp: s4_def intro: cb_step_mid)
  have k5: "kq_keep q s s5" "notes_but k (kqs s q) (kqs s5 q)"
    using cb_keep [of s4 s5 k q] step k4 by (blast intro: kq_keep_trans notes_but_trans)+
  obtain kn4 where n4: "kq_notes (kqs s4 q) k = Some kn4" "kn_key kn4 = kn_key kn"
    "KN_DISABLED \<in> kn_status kn4 \<longleftrightarrow> (if fl (ke_flags kev) EV_ENABLE then False
       else if fl (ke_flags kev) EV_DISABLE then True else KN_DISABLED \<in> kn_status kn)"
    using prep(3) by (auto simp: s4_def)
  obtain kn5 where n5: "kq_notes (kqs s5 q) k = Some kn5" "kn_stable kn4 kn5"
    using step n4(1) by (auto simp: cb_step_def rel_option_iff split: option.splits)
  then have d5: "KN_DISABLED \<in> kn_status kn5 \<longleftrightarrow> KN_DISABLED \<in> kn_status kn4" "kn_key kn5 = kn_key kn4"
    by (auto simp: kn_stable_def)
  obtain kn' where "kq_notes (kqs s' q) k = Some kn'" "kn_key kn' = kn_key kn5"
    "KN_DISABLED \<in> kn_status kn' \<longleftrightarrow> KN_DISABLED \<in> kn_status kn5"
    using done_ev_add_ok [OF m5] n5(1)
    by (auto simp: res rel_option_iff split: option.splits)
  then show ?thesis
    using done_ev_add_ok [OF m5] k5 n4 d5
    by (auto simp: res intro: kq_keep_trans notes_but_trans)
qed

text \<open>
  What a registration does, by its outcome.  The changed knote, if any, is the one the search
  found or the newly allocated one.
\<close>

lemma register_found_ok:
  assumes "kq_inv (kqs s q)" "\<not> (fl (ke_flags kev) EV_ENABLE \<and> fl (ke_flags kev) EV_DISABLE)"
    and "kqueue_fo_find (ke_filter kev) s = (Some fops, s1)"
    and "reg_start q kev waitok s1 = (tkn, s2)"
    and "kqueue_findkn fops q waitok kev s2 = Found fpo (Some k) s3"
    and "kqueue_register ops q kev waitok s = (r, kev', s')"
  shows "r = KRet 0 \<and> kq_inv (kqs s' q) \<and> kq_keep q s s' \<and>
    (\<exists>kn. kq_notes (kqs s q) k = Some kn \<and> kn_key kn = (ke_ident kev, ke_filter kev, f_isfd fops) \<and>
      (if fl (ke_flags kev) EV_DELETE then kq_notes (kqs s' q) = (kq_notes (kqs s q))(k := None)
       else notes_but k (kqs s q) (kqs s' q) \<and>
         (\<exists>kn'. kq_notes (kqs s' q) k = Some kn' \<and> kn_key kn' = kn_key kn \<and>
            (KN_DISABLED \<in> kn_status kn' \<longleftrightarrow>
               (if fl (ke_flags kev) EV_ENABLE then False
                else if fl (ke_flags kev) EV_DISABLE then True else KN_DISABLED \<in> kn_status kn)))))"
proof -
  note st = reg_start_ok [OF assms(1,3,4)]
  have "find_ok fops q kev s2 (Found fpo (Some k) s3)"
    using kqueue_findkn_ok [of fops q kev s2 waitok] assms(5) by simp
  then have rel: "find_rel q s2 s3" and fnd: "kq_find fops (kqs s3 q) kev = Some k"
    by (auto simp: find_ok_def)
  then have fs: "find_step (kqs s2 q) (kqs s3 q)"
    by (simp add: find_rel_def)
  then have al: "kq_alloc (set_option tkn) (kqs s3 q)" and n3: "kq_notes (kqs s3 q) = kq_notes (kqs s2 q)"
    using st(1) by (auto simp: find_step_def intro: find_step_alloc)
  have "index_ok (set_option tkn) (kqs s3 q)"
    using al by (simp add: kq_alloc_def)
  then obtain kn where kn: "kq_notes (kqs s3 q) k = Some kn" "k \<notin> set_option tkn"
    "kn_key kn = (ke_ident kev, ke_filter kev, f_isfd fops)"
    using kq_find_Some [OF _ fnd] by (auto simp: kn_key_def)
  have old: "kq_notes (kqs s q) k = Some kn"
    using kn n3 st(3,4) by (cases tkn) auto
  obtain kev4 s4 where u: "kqueue_reg_update ops (q, k) fops kev s3 = (kev4, s4)"
    by fastforce
  have res: "r = KRet 0" "s' = kqueue_fo_release (ke_filter kev) (kq_upd q (knote_free tkn) (fdrop_opt fpo s4))"
    using assms(2-6) u by (auto simp: kqueue_register_start split: if_splits)
  have a4: "kq_alloc (set_option tkn) (kqs s4 q) \<and> kq_keep q s3 s4"
    using reg_delete_ok [OF al _ kn(2) u] reg_update_ok [OF al kn(1,2) u] kn(1) by blast
  have keep4: "kq_keep q s4 s'"
    unfolding res(2) by (blast intro: kq_keep_trans kq_keep_fdrop_opt kq_keep_free kq_keep_fo_release)
  then have keep: "kq_keep q s s'"
    using st(2) find_rel_keep [OF rel] a4 by (blast intro: kq_keep_trans)
  have base: "(\<lambda>j. if tkn = Some j then None else kq_notes (kqs s3 q) j) = kq_notes (kqs s q)"
    using st(3,4) n3 by (cases tkn) (auto simp: fun_eq_iff)
  have nt: "kq_notes (kqs s' q) = (\<lambda>j. if tkn = Some j then None else kq_notes (kqs s4 q) j)"
    by (simp add: res(2))
  have "kq_inv (kqs s' q)"
    using kq_free_alloc_opt a4 by (simp add: res(2))
  moreover have "kq_notes (kqs s' q) = (kq_notes (kqs s q))(k := None)" if "fl (ke_flags kev) EV_DELETE"
    using reg_delete_ok [OF al _ kn(2) u that] kn(1) by (auto simp: nt base [symmetric])
  moreover have "notes_but k (kqs s q) (kqs s' q) \<and>
         (\<exists>kn'. kq_notes (kqs s' q) k = Some kn' \<and> kn_key kn' = kn_key kn \<and>
            (KN_DISABLED \<in> kn_status kn' \<longleftrightarrow>
               (if fl (ke_flags kev) EV_ENABLE then False
                else if fl (ke_flags kev) EV_DISABLE then True else KN_DISABLED \<in> kn_status kn)))"
    if "\<not> fl (ke_flags kev) EV_DELETE"
    using reg_update_ok [OF al kn(1,2) u that] kn(2)
    by (auto simp: nt notes_but_def base [symmetric])
  ultimately show ?thesis
    using res(1) keep old kn(3) by auto
qed

lemma register_new_ok:
  assumes "kq_inv (kqs s q)" "\<not> (fl (ke_flags kev) EV_ENABLE \<and> fl (ke_flags kev) EV_DISABLE)"
    and "kqueue_fo_find (ke_filter kev) s = (Some fops, s1)"
    and "reg_start q kev waitok s1 = (Some k, s2)"
    and "kqueue_findkn fops q waitok kev s2 = Found fpo None s3" "fl (ke_flags kev) EV_ADD"
    and "kqueue_register ops q kev waitok s = (r, kev', s')"
  shows "kq_inv (kqs s' q) \<and> kq_keep q s s' \<and>
    kq_notes (kqs s q) k = None \<and> kq_find fops (kqs s3 q) kev = None \<and>
    kq_alloc {k} (kqs s3 q) \<and> kq_notes (kqs s3 q) = (kq_notes (kqs s q))(k \<mapsto> zero_knote) \<and>
    notes_but k (kqs s q) (kqs s' q) \<and>
    (\<exists>e. r = KRet e \<and> (if e = 0 then \<exists>kn. kq_notes (kqs s' q) k = Some kn \<and>
         kn_key kn = (ke_ident kev, ke_filter kev, f_isfd fops) \<and>
         (KN_DISABLED \<in> kn_status kn \<longleftrightarrow> fl (ke_flags kev) EV_DISABLE)
       else kq_notes (kqs s' q) k = None))"
proof -
  note st = reg_start_ok [OF assms(1,3,4), simplified]
  have "find_ok fops q kev s2 (Found fpo None s3)"
    using kqueue_findkn_ok [of fops q kev s2 waitok] assms(5) by simp
  then have rel: "find_rel q s2 s3" and fnd: "kq_find fops (kqs s3 q) kev = None"
    and room: "kq_room fops (ke_ident kev) (kqs s3 q)"
    using assms(6) by (auto simp: find_ok_def)
  then have fs: "find_step (kqs s2 q) (kqs s3 q)"
    by (simp add: find_rel_def)
  then have al: "kq_alloc {k} (kqs s3 q)" and n3: "kq_notes (kqs s3 q) = kq_notes (kqs s2 q)"
    using st(1) by (auto simp: find_step_def intro: find_step_alloc)
  obtain e tkn1 kev4 s4 where u: "kqueue_reg_add ops (q, k) fops fpo kev s3 = (e, tkn1, kev4, s4)"
    by (metis prod_cases4)
  have res: "r = KRet e" "s' = kq_upd q (knote_free tkn1) s4"
    using assms(2-7) u by (auto simp: kqueue_register_start split: if_splits)
  note ra = reg_add_ok [OF al room u]
  have "kq_keep q s3 s'"
    using ra by (auto simp: res(2) intro: kq_keep_trans kq_keep_free)
  then have "kq_keep q s s'"
    using st(2) find_rel_keep [OF rel] by (blast intro: kq_keep_trans)
  moreover have "kqs s' q = knote_free tkn1 (kqs s4 q)"
    by (simp add: res(2))
  moreover have "kqs s' q = kqs s4 q" if "e = 0"
  proof -
    have "tkn1 = None"
      using ra that by blast
    then show ?thesis
      by (simp add: res(2) knote_free_def)
  qed
  moreover have "kq_notes (kqs s q) k = None" "kq_notes (kqs s3 q) = (kq_notes (kqs s q))(k \<mapsto> zero_knote)"
    using st(3) n3 by auto
  moreover have "notes_but k (kqs s q) (kqs s3 q)"
    by (simp add: notes_but_def calculation(5))
  ultimately show ?thesis
    using ra res(1) fnd al by (simp del: kq_notes_free) (metis notes_but_trans)
qed

lemma register_other_ok:
  assumes "kq_inv (kqs s q)" "kqueue_register ops q kev waitok s = (r, kev', s')"
    and "fl (ke_flags kev) EV_ENABLE \<and> fl (ke_flags kev) EV_DISABLE \<or>
      fst (kqueue_fo_find (ke_filter kev) s) = None"
  shows "kq_inv (kqs s' q) \<and> kq_keep q s s' \<and> r = KRet EINVAL \<and> kqs s' = kqs s"
proof -
  obtain fo s1 where fo: "kqueue_fo_find (ke_filter kev) s = (fo, s1)"
    by fastforce
  then have "r = KRet EINVAL \<and> (s' = s \<or> s' = s1)"
    using assms(2,3) by (auto simp: kqueue_register_def split: if_splits)
  then show ?thesis
    using assms(1) kqueue_fo_find_kqs [OF fo] by (auto simp: kq_keep_def)
qed

lemma register_fail_ok:
  assumes "kq_inv (kqs s q)" "\<not> (fl (ke_flags kev) EV_ENABLE \<and> fl (ke_flags kev) EV_DISABLE)"
    and "kqueue_fo_find (ke_filter kev) s = (Some fops, s1)"
    and "reg_start q kev waitok s1 = (tkn, s2)"
    and "kqueue_findkn fops q waitok kev s2 = f"
    and "\<And>fpo k s3. f \<noteq> Found fpo (Some k) s3"
    and "\<And>fpo s3. f = Found fpo None s3 \<Longrightarrow> \<not> fl (ke_flags kev) EV_ADD \<or> tkn = None"
    and "kqueue_register ops q kev waitok s = (r, kev', s')"
  shows "kq_inv (kqs s' q) \<and> kq_keep q s s' \<and> kq_notes (kqs s' q) = kq_notes (kqs s q) \<and> r \<noteq> KRet 0"
proof -
  note st = reg_start_ok [OF assms(1,3,4)]
  define s3 where "s3 = findres_state f"
  have ok: "find_ok fops q kev s2 f"
    using kqueue_findkn_ok [of fops q kev s2 waitok] assms(5) by simp
  then have rel: "find_rel q s2 s3"
    by (simp add: find_ok_def s3_def)
  then have al: "kq_alloc (set_option tkn) (kqs s3 q)" and n3: "kq_notes (kqs s3 q) = kq_notes (kqs s2 q)"
    using st(1) by (auto simp: find_rel_def find_step_def intro: find_step_alloc)
  have tkn: "tkn = None" if "\<not> fl (ke_flags kev) EV_ADD"
    using assms(4) that by (simp add: reg_start_def)
  have s': "kqs s' q = knote_free tkn (kqs s3 q) \<and> kq_keep q s3 s' \<and> r \<noteq> KRet 0"
  proof (cases f)
    case (Find_err e fpo t)
    have "kq_keep q t (kqueue_fo_release (ke_filter kev) (kq_upd q (knote_free tkn) (fdrop_opt fpo t)))"
      by (blast intro: kq_keep_trans kq_keep_fdrop_opt kq_keep_free kq_keep_fo_release)
    then show ?thesis
      using assms(2-5,8) Find_err ok
      by (auto simp: kqueue_register_start s3_def find_ok_def split: if_splits)
  next
    case (Found fpo kno t)
    then have "tkn = None" "kno = None"
      using assms(6,7) tkn by (cases kno; auto)+
    moreover have "kq_keep q t (kqueue_fo_release (ke_filter kev) (fdrop_opt fpo t))"
      by (blast intro: kq_keep_trans kq_keep_fdrop_opt kq_keep_fo_release)
    ultimately show ?thesis
      using assms(2-5,8) Found
      by (auto simp: kqueue_register_start s3_def knote_free_def split: if_splits)
  next
    case (Find_sleep t)
    then show ?thesis
      using assms(2-5,8)
      by (auto simp: kqueue_register_start s3_def kq_keep_free split: if_splits)
  qed
  have "kq_inv (kqs s' q)"
    using al s' kq_free_alloc_opt by auto
  moreover have "kq_keep q s s'"
    using st(2) find_rel_keep [OF rel] s' by (blast intro: kq_keep_trans)
  moreover have "kq_notes (kqs s' q) = kq_notes (kqs s q)"
    using st(3,4) n3 s' by (cases tkn) (auto simp: fun_eq_iff)
  ultimately show ?thesis
    using s' by blast
qed

lemma register_outcome:
  assumes "kq_inv (kqs s q)" "kqueue_register ops q kev waitok s = (r, kev', s')"
  shows "kq_inv (kqs s' q) \<and> kq_keep q s s' \<and>
    (reg_none (kqs s q) (kqs s' q) r \<or>
     (\<exists>fops. fst (kqueue_fo_find (ke_filter kev) s) = Some fops \<and>
        (reg_changed fops kev (kqs s q) (kqs s' q) r \<or> reg_added fops kev (kqs s q) (kqs s' q) r)))"
proof (cases "fl (ke_flags kev) EV_ENABLE \<and> fl (ke_flags kev) EV_DISABLE \<or>
      fst (kqueue_fo_find (ke_filter kev) s) = None")
  case True
  then show ?thesis
    using register_other_ok [OF assms] by (auto simp: reg_none_def)
next
  case False
  then have en: "\<not> (fl (ke_flags kev) EV_ENABLE \<and> fl (ke_flags kev) EV_DISABLE)" by blast
  obtain fops s1 where fo: "kqueue_fo_find (ke_filter kev) s = (Some fops, s1)"
    using False by (cases "kqueue_fo_find (ke_filter kev) s") auto
  obtain tkn s2 where st: "reg_start q kev waitok s1 = (tkn, s2)"
    by fastforce
  define f where "f = kqueue_findkn fops q waitok kev s2"
  consider (found) fpo k s3 where "f = Found fpo (Some k) s3"
    | (new) fpo k s3 where "f = Found fpo None s3" "fl (ke_flags kev) EV_ADD" "tkn = Some k"
    | (fail) "\<And>fpo k s3. f \<noteq> Found fpo (Some k) s3"
        "\<And>fpo s3. f = Found fpo None s3 \<Longrightarrow> \<not> fl (ke_flags kev) EV_ADD \<or> tkn = None"
    by (metis not_None_eq)
  then show ?thesis
  proof cases
    case found
    note fnd = register_found_ok [OF assms(1) en fo st found [unfolded f_def] assms(2)]
    have "reg_changed fops kev (kqs s q) (kqs s' q) r"
      unfolding reg_changed_def using fnd by blast
    then show ?thesis
      using fnd by (simp add: fo)
  next
    case new
    note n = register_new_ok [OF assms(1) en fo st [unfolded new(3)] new(1) [unfolded f_def] new(2) assms(2)]
    have n3: "kq_notes (kqs s3 q) = (kq_notes (kqs s q))(k \<mapsto> zero_knote)" "kq_notes (kqs s q) k = None"
      and ix: "index_ok {k} (kqs s3 q)" and fnd: "kq_find fops (kqs s3 q) kev = None"
      using n by (auto simp: kq_alloc_def)
    have "kn_key kn \<noteq> (ke_ident kev, ke_filter kev, f_isfd fops)"
      if "\<not> find_skips fops kev" "kq_notes (kqs s q) j = Some kn" for j kn
    proof -
      have "j \<noteq> k"
        using that(2) n3(2) by auto
      then show ?thesis
        using kq_find_None [OF ix fnd that(1), of j kn] that(2) n3(1) by (auto simp: kn_key_def)
    qed
    then have uq: "\<not> find_skips fops kev \<longrightarrow> (\<forall>j kn. kq_notes (kqs s q) j = Some kn \<longrightarrow>
        kn_key kn \<noteq> (ke_ident kev, ke_filter kev, f_isfd fops))"
      by blast
    obtain e where e: "r = KRet e" "if e = 0 then \<exists>kn. kq_notes (kqs s' q) k = Some kn \<and>
         kn_key kn = (ke_ident kev, ke_filter kev, f_isfd fops) \<and>
         (KN_DISABLED \<in> kn_status kn \<longleftrightarrow> fl (ke_flags kev) EV_DISABLE)
       else kq_notes (kqs s' q) k = None"
      using n by blast
    show ?thesis
    proof (cases "e = 0")
      case True
      then have "reg_added fops kev (kqs s q) (kqs s' q) r"
        unfolding reg_added_def using e n new(2) uq by (simp only: if_True refl) blast
      then show ?thesis
        using n by (simp add: fo)
    next
      case False
      then have "kq_notes (kqs s' q) j = kq_notes (kqs s q) j" for j
        using n e(2) by (cases "j = k") (simp_all add: notes_but_def)
      then have "reg_none (kqs s q) (kqs s' q) r"
        using False e(1) by (auto simp: reg_none_def)
      then show ?thesis
        using n by simp
    qed
  next
    case fail
    show ?thesis
      using register_fail_ok [OF assms(1) en fo st refl _ _ assms(2)] fail
      unfolding f_def reg_none_def by blast
  qed
qed

lemma register_inv:
  "kq_inv (kqs s q) \<Longrightarrow> kqueue_register ops q kev waitok s = (r, kev', s') \<Longrightarrow>
   kq_inv (kqs s' q) \<and> kq_keep q s s'"
  using register_outcome by blast

lemma register_uniq:
  assumes "kq_inv (kqs s q)" "uniq_ok {} (kqs s q)"
    and "kqueue_register ops q kev waitok s = (r, kev', s')"
    and "\<And>fops k kn. fst (kqueue_fo_find (ke_filter kev) s) = Some fops \<Longrightarrow>
      kq_notes (kqs s q) k = Some kn \<Longrightarrow> kn_filter kn = ke_filter kev \<Longrightarrow>
      f_isfd (kn_fop kn) = f_isfd fops"
    and "\<And>fops. fst (kqueue_fo_find (ke_filter kev) s) = Some fops \<Longrightarrow> \<not> find_skips fops kev"
  shows "uniq_ok {} (kqs s' q)"
proof -
  consider "reg_none (kqs s q) (kqs s' q) r"
    | (changed) fops where "reg_changed fops kev (kqs s q) (kqs s' q) r"
    | (added) fops where "fst (kqueue_fo_find (ke_filter kev) s) = Some fops"
        "reg_added fops kev (kqs s q) (kqs s' q) r"
    using register_outcome [OF assms(1,3)] by blast
  then show ?thesis
  proof cases
    case 1
    then show ?thesis
      using assms(2) by (simp add: uniq_ok_def reg_none_def)
  next
    case changed
    have k: "\<exists>kn. kq_notes (kqs s q) j = Some kn \<and> kn_key kn = kn_key kn'"
      if "kq_notes (kqs s' q) j = Some kn'" for j kn'
      using reg_changed_notes [OF changed that] .
    show ?thesis
      unfolding uniq_ok_def
    proof (intro allI impI)
      fix j l a b
      assume "kq_notes (kqs s' q) j = Some a" "kq_notes (kqs s' q) l = Some b"
        "kn_id a = kn_id b" "kn_filter a = kn_filter b"
      moreover obtain a' b' where "kq_notes (kqs s q) j = Some a'" "kn_key a' = kn_key a"
        "kq_notes (kqs s q) l = Some b'" "kn_key b' = kn_key b"
        using k calculation(1,2) by blast
      ultimately show "j = l"
        using assms(2) by (auto simp: uniq_ok_def kn_key_def)
    qed
  next
    case added
    obtain k kn where k: "kq_notes (kqs s' q) = (kq_notes (kqs s q))(k \<mapsto> kn)"
      "kn_key kn = (ke_ident kev, ke_filter kev, f_isfd fops)"
      using reg_added_notes [OF added(2)] by blast
    have "\<not> (kn_id a = kn_id kn \<and> kn_filter a = kn_filter kn)" if "kq_notes (kqs s q) j = Some a" for j a
    proof -
      have "kn_key a \<noteq> (ke_ident kev, ke_filter kev, f_isfd fops)"
        using added(2) assms(5) [OF added(1)] that unfolding reg_added_def by blast
      then show ?thesis
        using assms(4) [OF added(1) that] k(2) by (auto simp: kn_key_def)
    qed
    then show ?thesis
      using assms(2) unfolding uniq_ok_def k(1) fun_upd_apply
      by (metis option.inject)
  qed
qed

end

end
