(* ===== verification/Kqueue_Scan.thy ===== *)
theory Kqueue_Scan
  imports Kqueue_Register "HOL-Library.Sublist"
begin

text \<open>
  Collection of pending events: \<open>kqueue_scan\<close> always ends within the passes its model
  has, keeps the invariant, reports at most the wanted number of events, each of an enabled
  knote that was pending, in queue order, and returns how many it reported.
\<close>

section \<open>A knote taken off the queue\<close>

definition kq_popd :: "nat \<Rightarrow> kqueue \<Rightarrow> bool" where
  "kq_popd k kq \<longleftrightarrow>
     kq_hold {} k (kq\<lparr>kq_head := QNote k # kq_head kq\<rparr>) \<and> has_st KN_QUEUED kq k"

lemma sel_head_upd [simp]:
  "has_st f (kq\<lparr>kq_head := h\<rparr>) j = has_st f kq j"
  "index_ok X (kq\<lparr>kq_head := h\<rparr>) = index_ok X kq"
  "ready_ok X (kq\<lparr>kq_head := h\<rparr>) = ready_ok X kq"
  "fresh_ok (kq\<lparr>kq_head := h\<rparr>) = fresh_ok kq"
  "calm X (kq\<lparr>kq_head := h\<rparr>) = calm X kq"
  by (simp_all add: index_ok_def ready_ok_def fresh_ok_def calm_def has_st_def kn_klist_def)

lemma sel_count_upd [simp]:
  "has_st f (kq\<lparr>kq_count := c\<rparr>) j = has_st f kq j"
  "index_ok X (kq\<lparr>kq_count := c\<rparr>) = index_ok X kq"
  "ready_ok X (kq\<lparr>kq_count := c\<rparr>) = ready_ok X kq"
  "fresh_ok (kq\<lparr>kq_count := c\<rparr>) = fresh_ok kq"
  "calm X (kq\<lparr>kq_count := c\<rparr>) = calm X kq"
  "marks (kq\<lparr>kq_count := c\<rparr>) = marks kq"
  by (simp_all add: index_ok_def ready_ok_def fresh_ok_def calm_def has_st_def kn_klist_def marks_def)

lemma kn_upd_head: "kn_upd k g (kq\<lparr>kq_head := h\<rparr>) = (kn_upd k g kq)\<lparr>kq_head := h\<rparr>"
  by (simp add: kn_upd_def)

lemma kq_popd_upd:
  assumes "kq_popd k kq"
    and "\<And>kn. kn_key (g kn) = kn_key kn"
    and "\<And>kn. KN_QUEUED \<in> kn_status (g kn) \<longleftrightarrow> KN_QUEUED \<in> kn_status kn"
    and "\<And>kn. KN_ACTIVE \<in> kn_status (g kn) \<longleftrightarrow> KN_ACTIVE \<in> kn_status kn"
  shows "kq_popd k (kn_upd k g kq)"
  using assms kq_hold_upd [of "{}" k "kq\<lparr>kq_head := QNote k # kq_head kq\<rparr>" g]
  by (auto simp: kq_popd_def kn_upd_head has_st_def)

lemma kq_popd_step:
  assumes "note_step k a b" "kq_popd k a"
  shows "kq_popd k b" "kq_head b = kq_head a"
proof -
  obtain g sn where b: "b = (kn_upd k g a)\<lparr>kq_si_note := sn\<rparr>"
    and g: "\<And>kn. kn_key (g kn) = kn_key kn" "\<And>kn. st_core (g kn) = st_core kn"
    using assms(1) by (auto simp: note_step_def)
  have "kq_popd k (kn_upd k g a)"
    by (rule kq_popd_upd [OF assms(2) g(1)]) (use st_core_has [OF g(2)] in auto)
  moreover have "kq_popd k (kq\<lparr>kq_si_note := sn\<rparr>) = kq_popd k kq" for kq
    by (simp add: kq_popd_def kq_hold_def queue_ok_def has_st_def)
  ultimately show "kq_popd k b"
    by (simp add: b)
  show "kq_head b = kq_head a"
    by (simp add: b)
qed

lemma kq_popd_dequeue:
  assumes "kq_popd k kq" "KN_QUEUED \<in> F"
  shows "kq_hold {} k ((kn_upd k (st_clr F) kq)\<lparr>kq_count := kq_count kq - 1\<rparr>)"
proof -
  have h: "kq_hold {} k (kq\<lparr>kq_head := QNote k # kq_head kq\<rparr>)" "has_st KN_QUEUED kq k"
    using assms(1) by (auto simp: kq_popd_def)
  have "queue_ok ((kn_upd k (st_clr F) kq)\<lparr>kq_count := kq_count kq - 1\<rparr>)"
    using h assms(2) by (auto simp: kq_hold_def queue_ok_def)
  moreover have "index_ok {} (kn_upd k (st_clr F) kq)"
    by (rule index_ok_same [where kq = kq])
      (use h in \<open>auto simp: kq_hold_def kn_key_def option.map_comp comp_def\<close>)
  moreover have "ready_ok {k} (kn_upd k (st_clr F) kq)"
    using h by (auto simp: kq_hold_def ready_ok_def)
  ultimately show ?thesis
    using h by (auto simp: kq_hold_def fresh_ok_def calm_def)
qed

lemma kq_popd_requeue:
  assumes "kq_popd k kq"
  shows "kq_hold {} k (kq\<lparr>kq_head := kq_head kq @ [QNote k]\<rparr>)"
  using assms by (auto simp: kq_popd_def kq_hold_def queue_ok_def)

lemma kq_hold_inv:
  assumes "kq_hold {} k kq" "kq_notes kq k = Some kn" "kn_influx kn = 0" "KN_SCAN \<notin> kn_status kn"
    and "KN_ACTIVE \<in> kn_status kn \<Longrightarrow> KN_DISABLED \<notin> kn_status kn \<Longrightarrow> KN_QUEUED \<in> kn_status kn"
  shows "kq_inv kq"
proof -
  have "ready_ok {} kq"
    using assms by (auto simp: kq_hold_def ready_ok_def has_st_def) (metis option.inject)
  moreover have "calm {} kq"
    using assms by (auto simp: kq_hold_def calm_def) (metis option.inject)+
  ultimately show ?thesis
    using assms(1) by (simp add: kq_hold_def kq_inv_def)
qed

lemma kq_inv_popd:
  assumes "kq_inv kq" "kq_head kq = QNote k # rest"
  shows "kq_popd k (kq\<lparr>kq_head := rest\<rparr>)"
    and "\<exists>kn. kq_notes kq k = Some kn \<and> kn_influx kn = 0 \<and> KN_SCAN \<notin> kn_status kn \<and>
          KN_QUEUED \<in> kn_status kn"
proof -
  have "QNote k \<in> set (kq_head kq)"
    using assms(2) by simp
  then have "has_st KN_QUEUED kq k"
    using assms(1) by (simp only: kq_inv_def queue_ok_def)
  then show "\<exists>kn. kq_notes kq k = Some kn \<and> kn_influx kn = 0 \<and> KN_SCAN \<notin> kn_status kn \<and>
          KN_QUEUED \<in> kn_status kn"
    using assms(1) by (auto simp: has_st_def kq_inv_def calm_def)
  have "kq\<lparr>kq_head := QNote k # rest\<rparr> = kq"
    using assms(2) by (metis kqueue.surjective kqueue.update_convs(2))
  then show "kq_popd k (kq\<lparr>kq_head := rest\<rparr>)"
    using \<open>has_st KN_QUEUED kq k\<close> assms(1) kq_alloc_hold [of "{}" kq k]
    by (auto simp: kq_popd_def kq_alloc_empty has_st_def)
qed


definition kq_env :: "nat \<Rightarrow> 'w kern \<Rightarrow> 'w kern \<Rightarrow> bool" where
  "kq_env q s s' \<longleftrightarrow>
     (\<forall>q'. q' \<noteq> q \<longrightarrow> other_step (kqs s q') (kqs s' q')) \<and>
     kq_refcnt (kqs s' q) = kq_refcnt (kqs s q) \<and>
     (KQ_CLOSING \<in> kq_state (kqs s' q) \<longleftrightarrow> KQ_CLOSING \<in> kq_state (kqs s q)) \<and>
     k_fdt s' = k_fdt s \<and> k_kqlist s' = k_kqlist s \<and> k_mem s' = k_mem s \<and>
     files_keep (k_files s) (k_files s')"

lemma kq_keep_env: "kq_keep q s s' \<Longrightarrow> kq_env q s s' \<and> marks (kqs s' q) = marks (kqs s q)"
  by (auto simp: kq_keep_def kq_env_def)

lemma kq_env_refl [simp]: "kq_env q s s"
  by (simp add: kq_env_def)

lemma kq_env_trans: "kq_env q s t \<Longrightarrow> kq_env q t u \<Longrightarrow> kq_env q s u"
  unfolding kq_env_def by (auto intro: other_step_trans files_keep_trans)

lemma kq_env_upd:
  "kq_refcnt (f (kqs s q)) = kq_refcnt (kqs s q) \<Longrightarrow>
   (KQ_CLOSING \<in> kq_state (f (kqs s q)) \<longleftrightarrow> KQ_CLOSING \<in> kq_state (kqs s q)) \<Longrightarrow>
   kq_env q s (kq_upd q f s)"
  by (simp add: kq_env_def)

lemma kq_env_inv: "kq_env q s s' \<Longrightarrow> q' \<noteq> q \<Longrightarrow> kq_inv (kqs s q') \<Longrightarrow> kq_inv (kqs s' q')"
  by (auto simp: kq_env_def intro: other_step_inv)

lemma kq_inv_flux_wakeup [simp]: "kq_inv (KQ_FLUX_WAKEUP kq) = kq_inv kq"
proof -
  have "index_ok {} (KQ_FLUX_WAKEUP kq) = index_ok {} kq"
    by (simp add: index_ok_def kn_klist_def)
  then show ?thesis
    by (simp add: kq_inv_def ready_ok_def fresh_ok_def calm_def)
qed

lemma marks_flux_wakeup [simp]: "marks (KQ_FLUX_WAKEUP kq) = marks kq"
  by (simp add: marks_def)

lemma kq_inv_mark:
  assumes "kq_inv kq" "filter is_QNote h = filter is_QNote (kq_head kq)" "distinct h"
  shows "kq_inv (kq\<lparr>kq_head := h\<rparr>)"
proof -
  have "QNote k \<in> set h \<longleftrightarrow> QNote k \<in> set (kq_head kq)" for k
  proof -
    have "QNote k \<in> set h \<longleftrightarrow> QNote k \<in> set (filter is_QNote h)"
      by simp
    also have "\<dots> \<longleftrightarrow> QNote k \<in> set (kq_head kq)"
      unfolding assms(2) by simp
    finally show ?thesis .
  qed
  then show ?thesis
    using assms by (auto simp: kq_inv_def queue_ok_def)
qed

section \<open>One knote of the queue\<close>

definition kev_key :: "kevent \<Rightarrow> u64 \<times> int" where
  "kev_key kev = (ke_ident kev, ke_filter kev)"

lemma kn_key_kev: "kn_key a = kn_key b \<Longrightarrow> kev_key (kn_kevent a) = kev_key (kn_kevent b)"
  by (simp add: kn_key_def kev_key_def)

definition scan_note_post :: "nat \<Rightarrow> nat \<Rightarrow> 'w kern \<Rightarrow> kevent option \<Rightarrow> 'w kern \<Rightarrow> bool" where
  "scan_note_post q k s o' s' \<longleftrightarrow>
     kq_inv (kqs s' q) \<and> notes_but k (kqs s q) (kqs s' q) \<and>
     (kq_head (kqs s' q) = kq_head (kqs s q) \<or>
      o' \<noteq> None \<and> kq_head (kqs s' q) = kq_head (kqs s q) @ [QNote k]) \<and>
     (\<forall>kev. o' = Some kev \<longrightarrow> kev_key kev = kev_key (kn_kevent (kn_of s (q, k))))"

lemma scan_note_post_finish:
  assumes "kq_hold {} k kq" "kq_notes kq k = Some kn" "kn_influx kn = 1"
    and "KN_ACTIVE \<in> kn_status kn \<Longrightarrow> KN_QUEUED \<in> kn_status kn"
  shows "kq_inv (kn_leave_flux k (kn_upd k (st_clr {KN_SCAN}) kq))"
proof -
  have "kq_hold {} k (kn_upd k (st_clr {KN_SCAN}) kq)"
    by (rule kq_hold_upd [OF assms(1)]) (auto simp: kn_key_def)
  then have "kq_hold {} k (kn_leave_flux k (kn_upd k (st_clr {KN_SCAN}) kq))"
    unfolding kn_leave_flux_def by (rule kq_hold_upd) (auto simp: kn_key_def)
  then show ?thesis
    by (rule kq_hold_inv [where k = k]) (use assms in \<open>auto simp: kn_leave_flux_def\<close>)
qed

lemma kq_popd_in_flux:
  assumes "kq_popd k kq" "kq_notes kq k = Some kn" "kn_influx kn = 0"
  shows "kq_popd k (kn_enter_flux k (kn_upd k (st_set {KN_SCAN}) kq))"
proof -
  have "kq_popd k (kn_upd k (st_set {KN_SCAN}) kq)"
    by (rule kq_popd_upd [OF assms(1)]) (auto simp: kn_key_def)
  then show ?thesis
    unfolding kn_enter_flux_def by (rule kq_popd_upd) (auto simp: kn_key_def)
qed

lemma kq_drop_start:
  assumes "kq_popd k kq" "kq_notes kq k = Some kn" "kn_influx kn = 0"
    and "kq' = (kn_enter_flux k (kn_upd k (st_clr {KN_QUEUED}) kq))\<lparr>kq_count := kq_count kq - 1\<rparr>"
  shows "kq_mid {} k kq'" "kq_head kq' = kq_head kq" "notes_but k kq kq'"
proof -
  have eq: "kq' = kn_enter_flux k ((kn_upd k (st_clr {KN_QUEUED}) kq)\<lparr>kq_count := kq_count kq - 1\<rparr>)"
    by (simp add: assms(4) kn_enter_flux_def kn_upd_def)
  have "kq_hold {} k kq'"
    unfolding eq kn_enter_flux_def
    by (rule kq_hold_upd [OF kq_popd_dequeue [OF assms(1)]]) (auto simp: kn_key_def)
  then show "kq_mid {} k kq'"
    using assms(2,3) by (auto simp: kq_mid_hold eq kn_enter_flux_def)
  show "kq_head kq' = kq_head kq" "notes_but k kq kq'"
    by (simp_all add: assms(4) kn_enter_flux_def notes_but_def)
qed

text \<open>A successful copyout appends to what the caller has received.\<close>

definition copy_log :: "'u copyops \<Rightarrow> ('u \<Rightarrow> kevent list) \<Rightarrow> bool" where
  "copy_log cops lg \<longleftrightarrow>
     (\<forall>evs u u'. k_copyout cops evs u = (0, u') \<longrightarrow> lg u' = lg u @ evs)"

text \<open>The keys of the enabled knotes of a list.\<close>

definition queue_keys :: "kqueue \<Rightarrow> nat list \<Rightarrow> (u64 \<times> int) list" where
  "queue_keys kq ks =
     map (\<lambda>k. kev_key (kn_kevent (kn_at kq k))) (filter (\<lambda>k. KN_DISABLED \<notin> kn_status (kn_at kq k)) ks)"

lemma queue_keys_but: "notes_but k a b \<Longrightarrow> k \<notin> set ks \<Longrightarrow> queue_keys b ks = queue_keys a ks"
  by (induction ks) (auto simp: queue_keys_def notes_but_def kn_at_def)

text \<open>What the loop of a scan guarantees from a queue \<open>pre\<close>, marker, \<open>post\<close>.\<close>

definition scan_post ::
    "nat \<Rightarrow> nat \<Rightarrow> ('u \<Rightarrow> kevent list) \<Rightarrow> nat list \<Rightarrow> nat list \<Rightarrow> int \<Rightarrow> kevent list \<Rightarrow> 'u \<Rightarrow> 'w kern \<Rightarrow>
     scanout \<times> int \<times> kevent list \<times> 'u \<times> 'w kern \<Rightarrow> bool" where
  "scan_post q m lg pre post count keva u s r \<longleftrightarrow>
     (case r of (out, count', keva', u', s') \<Rightarrow>
       kq_inv (kqs s' q) \<and> kq_env q s s' \<and> 0 \<le> count' \<and> count' \<le> count \<and> length keva' < KQ_NEVENTS \<and>
       (count' = count \<longrightarrow> keva' = keva \<and> u' = u) \<and>
       (out = Sc_marker \<and> (\<exists>post'. kq_head (kqs s' q) = map QNote post' \<and>
            (count' = count \<longrightarrow> post' = post)) \<or>
        (\<exists>e. out = Sc_end e \<and> (e = 0 \<longrightarrow> count' = 0) \<and> (e \<noteq> 0 \<longrightarrow> keva' = [])) \<and>
          (\<exists>pre' post'. kq_head (kqs s' q) = map QNote pre' @ QMark m # map QNote post')) \<and>
       (out = Sc_marker \<or> out = Sc_end 0 \<longrightarrow>
          (\<exists>evs. lg u' @ keva' = lg u @ keva @ evs \<and> int (length evs) = count - count' \<and>
            subseq (map kev_key evs) (queue_keys (kqs s q) pre))))"

lemma queue_keys_Cons:
  "queue_keys kq (k # ks) =
     (if KN_DISABLED \<notin> kn_status (kn_at kq k) then [kev_key (kn_kevent (kn_at kq k))] else [])
     @ queue_keys kq ks"
  by (simp add: queue_keys_def)

lemma scan_post_skip:
  assumes "scan_post q m lg ks post count keva u s2 r" "kq_env q s s2"
    and "notes_but k (kqs s q) (kqs s2 q)" "k \<notin> set ks"
  shows "scan_post q m lg (k # ks) post count keva u s r"
proof -
  obtain out c' kv' u' s' where r: "r = (out, c', kv', u', s')"
    by (metis prod_cases5)
  have "subseq xs (queue_keys (kqs s q) (k # ks))" if "subseq xs (queue_keys (kqs s2 q) ks)" for xs
    using that queue_keys_but [OF assms(3,4)] by (auto simp: queue_keys_Cons)
  moreover have "kq_env q s s'"
    using assms(1,2) by (auto simp: scan_post_def r intro: kq_env_trans)
  ultimately show ?thesis
    using assms(1) unfolding scan_post_def r prod.case by blast
qed

lemma scan_post_report:
  assumes "scan_post q m lg ks post2 (count - 1) keva2 u2 s2 r" "kq_env q s s2"
    and "notes_but k (kqs s q) (kqs s2 q)" "k \<notin> set ks"
    and "lg u2 @ keva2 = lg u @ keva @ [kev]" "kev_key kev = kev_key (kn_kevent (kn_at (kqs s q) k))"
    and "KN_DISABLED \<notin> kn_status (kn_at (kqs s q) k)"
  shows "scan_post q m lg (k # ks) post count keva u s r"
proof -
  obtain out c' kv' u' s' where r: "r = (out, c', kv', u', s')"
    by (metis prod_cases5)
  note ih = assms(1) [unfolded scan_post_def r prod.case]
  have "\<exists>evs. lg u' @ kv' = lg u @ keva @ evs \<and> int (length evs) = count - c' \<and>
      subseq (map kev_key evs) (queue_keys (kqs s q) (k # ks))"
    if h: "out = Sc_marker \<or> out = Sc_end 0"
  proof -
    obtain evs where "lg u' @ kv' = lg u2 @ keva2 @ evs" "int (length evs) = count - 1 - c'"
      "subseq (map kev_key evs) (queue_keys (kqs s2 q) ks)"
      using ih h by blast
    then show ?thesis
      using assms(5-7) queue_keys_but [OF assms(3,4)]
      by (intro exI [of _ "kev # evs"]) (auto simp: queue_keys_Cons simp flip: append_assoc)
  qed
  moreover have "kq_env q s s'"
    using ih assms(2) by (blast intro: kq_env_trans)
  moreover have "c' \<le> count" "c' \<noteq> count"
    using ih by auto
  ultimately show ?thesis
    using ih unfolding scan_post_def r prod.case by blast
qed

lemma scan_pop_disabled:
  assumes "kq_inv kq" "kq_head kq = QNote k # rest" "KN_DISABLED \<in> kn_status (kn_at kq k)"
    and "kq' = (kn_upd k (st_clr {KN_QUEUED}) (kq\<lparr>kq_head := rest\<rparr>))\<lparr>kq_count := kq_count kq - 1\<rparr>"
  shows "kq_inv kq'" "notes_but k kq kq'" "kq_head kq' = rest" "kq_refcnt kq' = kq_refcnt kq"
    and "kq_state kq' = kq_state kq"
proof -
  obtain kn where kn: "kq_notes kq k = Some kn" "kn_influx kn = 0" "KN_SCAN \<notin> kn_status kn"
    using kq_inv_popd(2) [OF assms(1,2)] by blast
  have "kq_hold {} k kq'"
    using kq_popd_dequeue [OF kq_inv_popd(1) [OF assms(1,2)], of "{KN_QUEUED}"] by (simp add: assms(4))
  then show "kq_inv kq'"
    by (rule kq_hold_inv [where k = k and kn = "st_clr {KN_QUEUED} kn"])
      (use kn assms(3) in \<open>simp_all add: assms(4)\<close>)
  show "notes_but k kq kq'" "kq_head kq' = rest" "kq_refcnt kq' = kq_refcnt kq" "kq_state kq' = kq_state kq"
    by (simp_all add: assms(4) notes_but_def)
qed

text \<open>The knotes of the queue, in order.\<close>

definition pending :: "kqueue \<Rightarrow> nat list" where
  "pending kq = concat (map (\<lambda>e. case e of QNote k \<Rightarrow> [k] | QMark _ \<Rightarrow> []) (kq_head kq))"

lemma pending_map: "kq_head kq = map QNote ks \<Longrightarrow> pending kq = ks"
  by (simp add: pending_def comp_def)

lemma head_no_marks: "marks kq = [] \<Longrightarrow> kq_head kq = map QNote (pending kq)"
proof -
  have "filter (\<lambda>e. \<not> is_QNote e) h = [] \<Longrightarrow>
      h = map QNote (concat (map (\<lambda>e. case e of QNote k \<Rightarrow> [k] | QMark _ \<Rightarrow> []) h))" for h
  proof (induction h)
    case (Cons e h)
    then show ?case by (cases e) auto
  qed simp
  then show "marks kq = [] \<Longrightarrow> kq_head kq = map QNote (pending kq)"
    by (simp add: marks_def pending_def)
qed

lemma marks_map: "kq_head kq = map QNote ks \<Longrightarrow> marks kq = []"
  by (simp add: marks_def filter_empty_conv)

lemma kq_count_map: "kq_inv kq \<Longrightarrow> kq_head kq = map QNote ks \<Longrightarrow> kq_count kq = int (length ks)"
  by (simp add: kq_inv_def queue_ok_def filter_map comp_def)

text \<open>What a scan, up to its end or its sleep, guarantees.\<close>

definition retry_post ::
    "nat \<Rightarrow> ('u \<Rightarrow> kevent list) \<Rightarrow> int \<Rightarrow> int \<Rightarrow> 'u \<Rightarrow> 'w kern \<Rightarrow>
     scanres \<times> int \<times> kevent list \<times> 'u \<times> 'w kern \<Rightarrow> bool" where
  "retry_post q lg maxevents asbt u s r \<longleftrightarrow>
     (case r of (res, count, keva, u', s') \<Rightarrow>
       kq_inv (kqs s' q) \<and> kq_env q s s' \<and> marks (kqs s' q) = [] \<and>
       0 \<le> count \<and> count \<le> maxevents \<and> res \<noteq> Scan_fault \<and>
       (\<forall>e. res = Scan_ret e \<longrightarrow> e \<noteq> 0 \<longrightarrow> keva = []) \<and>
       (res = Scan_sleep \<longrightarrow> asbt \<noteq> -1 \<and> count = maxevents \<and> keva = [] \<and> lg u' = lg u \<and>
          kq_head (kqs s' q) = []) \<and>
       (res = Scan_ret 0 \<longrightarrow>
          (\<exists>evs. lg u' @ keva = lg u @ evs \<and> int (length evs) = maxevents - count \<and>
            subseq (map kev_key evs) (queue_keys (kqs s q) (pending (kqs s q))))))"

lemma kq_inv_sleep: "kq_inv (kq\<lparr>kq_state := st\<rparr>) = kq_inv kq"
proof -
  have "index_ok {} (kq\<lparr>kq_state := st\<rparr>) = index_ok {} kq" "queue_ok (kq\<lparr>kq_state := st\<rparr>) = queue_ok kq"
    by (simp_all add: index_ok_def kn_klist_def queue_ok_def has_st_def)
  then show ?thesis
    by (simp add: kq_inv_def ready_ok_def fresh_ok_def calm_def has_st_def)
qed

lemma retry_post_env:
  assumes "retry_post q lg maxevents asbt u s2 r" "kq_env q s s2" "kq_head (kqs s2 q) = []"
  shows "retry_post q lg maxevents asbt u s r"
proof -
  obtain res c kv u' s' where r: "r = (res, c, kv, u', s')"
    by (metis prod_cases5)
  have "queue_keys (kqs s2 q) (pending (kqs s2 q)) = []"
    using assms(3) by (simp add: queue_keys_def pending_def)
  moreover have "kq_env q s s'"
    using assms(1,2) by (auto simp: retry_post_def r intro: kq_env_trans)
  ultimately show ?thesis
    using assms(1) unfolding retry_post_def r prod.case by (auto dest: list_emb_Nil2)
qed

lemma retry_empty:
  assumes "kq_inv (kqs s q)" "kq_head (kqs s q) = []" "0 < maxevents"
  shows "retry_post q lg maxevents asbt u s
    (kqueue_scan_retry (Suc n) ops cops q m maxevents asbt u s)"
proof -
  have "kq_count (kqs s q) = 0"
    using kq_count_map [OF assms(1), of "[]"] assms(2) by simp
  then show ?thesis
    using assms by (auto simp: retry_post_def kq_inv_sleep marks_def intro!: kq_env_upd)
qed

context filters
begin

lemma knote_drop_head:
  assumes "kq_mid X k (kqs s q)" "QNote k \<notin> set (kq_head (kqs s q))"
  shows "kq_head (kqs (knote_drop ops (q, k) s) q) = kq_head (kqs s q)"
proof -
  define s1 where "s1 = (if KN_DETACHED \<notin> kn_status (kn_of s (q, k))
    then f_detach (ops (kn_fop (kn_of s (q, k)))) (q, k) s else s)"
  have st: "s1 = s \<or> note_step k (kqs s q) (kqs s1 q)"
    using detach_step [of "kn_fop (kn_of s (q, k))" q k s s1] by (auto simp: s1_def)
  then have hd: "kq_head (kqs s1 q) = kq_head (kqs s q)"
    by (auto simp: note_step_def)
  have m: "kq_mid X k (kqs s1 q)"
    using st assms(1) by (auto intro: cb_step_mid note_step_cb)
  then obtain kn where "kq_notes (kqs s1 q) k = Some kn" "queue_ok (kqs s1 q)"
    by (auto simp: kq_mid_def)
  then have "kq_head (kq_drop k (kqs s1 q)) = kq_head (kqs s1 q)"
    using kq_drop_frame(9) hd assms(2) by (simp add: remove1_idem)
  then show ?thesis
    by (simp add: knote_drop_def s1_def [symmetric] knote_drop_detached_eq hd)
qed

lemma scan_drop_ok:
  assumes "kq_popd k (kqs s q)" "kq_notes (kqs s q) k = Some kn" "kn_influx kn = 0"
    and "s' = knote_drop ops (q, k) (kq_upd q (\<lambda>kq. (kn_enter_flux k (kn_upd k (st_clr {KN_QUEUED}) kq))
               \<lparr>kq_count := kq_count kq - 1\<rparr>) s)"
  shows "kq_inv (kqs s' q)" "kq_keep q s s'" "notes_but k (kqs s q) (kqs s' q)"
    and "kq_head (kqs s' q) = kq_head (kqs s q)"
proof -
  define s1 where "s1 = kq_upd q (\<lambda>kq. (kn_enter_flux k (kn_upd k (st_clr {KN_QUEUED}) kq))
               \<lparr>kq_count := kq_count kq - 1\<rparr>) s"
  have ds: "kq_mid {} k (kqs s1 q)" "kq_head (kqs s1 q) = kq_head (kqs s q)"
    "notes_but k (kqs s q) (kqs s1 q)"
    using kq_drop_start [OF assms(1-3) refl] by (simp_all add: s1_def)
  have "kq_keep q s s1"
    unfolding s1_def by (rule kq_keep_upd) (auto simp: kn_enter_flux_def)
  moreover have "QNote k \<notin> set (kq_head (kqs s1 q))"
    using assms(1) ds(2) by (auto simp: kq_popd_def kq_hold_def queue_ok_def)
  moreover have "s' = knote_drop ops (q, k) s1"
    by (simp add: assms(4) s1_def)
  ultimately show "kq_inv (kqs s' q)" "kq_keep q s s'" "notes_but k (kqs s q) (kqs s' q)"
    "kq_head (kqs s' q) = kq_head (kqs s q)"
    using knote_drop_ok [OF ds(1)] knote_drop_head [OF ds(1)] ds(2,3)
    by (auto simp: kq_alloc_empty notes_but_def intro: kq_keep_trans)
qed

lemma scan_report_ok:
  assumes "kq_popd k (kqs s q)" "kq_notes (kqs s q) k = Some kn" "kn_influx kn = 1"
    and "KN_QUEUED \<in> kn_status kn"
    and "(if touch then f_touch (ops fop) EVENT_PROCESS (q, k) (kn_kevent kn) s
          else (kn_kevent kn, s)) = (kev, s3)"
    and "s4 = (if fl (kn_flags (kn_of s3 (q, k))) (EV_CLEAR OR EV_DISPATCH) then
          let s31 = (if \<not> touch \<and> fl (kn_flags (kn_of s3 (q, k))) EV_CLEAR
                     then kq_upd q (kn_upd k (\<lambda>kn. kn\<lparr>kn_kevent :=
                            (kn_kevent kn)\<lparr>ke_data := 0, ke_fflags := 0\<rparr>\<rparr>)) s3
                     else s3);
              s32 = (if fl (kn_flags (kn_of s3 (q, k))) EV_DISPATCH
                     then kq_upd q (kn_upd k (st_set {KN_DISABLED})) s31 else s31)
          in kq_upd q (\<lambda>kq. (kn_upd k (st_clr {KN_QUEUED, KN_ACTIVE}) kq)
               \<lparr>kq_count := kq_count kq - 1\<rparr>) s32
        else kq_upd q (\<lambda>kq. kq\<lparr>kq_head := kq_head kq @ [QNote k]\<rparr>) s3)"
    and "s' = kq_upd q (\<lambda>kq. kn_leave_flux k (kn_upd k (st_clr {KN_SCAN}) kq)) s4"
  shows "kq_inv (kqs s' q) \<and> kq_keep q s s' \<and> notes_but k (kqs s q) (kqs s' q) \<and>
    kev_key kev = kev_key (kn_kevent kn) \<and>
    (kq_head (kqs s' q) = kq_head (kqs s q) \<or> kq_head (kqs s' q) = kq_head (kqs s q) @ [QNote k])"
proof -
  have st3: "kev_key kev = kev_key (kn_kevent kn)" "kern_frame s s3" "note_step k (kqs s q) (kqs s3 q)"
    "\<forall>q'. q' \<noteq> q \<longrightarrow> other_step (kqs s q') (kqs s3 q')"
    using assms(5) touch_process_step [OF assms(2), of fop kev s3] note_step_refl
    by (auto simp: kev_key_def split: if_splits)
  have p3: "kq_popd k (kqs s3 q)" "kq_head (kqs s3 q) = kq_head (kqs s q)"
    using kq_popd_step [OF st3(3) assms(1)] by auto
  have k3: "kq_keep q s s3" "notes_but k (kqs s q) (kqs s3 q)"
    using cb_keep [of s s3 k q] st3 note_step_cb by blast+
  obtain kn3 where n3: "kq_notes (kqs s3 q) k = Some kn3" "kn_influx kn3 = 1" "KN_QUEUED \<in> kn_status kn3"
    using st3(3) p3(1) assms(2,3) by (auto simp: note_step_def kq_popd_def has_st_def)
  have fl3: "kn_of s3 (q, k) = kn3"
    using n3(1) by (simp add: kn_of_def)
  show ?thesis
  proof (cases "fl (kn_flags kn3) (EV_CLEAR OR EV_DISPATCH)")
    case True
    define g where "g = (\<lambda>kn :: knote.
      (if fl (kn_flags kn3) EV_DISPATCH then st_set {KN_DISABLED} else (\<lambda>kn. kn))
      ((if \<not> touch \<and> fl (kn_flags kn3) EV_CLEAR
        then kn\<lparr>kn_kevent := (kn_kevent kn)\<lparr>ke_data := 0, ke_fflags := 0\<rparr>\<rparr> else kn)))"
    have g: "kn_key (g kn) = kn_key kn" "kn_influx (g kn) = kn_influx kn"
      "KN_QUEUED \<in> kn_status (g kn) \<longleftrightarrow> KN_QUEUED \<in> kn_status kn"
      "KN_ACTIVE \<in> kn_status (g kn) \<longleftrightarrow> KN_ACTIVE \<in> kn_status kn" for kn
      by (simp_all add: g_def kn_key_def)
    define b where "b = (kn_upd k (st_clr {KN_QUEUED, KN_ACTIVE}) (kn_upd k g (kqs s3 q)))
      \<lparr>kq_count := kq_count (kqs s3 q) - 1\<rparr>"
    have "s4 = kq_upd q (\<lambda>kq. (kn_upd k (st_clr {KN_QUEUED, KN_ACTIVE}) (kn_upd k g kq))
        \<lparr>kq_count := kq_count kq - 1\<rparr>) s3"
      using True unfolding assms(6) fl3
      by (simp add: Let_def kq_upd_def kn_upd_def g_def option.map_comp comp_def option.map_ident)
    then have s': "s' = kq_upd q (\<lambda>kq. kn_leave_flux k (kn_upd k (st_clr {KN_SCAN})
        ((kn_upd k (st_clr {KN_QUEUED, KN_ACTIVE}) (kn_upd k g kq))\<lparr>kq_count := kq_count kq - 1\<rparr>))) s3"
      by (simp add: assms(7))
    have "kq_hold {} k b"
      unfolding b_def using kq_popd_dequeue [OF kq_popd_upd [OF p3(1) g(1,3,4)], of "{KN_QUEUED, KN_ACTIVE}"]
      by simp
    then have "kq_inv (kqs s' q)"
      using scan_note_post_finish [of k b "st_clr {KN_QUEUED, KN_ACTIVE} (g kn3)"] n3 g
      by (simp add: s' b_def)
    moreover have "kq_keep q s3 s'"
      unfolding s' by (rule kq_keep_upd) (auto simp: kn_leave_flux_def)
    ultimately show ?thesis
      using k3 p3(2) st3(1)
      by (auto simp: s' notes_but_def kn_leave_flux_def intro: kq_keep_trans)
  next
    case False
    define b where "b = (kqs s3 q)\<lparr>kq_head := kq_head (kqs s3 q) @ [QNote k]\<rparr>"
    have s': "s' = kq_upd q (\<lambda>kq. kn_leave_flux k (kn_upd k (st_clr {KN_SCAN})
        (kq\<lparr>kq_head := kq_head kq @ [QNote k]\<rparr>))) s3"
      using False by (simp add: assms(6,7) fl3)
    have "kq_inv (kqs s' q)"
      using scan_note_post_finish [of k b kn3] n3 kq_popd_requeue [OF p3(1)]
      by (simp add: s' b_def)
    moreover have "kq_keep q s3 s'"
      unfolding s' by (rule kq_keep_upd) (auto simp: kn_leave_flux_def marks_def)
    ultimately show ?thesis
      using k3 p3(2) st3(1)
      by (auto simp: s' notes_but_def kn_leave_flux_def intro: kq_keep_trans)
  qed
qed

lemma scan_note_event_ok:
  assumes "kq_popd k (kqs s q)" "kq_notes (kqs s q) k = Some kn" "kn_influx kn = 0"
    and "\<not> fl (kn_flags kn) EV_DROP" "\<not> fl (kn_flags kn) EV_ONESHOT"
    and "kqueue_scan_note ops (q, k) s = (o', s')"
  shows "scan_note_post q k s o' s' \<and> kq_keep q s s'"
proof -
  have kn: "kn_of s (q, k) = kn"
    using assms(2) by (simp add: kn_of_def)
  define s1 where "s1 = kq_upd q (\<lambda>kq. kn_enter_flux k (kn_upd k (st_set {KN_SCAN}) kq)) s"
  obtain event s2 where ev: "f_event (ops (kn_fop kn)) (q, k) 0 s1 = (event, s2)"
    by fastforce
  have p1: "kq_popd k (kqs s1 q)"
    using kq_popd_in_flux [OF assms(1-3)] by (simp add: s1_def)
  have k1: "kq_keep q s s1" "notes_but k (kqs s q) (kqs s1 q)" "kq_head (kqs s1 q) = kq_head (kqs s q)"
    by (auto simp: s1_def kn_enter_flux_def notes_but_def intro!: kq_keep_upd)
  note st2 = event_step [OF ev]
  have p2: "kq_popd k (kqs s2 q)" "kq_head (kqs s2 q) = kq_head (kqs s q)"
    using kq_popd_step [OF _ p1] st2 k1(3) by auto
  have k2: "kq_keep q s s2" "notes_but k (kqs s q) (kqs s2 q)"
    using cb_keep [of s1 s2 k q] st2 k1 by (blast intro: kq_keep_trans notes_but_trans note_step_cb)+
  obtain kn2 where n2: "kq_notes (kqs s2 q) k = Some kn2" "kn_key kn2 = kn_key kn" "kn_influx kn2 = 1"
    "KN_QUEUED \<in> kn_status kn2"
  proof -
    obtain g sn where g: "kqs s2 q = (kn_upd k g (kqs s1 q))\<lparr>kq_si_note := sn\<rparr>"
      "\<And>kn. kn_key (g kn) = kn_key kn" "\<And>kn. kn_influx (g kn) = kn_influx kn"
      using st2 by (auto simp: note_step_def)
    have "kn_key (st_set {KN_SCAN} kn\<lparr>kn_influx := kn_influx kn + 1\<rparr>) = kn_key kn"
      by (simp add: kn_key_def)
    then show ?thesis
      using that p2(1) assms(2,3) g
      by (auto simp: s1_def kn_enter_flux_def kq_popd_def has_st_def)
  qed
  show ?thesis
  proof (cases event)
    case False
    have s': "o' = None" "s' = kq_upd q (\<lambda>kq. (kn_leave_flux k
        (kn_upd k (st_clr {KN_QUEUED, KN_ACTIVE, KN_SCAN}) kq))\<lparr>kq_count := kq_count kq - 1\<rparr>) s2"
      using assms(4-6) False ev by (simp_all add: kqueue_scan_note_def kn Let_def s1_def)
    define b where "b = (kn_upd k (st_clr {KN_QUEUED, KN_ACTIVE, KN_SCAN}) (kqs s2 q))
      \<lparr>kq_count := kq_count (kqs s2 q) - 1\<rparr>"
    have "kqs s' q = kn_leave_flux k b"
      by (simp add: s'(2) b_def kn_leave_flux_def kn_upd_def)
    moreover have "kq_hold {} k (kn_leave_flux k b)"
      unfolding kn_leave_flux_def b_def
      by (rule kq_hold_upd [OF kq_popd_dequeue [OF p2(1)]]) (auto simp: kn_key_def)
    then have "kq_inv (kn_leave_flux k b)"
      by (rule kq_hold_inv [where k = k and
            kn = "(st_clr {KN_QUEUED, KN_ACTIVE, KN_SCAN} kn2)\<lparr>kn_influx := 0\<rparr>"])
        (use n2 in \<open>simp_all add: kn_leave_flux_def b_def\<close>)
    moreover have "kq_keep q s2 s'"
      unfolding s'(2) by (rule kq_keep_upd) (auto simp: kn_leave_flux_def)
    ultimately show ?thesis
      using k2 p2(2) s'(1) by (auto simp: scan_note_post_def notes_but_def kn_leave_flux_def b_def
          intro: kq_keep_trans)
  next
    case True
    define fop where "fop = kn_fop kn2"
    have f2: "kn_of s2 (q, k) = kn2"
      using n2(1) by (simp add: kn_of_def)
    obtain kev s3 where tc: "(if \<not> f_isfd fop \<and> f_has_touch fop
        then f_touch (ops fop) EVENT_PROCESS (q, k) (kn_kevent kn2) s2 else (kn_kevent kn2, s2)) = (kev, s3)"
      by fastforce
    have res: "(o', s') = (Some kev,
        kq_upd q (\<lambda>kq. kn_leave_flux k (kn_upd k (st_clr {KN_SCAN}) kq))
        (if fl (kn_flags (kn_of s3 (q, k))) (EV_CLEAR OR EV_DISPATCH) then
          let s31 = (if \<not> (\<not> f_isfd fop \<and> f_has_touch fop) \<and> fl (kn_flags (kn_of s3 (q, k))) EV_CLEAR
                     then kq_upd q (kn_upd k (\<lambda>kn. kn\<lparr>kn_kevent :=
                            (kn_kevent kn)\<lparr>ke_data := 0, ke_fflags := 0\<rparr>\<rparr>)) s3
                     else s3);
              s32 = (if fl (kn_flags (kn_of s3 (q, k))) EV_DISPATCH
                     then kq_upd q (kn_upd k (st_set {KN_DISABLED})) s31 else s31)
          in kq_upd q (\<lambda>kq. (kn_upd k (st_clr {KN_QUEUED, KN_ACTIVE}) kq)
               \<lparr>kq_count := kq_count kq - 1\<rparr>) s32
        else kq_upd q (\<lambda>kq. kq\<lparr>kq_head := kq_head kq @ [QNote k]\<rparr>) s3))"
      unfolding assms(6) [symmetric]
      by (simp only: kqueue_scan_note_def Let_def fst_conv snd_conv kn assms(4,5) if_False
          s1_def [symmetric] ev prod.case True not_True_eq_False f2 fop_def [symmetric] tc)
    then have "o' = Some kev"
      by simp
    moreover have "kq_inv (kqs s' q) \<and> kq_keep q s2 s' \<and> notes_but k (kqs s2 q) (kqs s' q) \<and>
        kev_key kev = kev_key (kn_kevent kn2) \<and>
        (kq_head (kqs s' q) = kq_head (kqs s2 q) \<or> kq_head (kqs s' q) = kq_head (kqs s2 q) @ [QNote k])"
      by (rule scan_report_ok [OF p2(1) n2(1,3,4) tc refl])
        (use res in \<open>simp only: prod.inject\<close>)
    ultimately show ?thesis
      using k2 p2(2) kn_key_kev [OF n2(2)] kn
      by (auto simp: scan_note_post_def intro: kq_keep_trans notes_but_trans)
  qed
qed

lemma scan_note_ok:
  assumes "kq_popd k (kqs s q)" "kq_notes (kqs s q) k = Some kn" "kn_influx kn = 0"
    and "kqueue_scan_note ops (q, k) s = (o', s')"
  shows "scan_note_post q k s o' s' \<and> kq_keep q s s'"
proof (cases "fl (kn_flags kn) EV_DROP \<or> fl (kn_flags kn) EV_ONESHOT")
  case True
  have kn: "kn_of s (q, k) = kn"
    using assms(2) by (simp add: kn_of_def)
  have "s' = knote_drop ops (q, k) (kq_upd q (\<lambda>kq. (kn_enter_flux k (kn_upd k (st_clr {KN_QUEUED}) kq))
               \<lparr>kq_count := kq_count kq - 1\<rparr>) s)"
    "o' = None \<or> o' = Some (kn_kevent kn)"
    using assms(4) True by (auto simp: kqueue_scan_note_def kn Let_def split: if_splits)
  then show ?thesis
    using scan_drop_ok [OF assms(1-3)] kn by (auto simp: scan_note_post_def)
next
  case False
  then show ?thesis
    using scan_note_event_ok [OF assms(1-3) _ _ assms(4)] by blast
qed

lemma scan_loop_note:
  assumes "copy_log cops lg" "kq_inv (kqs s q)"
    and "kq_head (kqs s q) = QNote k # map QNote ks @ QMark m # map QNote post"
    and "kq_notes (kqs s q) k = Some kn" "kn_influx kn = 0" "KN_DISABLED \<notin> kn_status kn"
    and "0 \<le> count" "count \<noteq> 0" "length keva < KQ_NEVENTS"
    and ih: "\<And>post count influx keva u s. kq_inv (kqs s q) \<Longrightarrow>
      kq_head (kqs s q) = map QNote ks @ QMark m # map QNote post \<Longrightarrow> 0 \<le> count \<Longrightarrow>
      length keva < KQ_NEVENTS \<Longrightarrow>
      scan_post q m lg ks post count keva u s (kqueue_scan_loop fuel ops cops q m count influx keva u s)"
  shows "scan_post q m lg (k # ks) post count keva u s
           (kqueue_scan_loop (Suc fuel) ops cops q m count influx keva u s)"
proof -
  define s1 where "s1 = kq_upd q (\<lambda>kq. kq\<lparr>kq_head := map QNote ks @ QMark m # map QNote post\<rparr>) s"
  have kn1: "kn_of s1 (q, k) = kn" "kn_of s (q, k) = kn" "kn_at (kqs s q) k = kn"
    using assms(4) by (simp_all add: kn_of_def s1_def kn_at_def)
  obtain o' s2 where sn: "kqueue_scan_note ops (q, k) s1 = (o', s2)"
    by fastforce
  have p1: "kq_popd k (kqs s1 q)" "kq_notes (kqs s1 q) k = Some kn"
    using kq_inv_popd(1) [OF assms(2,3)] assms(4) by (simp_all add: s1_def)
  have post2: "scan_note_post q k s1 o' s2" "kq_keep q s1 s2"
    using scan_note_ok [OF p1 assms(5) sn] by auto
  have "kq_env q s s1"
    unfolding s1_def by (rule kq_env_upd) simp_all
  then have env2: "kq_env q s s2"
    using post2(2) by (auto dest: kq_keep_env intro: kq_env_trans)
  have nb: "notes_but k (kqs s q) (kqs s2 q)" and inv2: "kq_inv (kqs s2 q)"
    using post2(1) by (simp_all add: scan_note_post_def notes_but_def s1_def)
  have nk: "k \<notin> set ks"
    using assms(2,3) by (auto simp: kq_inv_def queue_ok_def)
  note step = kqueue_scan_loop.simps(2) [of fuel ops cops q m count influx keva u s]
  note head_simps = assms(3,6,8) kn1 sn Let_def kn_in_flux_def assms(5) s1_def [symmetric]
  show ?thesis
  proof (cases o')
    case None
    then have hd2: "kq_head (kqs s2 q) = map QNote ks @ QMark m # map QNote post"
      using post2(1) by (simp add: scan_note_post_def s1_def)
    show ?thesis
      using scan_post_skip [OF ih [OF inv2 hd2 assms(7,9)] env2 nb nk] None
      by (simp add: step head_simps)
  next
    case (Some kev)
    have "\<exists>post2. kq_head (kqs s2 q) = map QNote ks @ QMark m # map QNote post2"
      using post2(1) by (auto simp: scan_note_post_def s1_def intro: exI [of _ "post @ [k]"])
    then obtain post2 where hd2: "kq_head (kqs s2 q) = map QNote ks @ QMark m # map QNote post2"
      by blast
    have key: "kev_key kev = kev_key (kn_kevent (kn_at (kqs s q) k))"
      using post2(1) Some kn1 by (simp add: scan_note_post_def)
    have en: "KN_DISABLED \<notin> kn_status (kn_at (kqs s q) k)"
      using assms(6) kn1 by simp
    have c1: "0 \<le> count - 1"
      using assms(7,8) by simp
    show ?thesis
    proof (cases "length (keva @ [kev]) = KQ_NEVENTS")
      case False
      then have "scan_post q m lg ks post2 (count - 1) (keva @ [kev]) u s2
          (kqueue_scan_loop fuel ops cops q m (count - 1)
            (influx \<or> \<not> fl (kn_flags kn) EV_ONESHOT) (keva @ [kev]) u s2)"
        using assms(9) by (intro ih [OF inv2 hd2 c1]) auto
      then show ?thesis
        using scan_post_report [OF _ env2 nb nk _ key en, where post = post and u = u and keva = keva]
          Some False by (simp add: step head_simps)
    next
      case full: True
      obtain e u1 where co: "k_copyout cops (keva @ [kev]) u = (e, u1)"
        by fastforce
      define s3 where "s3 = kq_upd q KQ_FLUX_WAKEUP s2"
      have "kq_env q s2 s3"
        unfolding s3_def by (rule kq_env_upd) simp_all
      then have s3: "kq_inv (kqs s3 q)" "kq_head (kqs s3 q) = map QNote ks @ QMark m # map QNote post2"
        "kq_env q s s3" "notes_but k (kqs s q) (kqs s3 q)"
        using inv2 hd2 nb env2 by (auto simp: s3_def notes_but_def intro: kq_env_trans)
      show ?thesis
      proof (cases "e = 0")
        case True
        then have "lg u1 @ [] = lg u @ keva @ [kev]"
          using assms(1) co by (simp add: copy_log_def)
        then show ?thesis
          using scan_post_report [OF ih [OF s3(1,2) c1] s3(3,4) nk _ key en, where post = post]
            Some full True co by (simp add: step head_simps s3_def)
      next
        case False
        then show ?thesis
          using Some full co s3 c1
          by (auto simp: step head_simps s3_def [symmetric] scan_post_def)
      qed
    qed
  qed
qed

lemma scan_loop_ok:
  assumes "copy_log cops lg" "kq_inv (kqs s q)"
    and "kq_head (kqs s q) = map QNote pre @ QMark m # map QNote post"
    and "0 \<le> count" "length keva < KQ_NEVENTS" "length pre + 2 \<le> fuel"
  shows "scan_post q m lg pre post count keva u s
           (kqueue_scan_loop fuel ops cops q m count influx keva u s)"
  using assms(2-)
proof (induction fuel arbitrary: pre post count influx keva u s)
  case 0
  then show ?case by simp
next
  case (Suc fuel)
  show ?case
  proof (cases "count = 0")
    case True
    then show ?thesis
      using Suc.prems by (auto simp: scan_post_def)
  next
    case count: False
    show ?thesis
    proof (cases pre)
      case Nil
      have "kq_inv ((kqs s q)\<lparr>kq_head := map QNote post\<rparr>)"
        using Suc.prems(1,2) Nil
        by (intro kq_inv_mark) (auto simp: kq_inv_def queue_ok_def)
      then show ?thesis
        using Suc.prems Nil count by (auto simp: scan_post_def Let_def intro!: kq_env_upd)
    next
      case (Cons k ks)
      define rest where "rest = map QNote ks @ QMark m # map QNote post"
      have hd: "kq_head (kqs s q) = QNote k # rest"
        using Suc.prems(2) Cons by (simp add: rest_def)
      have "distinct (kq_head (kqs s q))"
        using Suc.prems(1) by (simp add: kq_inv_def queue_ok_def)
      then have nk: "k \<notin> set ks"
        by (auto simp: hd rest_def)
      obtain kn where kn: "kq_notes (kqs s q) k = Some kn" "kn_influx kn = 0"
        using kq_inv_popd(2) [OF Suc.prems(1) hd] by blast
      define s1 where "s1 = kq_upd q (\<lambda>kq. kq\<lparr>kq_head := rest\<rparr>) s"
      have kn1: "kn_of s1 (q, k) = kn" "kn_of s (q, k) = kn" "kn_at (kqs s q) k = kn"
        using kn by (simp_all add: kn_of_def s1_def kn_at_def)
      have env1: "kq_env q s s1"
        by (simp add: s1_def kq_env_upd)
      show ?thesis
      proof (cases "KN_DISABLED \<in> kn_status kn")
        case True
        define s2 where "s2 = kq_upd q (\<lambda>kq. (kn_upd k (st_clr {KN_QUEUED}) kq)\<lparr>kq_count := kq_count kq - 1\<rparr>) s1"
        note d = scan_pop_disabled [OF Suc.prems(1) hd _ refl]
        have "kqs s2 q = (kn_upd k (st_clr {KN_QUEUED}) ((kqs s q)\<lparr>kq_head := rest\<rparr>))\<lparr>kq_count := kq_count (kqs s q) - 1\<rparr>"
          by (simp add: s2_def s1_def)
        then have d2: "kq_inv (kqs s2 q)" "notes_but k (kqs s q) (kqs s2 q)" "kq_head (kqs s2 q) = rest"
          using d True kn1 by simp_all
        have "kq_env q s1 s2"
          unfolding s2_def by (rule kq_env_upd) simp_all
        then have env2: "kq_env q s s2"
          using env1 by (rule kq_env_trans [rotated])
        have "kqueue_scan_loop (Suc fuel) ops cops q m count influx keva u s =
            kqueue_scan_loop fuel ops cops q m count influx keva u s2"
          using count hd True kn kn1 by (simp add: Let_def kn_in_flux_def s1_def [symmetric] s2_def)
        moreover have "scan_post q m lg ks post count keva u s2
            (kqueue_scan_loop fuel ops cops q m count influx keva u s2)"
          using Suc.prems d2 Cons by (intro Suc.IH) (auto simp: rest_def)
        ultimately show ?thesis
          using scan_post_skip [OF _ env2 d2(2) nk] Cons by simp
      next
        case False
        show ?thesis
          unfolding Cons
          by (rule scan_loop_note [OF assms(1) Suc.prems(1) hd [unfolded rest_def] kn False _ _ Suc.prems(4)])
            (use Suc.prems count Cons in \<open>auto intro: Suc.IH\<close>)
      qed
    qed
  qed
qed

lemma retry_ok:
  assumes "copy_log cops lg" "kq_inv (kqs s q)" "marks (kqs s q) = []" "0 < maxevents"
  shows "retry_post q lg maxevents asbt u s (kqueue_scan_retry 2 ops cops q m maxevents asbt u s)"
proof (cases "kq_head (kqs s q) = []")
  case True
  then show ?thesis
    using retry_empty [OF assms(2) True assms(4), where n = 1] by (simp only: Suc_1)
next
  case ne: False
  define ks where "ks = pending (kqs s q)"
  have hd: "kq_head (kqs s q) = map QNote ks"
    using head_no_marks [OF assms(3)] by (simp only: ks_def)
  define s1 where "s1 = kq_upd q (\<lambda>kq. kq\<lparr>kq_head := kq_head kq @ [QMark m]\<rparr>) s"
  have "distinct (kq_head (kqs s q))"
    using assms(2) by (simp add: kq_inv_def queue_ok_def)
  then have inv1: "kq_inv (kqs s1 q)"
    using kq_inv_mark [OF assms(2), of "kq_head (kqs s q) @ [QMark m]"] hd by (auto simp: s1_def)
  have hd1: "kq_head (kqs s1 q) = map QNote ks @ QMark m # map QNote []"
    by (simp add: s1_def hd)
  have keys: "queue_keys (kqs s1 q) ks = queue_keys (kqs s q) ks"
    by (simp add: s1_def queue_keys_def kn_at_def)
  have env1: "kq_env q s s1"
    unfolding s1_def by (rule kq_env_upd) simp_all
  have cnt: "kq_count (kqs s q) \<noteq> 0"
    using kq_count_map [OF assms(2) hd] hd ne by simp
  obtain out count keva u1 s2 where lp: "kqueue_scan_loop (length (kq_head (kqs s1 q)) + 1) ops cops q m
      maxevents False [] u s1 = (out, count, keva, u1, s2)"
    by (metis prod_cases5)
  have "scan_post q m lg ks [] maxevents [] u s1 (out, count, keva, u1, s2)"
    unfolding lp [symmetric] by (rule scan_loop_ok [OF assms(1) inv1 hd1]) (use assms(4) hd1 in auto)
  note sp = this [unfolded scan_post_def prod.case keys]
  have env2: "kq_env q s s2"
    using sp env1 by (blast intro: kq_env_trans)
  have unf: "kqueue_scan_retry 2 ops cops q m maxevents asbt u s =
      (case (out, count, keva, u1, s2) of
          (Sc_marker, count, keva, u1, s2) \<Rightarrow>
            if count = maxevents then kqueue_scan_retry 1 ops cops q m maxevents asbt u1 s2
            else (Scan_ret 0, count, keva, u1, kq_upd q KQ_FLUX_WAKEUP s2)
        | (Sc_end e, count, keva, u1, s2) \<Rightarrow>
            (Scan_ret e, count, keva, u1,
             kq_upd q (\<lambda>kq. KQ_FLUX_WAKEUP (kq\<lparr>kq_head := remove1 (QMark m) (kq_head kq)\<rparr>)) s2)
        | (Sc_sleep, count, keva, u1, s2) \<Rightarrow> (Scan_sleep, count, keva, u1, s2)
        | (_, count, keva, u1, s2) \<Rightarrow> (Scan_fault, count, keva, u1, s2))"
    using kqueue_scan_retry.simps(2) [of 1 ops cops q m maxevents asbt u s]
    by (simp only: Suc_1 Let_def cnt if_False s1_def [symmetric] lp)
  consider (again) "out = Sc_marker" "count = maxevents" | (fin) "out = Sc_marker" "count \<noteq> maxevents"
    | (stop) e where "out = Sc_end e"
    using sp by blast
  then show ?thesis
  proof cases
    case again
    then have s2: "kq_head (kqs s2 q) = []" "u1 = u" "kq_inv (kqs s2 q)"
      using sp by auto
    have "retry_post q lg maxevents asbt u s2 (kqueue_scan_retry 1 ops cops q m maxevents asbt u s2)"
      unfolding One_nat_def by (rule retry_empty [OF s2(3,1) assms(4)])
    then have "retry_post q lg maxevents asbt u s (kqueue_scan_retry 1 ops cops q m maxevents asbt u s2)"
      by (rule retry_post_env [OF _ env2 s2(1)])
    then show ?thesis
      using again s2(2) by (simp add: unf)
  next
    case fin
    moreover have "kq_env q s (kq_upd q KQ_FLUX_WAKEUP s2)"
      by (rule kq_env_trans [OF env2 kq_env_upd]) simp_all
    ultimately show ?thesis
      using sp by (auto simp: unf retry_post_def ks_def intro: marks_map)
  next
    case stop
    moreover have "kq_env q s (kq_upd q (\<lambda>kq. KQ_FLUX_WAKEUP (kq\<lparr>kq_head := remove1 (QMark m) (kq_head kq)\<rparr>)) s2)"
      by (rule kq_env_trans [OF env2 kq_env_upd]) simp_all
    moreover obtain a b where ab: "kq_head (kqs s2 q) = map QNote a @ QMark m # map QNote b"
      using sp stop by auto
    have "distinct (kq_head (kqs s2 q))"
      using sp by (auto simp: kq_inv_def queue_ok_def)
    then have "kq_inv ((kqs s2 q)\<lparr>kq_head := remove1 (QMark m) (kq_head (kqs s2 q))\<rparr>)"
      using sp ab by (intro kq_inv_mark) (auto simp: filter_remove1 remove1_append)
    moreover have "remove1 (QMark m) (kq_head (kqs s2 q)) = map QNote (a @ b)"
      unfolding ab by (simp add: remove1_append image_iff)
    then have "marks ((kqs s2 q)\<lparr>kq_head := remove1 (QMark m) (kq_head (kqs s2 q))\<rparr>) = []"
      by (intro marks_map [where ks = "a @ b"]) simp
    ultimately show ?thesis
      using sp by (auto simp: unf retry_post_def ks_def marks_def)
  qed
qed

lemma kq_env_retval: "kq_env q s (s'\<lparr>k_retval := n\<rparr>) = kq_env q s s'"
  by (simp add: kq_env_def)

lemma scan_ok:
  assumes "copy_log cops lg" "kq_inv (kqs s q)" "marks (kqs s q) = []" "0 \<le> maxevents"
    and "kqueue_scan ops cops clk td q maxevents tsp u s = (r, u', s')"
  shows "kq_inv (kqs s' q) \<and> marks (kqs s' q) = [] \<and> kq_env q s s' \<and> r \<noteq> Scan_fault \<and>
    (r = Scan_sleep \<longrightarrow> tsp \<noteq> Some (0, 0) \<and> lg u' = lg u \<and> kq_head (kqs s' q) = []) \<and>
    (r = Scan_ret 0 \<longrightarrow> (\<exists>evs. lg u' = lg u @ evs \<and> k_retval s' = int (length evs) \<and>
       int (length evs) \<le> maxevents \<and>
       subseq (map kev_key evs) (queue_keys (kqs s q) (pending (kqs s q)))))"
proof (cases "maxevents = 0 \<or> (\<exists>e. kqueue_scan_deadline clk tsp = Inl e)")
  case True
  moreover have "e \<noteq> 0" if "kqueue_scan_deadline clk tsp = Inl e" for e
    using that by (auto simp: kqueue_scan_deadline_def Let_def split: option.splits if_splits)
  ultimately have "r \<noteq> Scan_sleep" "r \<noteq> Scan_fault" "u' = u" "s' = s\<lparr>k_retval := 0\<rparr>"
    using assms(5) by (auto simp: kqueue_scan_def split: if_splits)
  then show ?thesis
    using assms(2,3,4) by (auto simp: kq_env_retval intro: exI [of _ "[]"])
next
  case False
  then obtain asbt rsbt where dl: "kqueue_scan_deadline clk tsp = Inr (asbt, rsbt)"
    by (cases "kqueue_scan_deadline clk tsp") auto
  obtain res count keva u1 s1 where rt:
    "kqueue_scan_retry 2 ops cops q td maxevents asbt u s = (res, count, keva, u1, s1)"
    by (metis prod_cases5)
  have z: "asbt = -1" if "tsp = Some (0, 0)"
    using dl that by (simp add: kqueue_scan_deadline_def)
  have "retry_post q lg maxevents asbt u s (res, count, keva, u1, s1)"
    unfolding rt [symmetric] using assms False by (intro retry_ok) auto
  note rp = this [unfolded retry_post_def prod.case]
  have unf: "(r, u', s') = (case res of
      Scan_ret e \<Rightarrow>
        let (e1, u2) = (if keva \<noteq> [] then k_copyout cops keva u1 else (e, u1))
        in (Scan_ret e1, u2, s1\<lparr>k_retval := maxevents - count\<rparr>)
    | _ \<Rightarrow> (res, u1, s1))"
    using False unfolding assms(5) [symmetric] kqueue_scan_def dl rt
    by (cases res) (simp_all add: rt)
  show ?thesis
  proof (cases res)
    case (Scan_ret e)
    have s': "s' = s1\<lparr>k_retval := maxevents - count\<rparr>" "r \<noteq> Scan_sleep" "r \<noteq> Scan_fault"
      using unf Scan_ret by (auto split: prod.splits)
    have "\<exists>evs. lg u' = lg u @ evs \<and> int (length evs) = maxevents - count \<and>
        subseq (map kev_key evs) (queue_keys (kqs s q) (pending (kqs s q)))" if r: "r = Scan_ret 0"
    proof (cases "keva = []")
      case True
      then show ?thesis
        using rp unf Scan_ret r by auto
    next
      case False
      then have "e = 0"
        using rp Scan_ret by blast
      moreover have "lg u' = lg u1 @ keva"
        using False unf Scan_ret r assms(1) by (auto simp: copy_log_def split: prod.splits)
      ultimately show ?thesis
        using rp Scan_ret by auto
    qed
    then show ?thesis
      using rp s' by (auto simp: kq_env_retval)
  next
    case Scan_sleep
    then show ?thesis
      using rp unf z by auto
  qed (use rp in simp)
qed

end

end
