(* ===== verification/Kqueue_Life.thy ===== *)
theory Kqueue_Life
  imports Kqueue_Scan
begin

text \<open>
  Activation of the knotes of an object, the \<open>kevent\<close> call and the removal of knotes: all
  keep the invariant; an activated knote that is enabled is queued; closing a descriptor
  leaves no knote for it in any kqueue, and draining a kqueue leaves none at all.
\<close>

section \<open>Tables after a drop\<close>

lemma kq_drop_lists:
  assumes "index_ok X kq" "kq_notes kq k = Some kn" "k \<notin> X"
  shows "kq_knlist (kq_drop k kq) = (\<lambda>i. remove1 k (kq_knlist kq i))"
    and "kq_knhash (kq_drop k kq) = (\<lambda>i. remove1 k (kq_knhash kq i))"
proof -
  have ne: "kn_klist kq kn \<noteq> []"
    using index_ok_note [OF assms] by auto
  have fd: "k \<notin> set (kq_knlist kq i)" if "\<not> f_isfd (kn_fop kn) \<or> i \<noteq> unat (kn_id kn)" for i
    using index_ok_fd [OF assms(1), of k i] assms(2) that by auto
  have nfd: "k \<notin> set (kq_knhash kq i)"
    if "f_isfd (kn_fop kn) \<or> i \<noteq> KN_HASH (kn_id kn) (kq_knhashmask kq)" for i
    using index_ok_nfd [OF assms(1), of k i] assms(2) that by auto
  have 1: "kq_knlist (kn_klist_upd kn (remove1 k) kq) = (\<lambda>i. remove1 k (kq_knlist kq i))"
    using fd by (auto simp: kn_klist_upd_def Let_def remove1_idem)
  have 2: "kq_knhash (kn_klist_upd kn (remove1 k) kq) = (\<lambda>i. remove1 k (kq_knhash kq i))"
    using nfd by (auto simp: kn_klist_upd_def Let_def remove1_idem)
  show "kq_knlist (kq_drop k kq) = (\<lambda>i. remove1 k (kq_knlist kq i))"
    "kq_knhash (kq_drop k kq) = (\<lambda>i. remove1 k (kq_knhash kq i))"
    using assms(2) ne 1 2 by (auto simp: kq_drop_def knote_free_def knote_unlink_def Let_def)
qed

lemma hold_activate_inv:
  assumes "kq_hold {} k kq" "kq_notes kq k = Some kn" "kn_influx kn = 0" "KN_SCAN \<notin> kn_status kn"
  shows "kq_inv (KNOTE_ACTIVATE k kq)"
  by (rule kq_hold_inv [OF kq_hold_activate [OF assms(1)], where kn =
        "st_set (if KN_DISABLED \<in> kn_status kn then {KN_ACTIVE} else {KN_ACTIVE, KN_QUEUED}) kn"])
    (use assms in \<open>auto simp: kq_notes_activate [OF assms(2)]\<close>)

definition kn_gone :: "(knote \<Rightarrow> bool) \<Rightarrow> kqueue \<Rightarrow> bool" where
  "kn_gone P kq \<longleftrightarrow> (\<forall>k kn. kq_notes kq k = Some kn \<longrightarrow> \<not> P kn)"

text \<open>The knotes left after some were dropped.\<close>

definition notes_sub :: "kqueue \<Rightarrow> kqueue \<Rightarrow> bool" where
  "notes_sub a b \<longleftrightarrow> (\<forall>k. kq_notes b k = kq_notes a k \<or> kq_notes b k = None)"

lemma notes_sub_refl [simp]: "notes_sub a a"
  by (simp add: notes_sub_def)

lemma notes_sub_trans: "notes_sub a b \<Longrightarrow> notes_sub b c \<Longrightarrow> notes_sub a c"
  unfolding notes_sub_def by metis

lemma notes_sub_gone: "notes_sub a b \<Longrightarrow> kn_gone P a \<Longrightarrow> kn_gone P b"
  unfolding notes_sub_def kn_gone_def by (metis option.distinct(1))

text \<open>All kqueues are in order, and a list of knote pointers points to live knotes.\<close>

definition kern_inv :: "'w kern \<Rightarrow> bool" where
  "kern_inv s \<longleftrightarrow> (\<forall>q. kq_inv (kqs s q))"

definition live :: "'w kern \<Rightarrow> nat \<times> nat \<Rightarrow> bool" where
  "live s p \<longleftrightarrow> kq_notes (kqs s (fst p)) (snd p) \<noteq> None"

lemma kern_invI: "kq_inv (kqs s' q) \<Longrightarrow> kq_env q s s' \<Longrightarrow> kern_inv s \<Longrightarrow> kern_inv s'"
  unfolding kern_inv_def by (metis kq_env_inv)

lemma live_keep:
  assumes "kq_keep q s s'" "notes_but k (kqs s q) (kqs s' q)" "kq_notes (kqs s' q) k \<noteq> None"
    and "live s p"
  shows "live s' p"
proof (cases "fst p = q")
  case True
  then show ?thesis
    using assms by (cases "snd p = k") (auto simp: live_def notes_but_def)
next
  case False
  then have "other_step (kqs s (fst p)) (kqs s' (fst p))"
    using assms(1) by (simp add: kq_keep_def)
  then show ?thesis
    using assms(4) by (auto simp: live_def other_step_def)
qed

lemma fd_bucket_gone:
  assumes "kq_inv kq" "fd_bucket fd kq = []"
  shows "kn_gone (\<lambda>kn. f_isfd (kn_fop kn) \<and> unat (kn_id kn) = fd) kq"
  unfolding kn_gone_def
proof (intro allI impI notI)
  fix k kn
  assume h: "kq_notes kq k = Some kn" "f_isfd (kn_fop kn) \<and> unat (kn_id kn) = fd"
  have ix: "index_ok {} kq"
    using assms(1) by (simp add: kq_inv_def)
  have "k \<in> set (kq_knlist kq fd)"
    using index_ok_note [OF ix h(1)] h(2) by (simp add: kn_klist_def)
  then show False
    using index_ok_fd [OF ix, of k fd] assms(2) by (simp add: fd_bucket_def)
qed

lemma fd_bucket_id:
  assumes "kq_inv kq" "k \<in> set (fd_bucket fd kq)"
  shows "\<exists>kn. kq_notes kq k = Some kn \<and> f_isfd (kn_fop kn) \<and> unat (kn_id kn) = fd"
  using assms index_ok_fd [of "{}" kq k fd] by (auto simp: fd_bucket_def kq_inv_def split: if_splits)

text \<open>Knotes are only removed, and only those of one descriptor.\<close>

definition fd_removed :: "nat \<Rightarrow> kqueue \<Rightarrow> kqueue \<Rightarrow> bool" where
  "fd_removed fd a b \<longleftrightarrow>
     (\<forall>k. kq_notes b k = kq_notes a k \<or>
        kq_notes b k = None \<and>
        (\<exists>kn. kq_notes a k = Some kn \<and> f_isfd (kn_fop kn) \<and> unat (kn_id kn) = fd))"

lemma fd_removed_refl [simp]: "fd_removed fd a a"
  by (simp add: fd_removed_def)

lemma fd_removed_trans: "fd_removed fd a b \<Longrightarrow> fd_removed fd b c \<Longrightarrow> fd_removed fd a c"
  unfolding fd_removed_def by metis

lemma fd_removed_other: "other_step a b \<Longrightarrow> fd_removed fd a b"
  by (auto simp: other_step_def fd_removed_def)

lemma fd_removed_gone: "fd_removed fd a b \<Longrightarrow> kn_gone P a \<Longrightarrow> kn_gone P b"
  unfolding fd_removed_def kn_gone_def by (metis option.distinct(1))

text \<open>The bucket a knote is kept in.\<close>

definition kn_bucket :: "u64 \<Rightarrow> knote \<Rightarrow> kqueue \<Rightarrow> nat list" where
  "kn_bucket msk kn =
     (if f_isfd (kn_fop kn) then (\<lambda>kq. kq_knlist kq (unat (kn_id kn)))
      else (\<lambda>kq. kq_knhash kq (KN_HASH (kn_id kn) msk)))"

lemma kn_bucket_klist: "kn_bucket (kq_knhashmask kq) kn kq = kn_klist kq kn"
  by (simp add: kn_bucket_def kn_klist_def)

lemma KN_HASH_le: "KN_HASH i msk \<le> unat msk"
  unfolding KN_HASH_def by (meson word_and_le1 word_le_nat_alt)

lemma kn_bucket_mem:
  assumes "kq_inv kq" "kq_notes kq k = Some kn"
  shows "kn_bucket (kq_knhashmask kq) kn \<in> set (kqueue_buckets kq)"
proof -
  have ix: "index_ok {} kq"
    using assms(1) by (simp add: kq_inv_def)
  have k: "k \<in> set (kn_klist kq kn)"
    using index_ok_note [OF ix assms(2)] by simp
  show ?thesis
  proof (cases "f_isfd (kn_fop kn)")
    case True
    then have "unat (kn_id kn) < kq_knlistsize kq"
      using k index_ok_fd [OF ix] by (auto simp: kn_klist_def)
    then show ?thesis
      using True by (auto simp: kn_bucket_def kqueue_buckets_def)
  next
    case False
    then have "kq_knhashmask kq \<noteq> 0"
      using k index_ok_nfd [OF ix] by (auto simp: kn_klist_def)
    then show ?thesis
      using False KN_HASH_le [of "kn_id kn" "kq_knhashmask kq"]
      by (auto simp: kn_bucket_def kqueue_buckets_def intro!: image_eqI [of _ _ "KN_HASH (kn_id kn) (kq_knhashmask kq)"])
  qed
qed

context filters
begin

lemma knote_one_ok:
  assumes "kq_inv (kqs s q)" "kq_notes (kqs s q) k = Some kn"
  shows "kq_inv (kqs (knote_one ops h nl (q, k) s) q) \<and> kq_keep q s (knote_one ops h nl (q, k) s) \<and>
    notes_but k (kqs s q) (kqs (knote_one ops h nl (q, k) s) q) \<and>
    kq_notes (kqs (knote_one ops h nl (q, k) s) q) k \<noteq> None"
proof -
  have kn0: "kn_of s (q, k) = kn" "kn_influx kn = 0" "KN_SCAN \<notin> kn_status kn"
    using assms by (auto simp: kn_of_def kq_inv_def calm_def)
  define s0 where "s0 = (if nl then kq_upd q (kn_enter_flux k) s else s)"
  obtain event s1 where ev: "f_event (ops (kn_fop kn)) (q, k) h s0 = (event, s1)"
    by fastforce
  define s2 where "s2 = (if nl then kq_upd q (kn_leave_flux k) s1 else s1)"
  define s3 where "s3 = (if event then kq_upd q (KNOTE_ACTIVATE k) s2 else s2)"
  have res: "knote_one ops h nl (q, k) s = (if nl then kq_upd q KQ_FLUX_WAKEUP s3 else s3)"
    using ev kn0 by (auto simp: knote_one_def Let_def kn_in_flux_def s0_def s2_def s3_def)
  note st = event_step [OF ev]
  obtain g sn where g: "kqs s1 q = (kn_upd k g (kqs s0 q))\<lparr>kq_si_note := sn\<rparr>"
    "\<And>kn. kn_key (g kn) = kn_key kn" "\<And>kn. st_core (g kn) = st_core kn"
    "\<And>kn. kn_influx (g kn) = kn_influx kn"
    using st by (auto simp: note_step_def)
  define g2 where "g2 = (\<lambda>kn. if nl then (g (kn\<lparr>kn_influx := kn_influx kn + 1\<rparr>))\<lparr>kn_influx := kn_influx kn\<rparr> else g kn)"
  have k2: "kqs s2 q = (kn_upd k g2 (kqs s q))\<lparr>kq_si_note := sn\<rparr>"
    using g(1,4) by (simp add: s2_def s0_def g2_def kn_enter_flux_def kn_leave_flux_def kn_upd_def
        option.map_comp comp_def)
  have g2: "kn_key (g2 kn) = kn_key kn" "st_core (g2 kn) = st_core kn" "kn_influx (g2 kn) = kn_influx kn" for kn
    using g(2-4) by (auto simp: g2_def kn_key_def st_core_def)
  have n2: "kq_notes (kqs s2 q) k = Some (g2 kn)"
    using assms(2) by (simp add: k2)
  have st2: "f \<in> kn_status (g2 kn) \<longleftrightarrow> f \<in> kn_status kn"
    if "f \<in> {KN_ACTIVE, KN_QUEUED, KN_DISABLED, KN_MARKER, KN_SCAN}" for f kn
    using st_core_has [OF g2(2) that] .
  have hold: "kq_hold {} k (kqs s2 q)"
  proof -
    have "kq_hold {} k (kn_upd k g2 (kqs s q))"
      by (rule kq_hold_upd [OF kq_alloc_hold]) (use assms g2 st2 in \<open>auto simp: kq_alloc_empty\<close>)
    then show ?thesis
      by (simp add: k2 kq_hold_def)
  qed
  have "kq_inv (kqs s2 q)"
    by (rule kq_hold_inv [OF hold n2])
      (use assms g2 st2 kn0 in \<open>auto simp: kq_inv_def ready_ok_def has_st_def\<close>)
  then have "kq_inv (kqs s3 q)"
    using hold_activate_inv [OF hold n2] g2 st2 kn0 by (auto simp: s3_def)
  moreover have "kq_keep q s s0"
    by (auto simp: s0_def kn_enter_flux_def intro!: kq_keep_upd)
  then have "kq_keep q s s2"
    using st cb_keep(1) [of s0 s1 k q] note_step_cb
    by (auto simp: s2_def kn_leave_flux_def intro!: kq_keep_upd intro: kq_keep_trans)
  then have "kq_keep q s s3"
    by (auto simp: s3_def intro!: kq_keep_upd intro: kq_keep_trans)
  moreover have "notes_but k (kqs s q) (kqs s3 q)" "kq_notes (kqs s3 q) k \<noteq> None"
    using n2 kq_notes_activate [OF n2] by (auto simp: s3_def notes_but_def) (simp_all add: k2)
  moreover have "kq_keep q s3 (kq_upd q KQ_FLUX_WAKEUP s3)"
    by (rule kq_keep_upd) simp_all
  ultimately show ?thesis
    unfolding res by (auto simp: notes_but_def intro: kq_keep_trans)
qed

lemma knote_fold_ok:
  assumes "kern_inv s" "\<forall>p \<in> set ps. live s p"
  shows "kern_inv (fold (knote_one ops h nl) ps s)"
  using assms
proof (induction ps arbitrary: s)
  case (Cons p ps)
  obtain q k where p: "p = (q, k)" by fastforce
  obtain kn where kn: "kq_notes (kqs s q) k = Some kn"
    using Cons.prems(2) by (auto simp: live_def p)
  define s1 where "s1 = knote_one ops h nl p s"
  have "kq_inv (kqs s q)"
    using Cons.prems(1) by (simp add: kern_inv_def)
  note one = knote_one_ok [OF this kn, of h nl, folded p, folded s1_def]
  have "kern_inv s1"
    using one Cons.prems(1) by (auto dest: kq_keep_env intro: kern_invI)
  moreover have "\<forall>p \<in> set ps. live s1 p"
    using one Cons.prems(2) by (auto intro: live_keep)
  ultimately show ?case
    using Cons.IH [of s1] by (simp add: s1_def)
qed simp

lemma knote_list_ok:
  "kern_inv s \<Longrightarrow> \<forall>p \<in> set (knl_get l s). live s p \<Longrightarrow> kern_inv (knote_list ops l h nl s)"
  by (simp add: knote_list_def knote_fold_ok)

lemma drop_first_ok:
  assumes "kq_inv (kqs s q)" "kq_notes (kqs s q) k = Some kn"
    and "s' = knote_drop ops (q, k) (kq_upd q (kn_enter_flux k) s)"
  shows "kq_inv (kqs s' q)" "kq_keep q s s'" "kq_notes (kqs s' q) = (kq_notes (kqs s q))(k := None)"
    and "kq_knlist (kqs s' q) = (\<lambda>i. remove1 k (kq_knlist (kqs s q) i))"
    and "kq_knhash (kqs s' q) = (\<lambda>i. remove1 k (kq_knhash (kqs s q) i))"
    and "kq_knlistsize (kqs s' q) = kq_knlistsize (kqs s q)"
    and "kq_knhashmask (kqs s' q) = kq_knhashmask (kqs s q)"
proof -
  define s1 where "s1 = kq_upd q (kn_enter_flux k) s"
  have "kq_hold {} k (kqs s1 q)"
    using kq_alloc_hold [of "{}" "kqs s q" k] assms(1,2)
    by (auto simp: s1_def kn_enter_flux_def kn_key_def kq_alloc_empty intro!: kq_hold_upd)
  then have m: "kq_mid {} k (kqs s1 q)"
    using assms(1,2) by (auto simp: s1_def kq_mid_hold kn_enter_flux_def kq_inv_def calm_def)
  define s2 where "s2 = (if KN_DETACHED \<notin> kn_status (kn_of s1 (q, k))
    then f_detach (ops (kn_fop (kn_of s1 (q, k)))) (q, k) s1 else s1)"
  have st: "cb_step k (kqs s1 q) (kqs s2 q)"
    using detach_step [of "kn_fop (kn_of s1 (q, k))" q k s1 s2]
    by (auto simp: s2_def intro: note_step_cb cb_step_refl)
  have m2: "kq_mid {} k (kqs s2 q)"
    using cb_step_mid [OF st m] .
  then obtain kn2 where kn2: "kq_notes (kqs s2 q) k = Some kn2" "index_ok {} (kqs s2 q)" "queue_ok (kqs s2 q)"
    by (auto simp: kq_mid_def)
  have s': "kqs s' q = kq_drop k (kqs s2 q)" "s' = knote_drop ops (q, k) s1"
    by (simp_all add: assms(3) s1_def [symmetric] knote_drop_def s2_def [symmetric] knote_drop_detached_eq)
  have "kq_keep q s s1"
    unfolding s1_def by (rule kq_keep_upd) (auto simp: kn_enter_flux_def)
  then show "kq_inv (kqs s' q)" "kq_keep q s s'" "kq_notes (kqs s' q) = (kq_notes (kqs s q))(k := None)"
    using knote_drop_ok [OF m] by (auto simp: s'(2) kq_alloc_empty s1_def kn_enter_flux_def intro: kq_keep_trans)
  have t: "kq_knlist (kqs s2 q) = kq_knlist (kqs s q)" "kq_knhash (kqs s2 q) = kq_knhash (kqs s q)"
    "kq_knlistsize (kqs s2 q) = kq_knlistsize (kqs s q)" "kq_knhashmask (kqs s2 q) = kq_knhashmask (kqs s q)"
    using st by (auto simp: cb_step_def s1_def kn_enter_flux_def)
  then show "kq_knlist (kqs s' q) = (\<lambda>i. remove1 k (kq_knlist (kqs s q) i))"
    "kq_knhash (kqs s' q) = (\<lambda>i. remove1 k (kq_knhash (kqs s q) i))"
    "kq_knlistsize (kqs s' q) = kq_knlistsize (kqs s q)"
    "kq_knhashmask (kqs s' q) = kq_knhashmask (kqs s q)"
    using kq_drop_lists [OF kn2(2,1)] kq_drop_frame(6,7) [OF kn2(3,1)] by (simp_all add: s'(1))
qed

text \<open>The lists that \<open>kqueue_drop_bucket\<close> is used on.\<close>

lemma drop_bucket_ok:
  assumes "kq_inv (kqs s q)" "length (b (kqs s q)) \<le> n"
    and "b = fd_bucket i \<or> b = (\<lambda>kq. kq_knlist kq i) \<or> b = (\<lambda>kq. kq_knhash kq i)"
    and "kqueue_drop_bucket n ops q b s = (r, s')"
  shows "r = Drop_done \<and> kq_inv (kqs s' q) \<and> kq_keep q s s' \<and> b (kqs s' q) = [] \<and>
    notes_sub (kqs s q) (kqs s' q) \<and>
    (\<forall>k. k \<notin> set (b (kqs s q)) \<longrightarrow> kq_notes (kqs s' q) k = kq_notes (kqs s q) k) \<and>
    kq_knlistsize (kqs s' q) = kq_knlistsize (kqs s q) \<and>
    kq_knhashmask (kqs s' q) = kq_knhashmask (kqs s q)"
  using assms(1,2,4)
proof (induction n arbitrary: s)
  case 0
  then show ?case
    by (simp add: kqueue_drop_bucket.simps)
next
  case (Suc n)
  show ?case
  proof (cases "b (kqs s q)")
    case Nil
    then show ?thesis
      using Suc.prems by (simp add: kqueue_drop_bucket.simps)
  next
    case (Cons k ks)
    then have "k \<in> set (b (kqs s q))" by simp
    then obtain kn where kn: "kq_notes (kqs s q) k = Some kn"
      using assms(3) Suc.prems(1) index_ok_fd [of "{}" "kqs s q" k i] index_ok_nfd [of "{}" "kqs s q" k i]
      by (auto simp: kq_inv_def fd_bucket_def split: if_splits)
    have nf: "\<not> kn_in_flux (kn_of s (q, k))"
      using Suc.prems(1) kn by (auto simp: kn_in_flux_def kn_of_def kq_inv_def calm_def)
    define s1 where "s1 = knote_drop ops (q, k) (kq_upd q (kn_enter_flux k) s)"
    note d = drop_first_ok [OF Suc.prems(1) kn s1_def]
    have b1: "b (kqs s1 q) = ks"
      using assms(3) Cons by (auto simp: d fd_bucket_def split: if_splits)
    have "kqueue_drop_bucket n ops q b s1 = (r, s')"
      using Suc.prems(3) nf Cons
      by (simp add: kqueue_drop_bucket.simps [of "Suc n"] s1_def)
    then have ih: "r = Drop_done \<and> kq_inv (kqs s' q) \<and> kq_keep q s1 s' \<and> b (kqs s' q) = [] \<and>
      notes_sub (kqs s1 q) (kqs s' q) \<and>
      (\<forall>k. k \<notin> set (b (kqs s1 q)) \<longrightarrow> kq_notes (kqs s' q) k = kq_notes (kqs s1 q) k) \<and>
      kq_knlistsize (kqs s' q) = kq_knlistsize (kqs s1 q) \<and>
      kq_knhashmask (kqs s' q) = kq_knhashmask (kqs s1 q)"
      using Suc.prems(2) Cons by (intro Suc.IH) (auto simp: d b1)
    have "notes_sub (kqs s q) (kqs s1 q)"
      by (simp add: notes_sub_def d)
    then show ?thesis
      using ih d Cons b1 by (auto intro: kq_keep_trans notes_sub_trans)
  qed
qed

lemma fdclose_from_ok:
  assumes "kern_inv s" "knote_fdclose_from ops fd qs s = (r, s')"
  shows "r = Drop_done \<and> kern_inv s' \<and> (\<forall>q. fd_removed fd (kqs s q) (kqs s' q)) \<and>
    (\<forall>q \<in> set qs. kn_gone (\<lambda>kn. f_isfd (kn_fop kn) \<and> unat (kn_id kn) = fd) (kqs s' q))"
  using assms
proof (induction qs arbitrary: s)
  case (Cons q qs)
  obtain r1 s1 where d: "kqueue_drop_bucket (length (fd_bucket fd (kqs s q))) ops q (fd_bucket fd) s = (r1, s1)"
    by fastforce
  have iq: "kq_inv (kqs s q)"
    using Cons.prems(1) by (simp add: kern_inv_def)
  note ok = drop_bucket_ok [OF iq _ _ d, where i = fd, simplified]
  define s2 where "s2 = kq_upd q KQ_FLUX_WAKEUP s1"
  have k1: "kern_inv s1"
    using ok Cons.prems(1) by (auto dest: kq_keep_env intro: kern_invI)
  have k2: "kern_inv s2"
    using k1 by (simp add: kern_inv_def s2_def)
  have rem: "fd_removed fd (kqs s p) (kqs s2 p)" for p
  proof (cases "p = q")
    case True
    have "fd_removed fd (kqs s q) (kqs s1 q)"
      using ok fd_bucket_id [OF iq] unfolding fd_removed_def notes_sub_def by (metis (no_types))
    then show ?thesis
      using True by (simp add: s2_def fd_removed_def)
  next
    case False
    then show ?thesis
      using ok by (auto simp: s2_def kq_keep_def intro: fd_removed_other)
  qed
  have gq: "kn_gone (\<lambda>kn. f_isfd (kn_fop kn) \<and> unat (kn_id kn) = fd) (kqs s2 q)"
    using fd_bucket_gone [of "kqs s1 q" fd] ok by (auto simp: s2_def kn_gone_def)
  have "knote_fdclose_from ops fd qs s2 = (r, s')"
    using Cons.prems(2) d ok by (simp add: s2_def)
  note ih = Cons.IH [OF k2 this]
  show ?case
    using ih rem gq by (auto intro: fd_removed_trans fd_removed_gone)
qed simp

lemma drop_buckets_ok:
  assumes "kq_inv (kqs s q)"
    and "\<forall>b \<in> set bs. \<exists>i. b = (\<lambda>kq. kq_knlist kq i) \<or> b = (\<lambda>kq. kq_knhash kq i)"
    and "kqueue_drop_buckets ops q bs s = (r, s')"
  shows "r = Drop_done \<and> kq_inv (kqs s' q) \<and> kq_keep q s s' \<and> notes_sub (kqs s q) (kqs s' q) \<and>
    (\<forall>b \<in> set bs. kn_gone (\<lambda>kn. kn_bucket (kq_knhashmask (kqs s q)) kn = b) (kqs s' q)) \<and>
    kq_knlistsize (kqs s' q) = kq_knlistsize (kqs s q) \<and>
    kq_knhashmask (kqs s' q) = kq_knhashmask (kqs s q)"
  using assms
proof (induction bs arbitrary: s)
  case (Cons b bs)
  obtain r1 s1 where d: "kqueue_drop_bucket (length (b (kqs s q))) ops q b s = (r1, s1)"
    by fastforce
  obtain i where i: "b = (\<lambda>kq. kq_knlist kq i) \<or> b = (\<lambda>kq. kq_knhash kq i)"
    using Cons.prems(2) by auto
  have "b = fd_bucket i \<or> b = (\<lambda>kq. kq_knlist kq i) \<or> b = (\<lambda>kq. kq_knhash kq i)"
    using i by blast
  note ok = drop_bucket_ok [OF Cons.prems(1) order.refl this d]
  have "kn_gone (\<lambda>kn. kn_bucket (kq_knhashmask (kqs s q)) kn = b) (kqs s1 q)"
    unfolding kn_gone_def
  proof (intro allI impI notI)
    fix k kn
    assume h: "kq_notes (kqs s1 q) k = Some kn" "kn_bucket (kq_knhashmask (kqs s q)) kn = b"
    have "index_ok {} (kqs s1 q)"
      using ok by (simp add: kq_inv_def)
    then have "k \<in> set (kn_bucket (kq_knhashmask (kqs s1 q)) kn (kqs s1 q))"
      using index_ok_note [OF _ h(1)] by (simp add: kn_bucket_klist)
    then show False
      using ok h(2) by simp
  qed
  moreover have "kqueue_drop_buckets ops q bs s1 = (r, s')"
    using Cons.prems(3) d ok by simp
  then have ih: "r = Drop_done \<and> kq_inv (kqs s' q) \<and> kq_keep q s1 s' \<and> notes_sub (kqs s1 q) (kqs s' q) \<and>
    (\<forall>b \<in> set bs. kn_gone (\<lambda>kn. kn_bucket (kq_knhashmask (kqs s1 q)) kn = b) (kqs s' q)) \<and>
    kq_knlistsize (kqs s' q) = kq_knlistsize (kqs s1 q) \<and>
    kq_knhashmask (kqs s' q) = kq_knhashmask (kqs s1 q)"
    using ok Cons.prems(2) by (intro Cons.IH) auto
  ultimately show ?case
    using ok by (auto intro: kq_keep_trans notes_sub_trans notes_sub_gone)
qed simp

lemma drain_ok:
  assumes "kq_inv (kqs s q)" "kqueue_drain ops q s = (r, s')"
  shows "r \<noteq> Drop_fuel \<and> kq_inv (kqs s' q) \<and>
    (r = Drop_done \<longrightarrow> kq_notes (kqs s' q) = Map.empty \<and> KQ_CLOSING \<in> kq_state (kqs s' q)) \<and>
    (\<forall>p. p \<noteq> q \<longrightarrow> other_step (kqs s p) (kqs s' p))"
proof -
  define s1 where "s1 = kq_upd q (\<lambda>kq. kq\<lparr>kq_state := insert KQ_CLOSING (kq_state kq)\<rparr>) s"
  have i1: "kq_inv (kqs s1 q)" and c1: "KQ_CLOSING \<in> kq_state (kqs s1 q)"
    and o1: "\<forall>p. p \<noteq> q \<longrightarrow> kqs s1 p = kqs s p"
    using assms(1) by (simp_all add: s1_def kq_inv_sleep)
  obtain r2 s2 where d: "kqueue_drop_buckets ops q (kqueue_buckets (kqs s1 q)) s1 = (r2, s2)"
    by fastforce
  have "\<forall>b \<in> set (kqueue_buckets (kqs s1 q)).
      \<exists>i. b = (\<lambda>kq. kq_knlist kq i) \<or> b = (\<lambda>kq. kq_knhash kq i)"
    by (auto simp: kqueue_buckets_def)
  note ok = drop_buckets_ok [OF i1 this d]
  have e2: "kq_notes (kqs s2 q) = Map.empty"
  proof
    fix k
    show "kq_notes (kqs s2 q) k = None"
    proof (cases "kq_notes (kqs s2 q) k")
      case (Some kn)
      then have "kn_bucket (kq_knhashmask (kqs s2 q)) kn \<in> set (kqueue_buckets (kqs s2 q))"
        using ok by (blast intro: kn_bucket_mem)
      moreover have "kqueue_buckets (kqs s2 q) = kqueue_buckets (kqs s1 q)"
        using ok by (simp add: kqueue_buckets_def)
      ultimately show ?thesis
        using ok Some unfolding kn_gone_def by metis
    qed
  qed
  have c2: "KQ_CLOSING \<in> kq_state (kqs s2 q)"
    using ok c1 by (simp add: kq_keep_def)
  have sl: "kq_inv (kq\<lparr>kq_selwait := b, kq_state := st\<rparr>) = kq_inv kq" for kq b st
    by (simp add: kq_inv_def queue_ok_def index_ok_def ready_ok_def fresh_ok_def calm_def has_st_def kn_klist_def)
  consider "kq_refcnt (kqs s1 q) > 1" "r = Drop_sleep" "s' = s1"
    | "r = Drop_sleep" "s' = kq_upd q (\<lambda>kq. kq\<lparr>kq_state := insert KQ_TASKDRAIN (kq_state kq)\<rparr>) s2"
    | "r = Drop_done" "s' = s2 \<or> s' = kq_upd q (\<lambda>kq. kq\<lparr>kq_selwait := False, kq_state := kq_state kq - {KQ_SEL}\<rparr>) s2"
    using assms(2) ok unfolding kqueue_drain_def Let_def s1_def [symmetric] d
    by (auto split: if_splits)
  then show ?thesis
  proof cases
    case 3
    then show ?thesis
      using ok e2 c2 o1 by (auto simp: sl kq_keep_def)
  qed (use i1 c1 o1 ok in \<open>auto simp: kq_inv_sleep kq_keep_def\<close>)
qed

lemma changes_ok:
  assumes "kq_inv (kqs s q)" "kqueue_changes ops cops q kevs ne nr u s = (r, u', s')" "0 \<le> ne" "0 \<le> nr"
  shows "kq_inv (kqs s' q) \<and> kq_keep q s s' \<and>
    (\<forall>ne' nr'. r = Ch_go ne' nr' \<longrightarrow> 0 \<le> ne' \<and> 0 \<le> nr' \<and> ne' + nr' = ne + nr)"
  using assms
proof (induction kevs arbitrary: ne nr u s)
  case (Cons kev kevs)
  show ?case
  proof (cases "ke_filter kev = 0")
    case True
    then have "kqueue_changes ops cops q kevs ne nr u s = (r, u', s')"
      using Cons.prems(2) by simp
    then show ?thesis
      by (rule Cons.IH [OF Cons.prems(1) _ Cons.prems(3,4)])
  next
    case False
    define kev1 where "kev1 = kev\<lparr>ke_flags := ke_flags kev AND NOT EV_SYSFLAGS\<rparr>"
    obtain x kev2 s1 where rg: "kqueue_register ops q kev1 True s = (x, kev2, s1)"
      by (metis prod_cases3)
    have ok: "kq_inv (kqs s1 q)" "kq_keep q s s1"
      using register_inv [OF Cons.prems(1) rg] by auto
    show ?thesis
    proof (cases x)
      case KSleep
      then show ?thesis
        using Cons.prems(2) False rg ok by (auto simp: kev1_def)
    next
      case (KRet e)
      consider (bad) "e \<noteq> 0 \<or> fl (ke_flags kev2) EV_RECEIPT" "ne = 0"
        | (err) u1 where "e \<noteq> 0 \<or> fl (ke_flags kev2) EV_RECEIPT" "ne \<noteq> 0"
            "kqueue_changes ops cops q kevs (ne - 1) (nr + 1) u1 s1 = (r, u', s')"
        | (ok) "\<not> (e \<noteq> 0 \<or> fl (ke_flags kev2) EV_RECEIPT)"
            "kqueue_changes ops cops q kevs ne nr u s1 = (r, u', s')"
        using Cons.prems(2) False rg KRet unfolding kqueue_changes.simps kev1_def Let_def
        by (auto split: if_splits prod.splits)
      then show ?thesis
      proof cases
        case bad
        then show ?thesis
          using Cons.prems(2) False rg KRet ok unfolding kqueue_changes.simps kev1_def Let_def by auto
      next
        case err
        have "0 \<le> ne - 1" "0 \<le> nr + 1"
          using err(2) Cons.prems(3,4) by auto
        note ih = Cons.IH [OF ok(1) err(3) this]
        then show ?thesis
          using kq_keep_trans [OF ok(2)] by simp
      next
        case ok': ok
        note ih = Cons.IH [OF ok(1) ok'(2) Cons.prems(3,4)]
        then show ?thesis
          using kq_keep_trans [OF ok(2)] by simp
      qed
    qed
  qed
qed auto

lemma batches_ok:
  assumes "kq_inv (kqs s q)" "kqueue_batches ops cops q n ne nr u s = (r, u', s')" "0 \<le> ne" "0 \<le> nr"
  shows "kq_inv (kqs s' q) \<and> kq_keep q s s' \<and>
    (\<forall>ne' nr'. r = Ch_go ne' nr' \<longrightarrow> 0 \<le> ne' \<and> 0 \<le> nr' \<and> ne' + nr' = ne + nr)"
  using assms
proof (induction n arbitrary: ne nr u s rule: less_induct)
  case (less n)
  show ?case
  proof (cases "n = 0")
    case True
    then show ?thesis
      using less.prems by (auto simp: kqueue_batches.simps)
  next
    case False
    obtain e kevs u1 where ci: "k_copyin cops (min KQ_NEVENTS n) u = (e, kevs, u1)"
      by (metis prod_cases3)
    obtain x u2 s2 where ch: "kqueue_changes ops cops q kevs ne nr u1 s = (x, u2, s2)"
      by (metis prod_cases3)
    note ok = changes_ok [OF less.prems(1) ch less.prems(3,4)]
    show ?thesis
    proof (cases "e = 0 \<and> (\<exists>ne1 nr1. x = Ch_go ne1 nr1)")
      case True
      then obtain ne1 nr1 where x: "x = Ch_go ne1 nr1" "e = 0" by blast
      have "kqueue_batches ops cops q (n - min KQ_NEVENTS n) ne1 nr1 u2 s2 = (r, u', s')"
        using less.prems(2) False ci ch x by (simp add: kqueue_batches.simps [of _ _ _ n])
      then show ?thesis
        using less.IH [of "n - min KQ_NEVENTS n" s2 ne1 nr1 u2] False ok x
        by (auto intro: kq_keep_trans)
    next
      case f: False
      then show ?thesis
        using less.prems(1,2) False ci ch ok
        by (cases x) (auto simp: kqueue_batches.simps [of _ _ _ n] split: if_splits)
    qed
  qed
qed

lemma kevent_ok:
  assumes "copy_log cops lg" "kq_inv (kqs s q)" "marks (kqs s q) = []" "0 \<le> nevents"
    and "kqueue_kevent ops cops clk td q nchanges nevents tsp u s = (r, u', s')"
  shows "kq_inv (kqs s' q) \<and> marks (kqs s' q) = [] \<and> kq_env q s s' \<and> r \<noteq> Scan_fault \<and>
    (r = Scan_ret 0 \<longrightarrow> k_retval s' \<le> max nevents (k_retval s))"
proof -
  obtain x u1 s1 where b: "kqueue_batches ops cops q (nat nchanges) nevents 0 u s = (x, u1, s1)"
    by (metis prod_cases3)
  note ok = batches_ok [OF assms(2) b assms(4) order.refl]
  have env: "kq_env q s s1" and m1: "marks (kqs s1 q) = []" and i1: "kq_inv (kqs s1 q)"
    using ok assms(3) by (auto dest: kq_keep_env)
  show ?thesis
  proof (cases x)
    case (Ch_go ne nr)
    show ?thesis
    proof (cases "nr = 0")
      case True
      then have sc: "kqueue_scan ops cops clk td q ne tsp u1 s1 = (r, u', s')"
        using assms(5) b Ch_go by (simp add: kqueue_kevent_def)
      have "0 \<le> ne" "ne \<le> nevents"
        using ok Ch_go True by auto
      then show ?thesis
        using scan_ok [OF assms(1) i1 m1 _ sc] env by (auto intro: kq_env_trans)
    next
      case False
      then show ?thesis
        using assms(5) b Ch_go ok env m1 i1 by (auto simp: kqueue_kevent_def kq_env_retval)
    qed
  next
    case (Ch_ret e)
    then show ?thesis
      using assms(5) b ok env m1 i1 by (auto simp: kqueue_kevent_def kq_keep_def)
  next
    case Ch_sleep
    then show ?thesis
      using assms(5) b env m1 i1 by (auto simp: kqueue_kevent_def)
  qed
qed

end

end
