(* ===== verification/Filters_Ok.thy ===== *)
theory Filters_Ok
  imports Filters Kqueue_Life
begin

text \<open>
  The table \<open>kern_ops\<close> satisfies the contract \<open>filters\<close>, so all that is proved of the
  event queue for any filters holds for the kernel's own.
\<close>

section \<open>Steps of the filter routines\<close>

definition keeps :: "(knote \<Rightarrow> knote) \<Rightarrow> bool" where
  "keeps g \<longleftrightarrow> (\<forall>kn. kn_key (g kn) = kn_key kn \<and> st_core (g kn) = st_core kn \<and> kn_influx (g kn) = kn_influx kn)"

definition ev_step :: "nat \<times> nat \<Rightarrow> kworld \<Rightarrow> kworld \<Rightarrow> bool" where
  "ev_step p s s' \<longleftrightarrow>
     kern_frame s s' \<and> note_step (snd p) (kqs s (fst p)) (kqs s' (fst p)) \<and>
     (\<forall>q'. q' \<noteq> fst p \<longrightarrow> other_step (kqs s q') (kqs s' q'))"

definition cbk_step :: "nat \<times> nat \<Rightarrow> kworld \<Rightarrow> kworld \<Rightarrow> bool" where
  "cbk_step p s s' \<longleftrightarrow>
     kern_frame s s' \<and> cb_step (snd p) (kqs s (fst p)) (kqs s' (fst p)) \<and>
     (\<forall>q'. q' \<noteq> fst p \<longrightarrow> other_step (kqs s q') (kqs s' q'))"

lemma keepsI:
  assumes "\<And>kn. kn_id (g kn) = kn_id kn" "\<And>kn. kn_filter (g kn) = kn_filter kn"
    and "\<And>kn. f_isfd (kn_fop (g kn)) = f_isfd (kn_fop kn)"
    and "\<And>kn. st_core (g kn) = st_core kn" "\<And>kn. kn_influx (g kn) = kn_influx kn"
  shows "keeps g"
  using assms by (simp add: keeps_def kn_key_def)

lemma note_step_trans: "note_step k a b \<Longrightarrow> note_step k b c \<Longrightarrow> note_step k a c"
proof -
  assume "note_step k a b" "note_step k b c"
  then obtain g sn h tn where b: "b = (kn_upd k g a)\<lparr>kq_si_note := sn\<rparr>"
    and c: "c = (kn_upd k h b)\<lparr>kq_si_note := tn\<rparr>"
    and g: "\<forall>kn. kn_key (g kn) = kn_key kn \<and> st_core (g kn) = st_core kn \<and> kn_influx (g kn) = kn_influx kn"
    and h: "\<forall>kn. kn_key (h kn) = kn_key kn \<and> st_core (h kn) = st_core kn \<and> kn_influx (h kn) = kn_influx kn"
    unfolding note_step_def by blast
  have "c = (kn_upd k (\<lambda>kn. h (g kn)) a)\<lparr>kq_si_note := tn\<rparr>"
    by (simp add: b c kn_upd_def option.map_comp comp_def)
  then show "note_step k a c"
    unfolding note_step_def using g h
    by (intro exI [of _ "\<lambda>kn. h (g kn)"] exI [of _ tn]) simp
qed

lemma kn_stable_trans: "kn_stable a b \<Longrightarrow> kn_stable b c \<Longrightarrow> kn_stable a c"
  by (simp add: kn_stable_def)

lemma cb_step_trans: "cb_step k a b \<Longrightarrow> cb_step k b c \<Longrightarrow> cb_step k a c"
  unfolding cb_step_def by (auto simp: rel_option_iff kn_stable_def split: option.splits)

lemma ev_step_refl [simp]: "ev_step p s s"
  by (simp add: ev_step_def note_step_refl)

lemma ev_step_trans: "ev_step p s t \<Longrightarrow> ev_step p t u \<Longrightarrow> ev_step p s u"
  unfolding ev_step_def by (meson kern_frame_trans note_step_trans other_step_trans)

lemma cbk_step_trans: "cbk_step p s t \<Longrightarrow> cbk_step p t u \<Longrightarrow> cbk_step p s u"
  unfolding cbk_step_def by (meson kern_frame_trans cb_step_trans other_step_trans)

lemma ev_cbk: "ev_step p s t \<Longrightarrow> cbk_step p s t"
  by (simp add: ev_step_def cbk_step_def note_step_cb)

lemma ev_step_kn: "keeps g \<Longrightarrow> ev_step p s (kq_upd (fst p) (kn_upd (snd p) g) s)"
  unfolding ev_step_def note_step_def keeps_def kern_frame_def
  by (auto intro!: exI [of _ g] exI [of _ "kq_si_note (kqs s (fst p))"] simp: kn_upd_def)

lemma ev_step_mod: "keeps g \<Longrightarrow> ev_step p s (kn_mod p g s)"
  by (simp add: kn_mod_def ev_step_kn)

lemma ev_step_w: "ev_step p s (w_upd f s)"
  by (simp add: ev_step_def w_upd_def kern_frame_def note_step_refl)

lemma ev_step_so: "ev_step p s (so_upd i f s)"
  by (simp add: so_upd_def ev_step_w)

lemma note_step_si: "note_step k a (a\<lparr>kq_si_note := sn\<rparr>)"
  unfolding note_step_def
  by (rule exI [of _ id], rule exI [of _ sn]) (simp add: kn_upd_def option.map_id)

lemma other_step_si: "other_step a (a\<lparr>kq_si_note := sn\<rparr>)"
  by (auto simp: other_step_def)

lemma ev_step_knl: "ev_step p s (knl_upd l f s)"
proof (cases l)
  case (Knl_kq q)
  then show ?thesis
    by (auto simp: ev_step_def knl_upd_def kern_frame_def note_step_si note_step_refl other_step_si)
qed (simp_all add: ev_step_def knl_upd_def kern_frame_def note_step_refl)

lemma keeps_detached:
  "keeps (\<lambda>kn. st_clr {KN_DETACHED} (kn\<lparr>kn_knlist := l\<rparr>))"
  "keeps (\<lambda>kn. st_set {KN_DETACHED} (kn\<lparr>kn_knlist := l\<rparr>))"
  "keeps (st_clr {KN_DETACHED})" "keeps (st_set {KN_DETACHED})" "keeps (st_set {KN_KQUEUE})"
  by (auto intro!: keepsI simp: st_core_def st_set_def st_clr_def)

lemma ev_step_add: "ev_step p s (knlist_add l p s)"
  unfolding knlist_add_def Let_def
  by (rule ev_step_trans [OF ev_step_knl ev_step_kn]) (rule keeps_detached)

lemma ev_step_remove: "ev_step p s (knlist_remove l p s)"
  unfolding knlist_remove_def Let_def
  by (rule ev_step_trans [OF ev_step_knl ev_step_kn]) (rule keeps_detached)

lemma keeps_members [simp]:
  "keeps (set_data d)" "keeps (set_fflags v)" "keeps (or_flags m)" "keeps (clr_flags m)"
  "keeps (\<lambda>kn. set_data (h kn) kn)" "keeps (\<lambda>kn. set_fflags (g kn) kn)"
  "keeps (\<lambda>kn. kn\<lparr>kn_hook := x\<rparr>)" "keeps (\<lambda>kn. kn\<lparr>kn_proc := y\<rparr>)" "keeps (\<lambda>kn. kn\<lparr>kn_sdata := e\<rparr>)"
  "keeps (\<lambda>kn. kn\<lparr>kn_hookid := j\<rparr>)" "keeps (\<lambda>kn. kn\<lparr>kn_next := t\<rparr>)" "keeps user_clear"
  "keeps (\<lambda>kn. kn\<lparr>kn_sfflags := i kn\<rparr>)"
  by (auto intro!: keepsI simp: set_data_def set_fflags_def or_flags_def clr_flags_def user_clear_def
      st_core_def)

lemma keeps_comp: "keeps f \<Longrightarrow> keeps g \<Longrightarrow> keeps (\<lambda>kn. f (g kn))"
  by (simp add: keeps_def)

lemma activate_cb:
  assumes "kq_notes kq k \<noteq> None"
  shows "cb_step k kq (KNOTE_ACTIVATE k kq)"
proof -
  obtain kn where kn: "kq_notes kq k = Some kn"
    using assms by blast
  then show ?thesis
    using queue_ok_activate [of kq k]
    by (auto simp: cb_step_def kq_notes_activate [OF kn] kn_stable_def kn_key_def)
qed

lemma cbk_activate:
  assumes "kq_notes (kqs s (fst p)) (snd p) \<noteq> None"
  shows "cbk_step p s (kq_upd (fst p) (KNOTE_ACTIVATE (snd p)) s)"
  using activate_cb [OF assms] by (simp add: cbk_step_def kern_frame_def)

lemma cbk_exists: "cbk_step p s t \<Longrightarrow> kq_notes (kqs s (fst p)) (snd p) \<noteq> None \<Longrightarrow> kq_notes (kqs t (fst p)) (snd p) \<noteq> None"
  by (auto simp: cbk_step_def cb_step_def rel_option_iff split: option.splits)


section \<open>The routines of each filter\<close>

lemmas step_intros =
  ev_step_trans [OF _ ev_step_add] ev_step_trans [OF _ ev_step_mod] ev_step_trans [OF _ ev_step_remove]
  ev_step_trans [OF _ ev_step_so] ev_step_trans [OF _ ev_step_w]
  ev_step_add ev_step_mod ev_step_remove ev_step_so ev_step_w ev_step_refl

lemma ev_step_fop:
  assumes "kq_notes (kqs s (fst p)) (snd p) = Some kn" "f_isfd (kn_fop kn)" "f_isfd f"
  shows "ev_step p s (kn_mod p (\<lambda>kn. kn\<lparr>kn_fop := f\<rparr>) s)"
proof -
  let ?g = "\<lambda>kn :: knote. if f_isfd (kn_fop kn) then kn\<lparr>kn_fop := f\<rparr> else kn"
  have "kn_mod p (\<lambda>kn. kn\<lparr>kn_fop := f\<rparr>) s = kn_mod p ?g s"
    using assms(1,2) by (simp add: kn_mod_def kq_upd_def kn_upd_def)
  moreover have "keeps ?g"
    using assms(3) by (auto intro!: keepsI simp: st_core_def split: if_splits)
  ultimately show ?thesis
    by (simp add: ev_step_mod)
qed

lemma filt_proc_step: "filt_proc p h s = (b, s') \<Longrightarrow> ev_step p s s'"
  unfolding filt_proc_def
  by (auto simp: Let_def split: option.splits if_splits
      intro!: step_intros keeps_comp [of "\<lambda>kn. kn\<lparr>kn_proc := None\<rparr>" "or_flags _"])

lemma events_step: "f_event (kern_ops t) p h s = (b, s') \<Longrightarrow> ev_step p s s'"
proof (cases t)
  case Proc_filtops
  then show "f_event (kern_ops t) p h s = (b, s') \<Longrightarrow> ev_step p s s'"
    by (simp add: filt_proc_step)
qed (auto simp: filt_kqueue_def filt_timer_def filt_user_def filt_signal_def filt_fsevent_def
    filt_eventfdread_def filt_eventfdwrite_def filt_soread_def filt_sowrite_def filt_soempty_def
    Let_def split: if_splits intro!: step_intros)

lemma detach_steps: "ev_step p s (f_detach (kern_ops t) p s)"
  by (cases t) (auto simp: filt_kqdetach_def filt_procdetach_def filt_timerdetach_def filt_userdetach_def
      filt_sigdetach_def filt_fsdetach_def filt_eventfddetach_def filt_sordetach_def filt_sowdetach_def
      Let_def keeps_detached split: option.split intro!: step_intros)


lemma timervalidate_step: "filt_timervalidate p s = (r, s') \<Longrightarrow> ev_step p s s'"
  by (auto simp: filt_timervalidate_def Let_def split: if_splits intro!: step_intros)

lemma timerstart_step: "ev_step p s (filt_timerstart p to s)"
  by (auto simp: filt_timerstart_def Let_def st_core_def intro!: step_intros keepsI)

lemma timerattach_step:
  assumes "filt_timerattach p s = (e, s')"
  shows "ev_step p s s'"
proof -
  obtain r s1 where v: "filt_timervalidate p s = (r, s1)"
    by (cases "filt_timervalidate p s")
  note s1 = timervalidate_step [OF v]
  show ?thesis
  proof (cases "\<exists>to. r = Inr to \<and> w_ncallouts (k_w s1) < w_calloutmax (k_w s1)")
    case False
    then show ?thesis
      using assms s1 by (cases r) (simp_all add: filt_timerattach_def v)
  next
    case True
    then obtain to where to: "r = Inr to" "\<not> w_ncallouts (k_w s1) \<ge> w_calloutmax (k_w s1)"
      by auto
    define s2 where "s2 = w_upd (\<lambda>w. w\<lparr>w_ncallouts := w_ncallouts w + 1\<rparr>) s1"
    define s3 where "s3 = (if \<not> fl (kn_sfflags (kn_of s2 p)) NOTE_ABSTIME
       then kn_mod p (or_flags EV_CLEAR) s2 else s2)"
    have "s' = filt_timerstart p to (kn_mod p (st_clr {KN_DETACHED}) s3)"
      using arg_cong [OF assms, of snd]
      by (simp only: filt_timerattach_def v to prod.case sum.case if_False Let_def s2_def s3_def snd_conv)
    moreover have "ev_step p s2 s3"
      unfolding s3_def by (simp add: ev_step_mod)
    ultimately show ?thesis
      using s1 ev_step_w [of p s1] timerstart_step keeps_detached(3)
      by (metis ev_step_mod ev_step_trans s2_def)
  qed
qed

lemma fileattach_step:
  assumes "kq_notes (kqs s (fst p)) (snd p) = Some kn" "f_isfd (kn_fop kn)"
    and "filt_fileattach p s = (e, s')"
  shows "ev_step p s s'"
proof -
  note fop = ev_step_fop [OF assms(1,2)]
  have "ev_step p s s'" if "soo_kqfilter so p s = (e, s')" for so
    using that by (auto simp: soo_kqfilter_def Let_def split: if_splits intro!: step_intros fop)
  moreover have "ev_step p s s'" if "eventfd_kqfilter efd p s = (e, s')" for efd
    using that by (auto simp: eventfd_kqfilter_def Let_def split: if_splits intro!: step_intros fop)
  moreover have "ev_step p s s'" if h: "kqueue_kqfilter p s = (e, s')"
  proof (cases "kn_filter (kn_of s p) = EVFILT_READ")
    case True
    let ?s1 = "kn_mod p (st_set {KN_KQUEUE}) s"
    have "kq_notes (kqs ?s1 (fst p)) (snd p) = Some (st_set {KN_KQUEUE} kn)"
      using assms(1) by (simp add: kn_mod_def)
    then have "ev_step p ?s1 (kn_mod p (\<lambda>kn. kn\<lparr>kn_fop := Kqread_filtops\<rparr>) ?s1)"
      using assms(2) by (auto intro!: ev_step_fop)
    moreover have "ev_step p s ?s1"
      by (rule ev_step_mod) (rule keeps_detached)
    ultimately have "ev_step p s (kn_mod p (\<lambda>kn. kn\<lparr>kn_fop := Kqread_filtops\<rparr>) ?s1)"
      by (rule ev_step_trans [rotated])
    then show ?thesis
      using h True by (auto simp: kqueue_kqfilter_def Let_def intro!: step_intros)
  qed (use h in \<open>auto simp: kqueue_kqfilter_def Let_def\<close>)
  ultimately show ?thesis
    using assms(3) by (auto simp: filt_fileattach_def split: option.splits dtype.splits)
qed

lemma procattach_kn_step: "procattach_kn pr p s = (b, s') \<Longrightarrow> ev_step p s s'"
proof -
  assume a: "procattach_kn pr p s = (b, s')"
  define s1 where "s1 = kn_mod p (\<lambda>kn. or_flags EV_CLEAR (kn\<lparr>kn_proc := Some pr\<rparr>)) s"
  define s2 where "s2 = (if fl (kn_flags (kn_of s1 p)) EV_FLAG2 then kn_mod p (\<lambda>kn.
       (set_fflags NOTE_CHILD (set_data (kn_sdata kn) (clr_flags EV_FLAG2 kn)))
       \<lparr>kn_sfflags := kn_sfflags kn AND NOT (NOTE_EXIT OR NOTE_EXEC OR NOTE_FORK)\<rparr>) s1 else s1)"
  define s3 where "s3 = (if fl (kn_flags (kn_of s2 p)) EV_FLAG1 then kn_mod p (clr_flags EV_FLAG1) s2 else s2)"
  have "s' = knlist_add (Knl_proc pr) p s3"
    using arg_cong [OF a, of snd] by (simp only: procattach_kn_def Let_def s1_def s2_def s3_def snd_conv)
  moreover have "ev_step p s s1"
    unfolding s1_def by (rule ev_step_mod) (rule keeps_comp, simp_all)
  moreover have "ev_step p s1 s2"
    unfolding s2_def by (auto intro!: ev_step_mod keepsI simp: st_core_def set_fflags_def set_data_def clr_flags_def)
  moreover have "ev_step p s2 s3"
    unfolding s3_def by (simp add: ev_step_mod)
  ultimately show ?thesis
    by (meson ev_step_add ev_step_trans)
qed

lemma procattach_step:
  assumes "kq_notes (kqs s (fst p)) (snd p) \<noteq> None" "filt_procattach p s = (e, s')"
  shows "cbk_step p s s'"
proof -
  have act: "cbk_step p s (kq_upd (fst p) (KNOTE_ACTIVATE (snd p)) t)" if "ev_step p s t" for t
    using that assms(1) cbk_exists [OF ev_cbk [OF that] assms(1)]
    by (blast intro: cbk_step_trans ev_cbk cbk_activate)
  have fp: "ev_step p s t'" if "ev_step p s t" "filt_proc p h t = (b, t')" for t t' h b
    using that by (blast intro: ev_step_trans filt_proc_step)
  show ?thesis
    using assms(2) act fp procattach_kn_step [of _ p s] ev_cbk ev_step_refl [of p s]
    by (simp add: filt_procattach_def Let_def split: option.splits if_split_asm prod.splits) metis+
qed

lemma attach_steps:
  assumes "kq_notes (kqs s (fst p)) (snd p) = Some kn" "kn_fop kn = t" "f_attach (kern_ops t) p s = (e, s')"
  shows "cbk_step p s s'"
proof -
  have "ev_step p s s'" if "filt_userattach p s = (e, s') \<or> filt_sigattach p s = (e, s') \<or>
      filt_fsattach p s = (e, s') \<or> filt_nullattach p s = (e, s')"
    using that by (auto simp: filt_userattach_def filt_sigattach_def filt_fsattach_def filt_nullattach_def
        Let_def st_core_def or_flags_def intro!: step_intros keepsI)
  then show ?thesis
    using assms fileattach_step [OF assms(1)] procattach_step [of s p e s'] timerattach_step [of p s e s']
    by (cases t) (auto intro: ev_cbk)
qed

section \<open>Touching a knote\<close>

lemma timer_reset_cb:
  assumes "kq_notes kq k = Some kn"
  shows "cb_step k kq (kn_upd k (\<lambda>kn. set_data 0 (st_clr {KN_ACTIVE} kn))
           (if KN_QUEUED \<in> kn_status kn then knote_dequeue k kq else kq))"
    (is "cb_step k kq ?kq'")
proof -
  define a where "a = (if KN_QUEUED \<in> kn_status kn then knote_dequeue k kq else kq)"
  define b where "b = kn_upd k (\<lambda>kn. set_data 0 (st_clr {KN_ACTIVE} kn)) a"
  have h: "has_st KN_QUEUED b j = has_st KN_QUEUED a j" "has_st KN_ACTIVE b j = (has_st KN_ACTIVE a j \<and> j \<noteq> k)" for j
    by (auto simp: b_def has_st_def kn_upd_def set_data_def st_clr_def)
  have "queue_ok b" if "queue_ok kq"
  proof -
    have a: "queue_ok a" "\<not> has_st KN_QUEUED a k"
      using that assms queue_ok_dequeue by (auto simp: has_st_def a_def)
    then show ?thesis
      unfolding queue_ok_def h by (auto simp: b_def)
  qed
  moreover have "marks b = marks kq"
    by (simp add: marks_def b_def a_def filter_remove1 remove1_idem)
  moreover have "rel_option kn_stable (kq_notes kq k) (kq_notes b k)"
    using assms by (simp add: b_def a_def kn_stable_def kn_key_def set_data_def st_clr_def) blast
  ultimately have "cb_step k kq b"
    by (simp add: cb_step_def) (simp add: b_def a_def kn_upd_def)
  then show ?thesis
    by (simp only: b_def a_def)
qed

lemma timertouch_step:
  assumes "kq_notes (kqs s (fst p)) (snd p) \<noteq> None" "filt_timertouch EVENT_REGISTER p kev s = (kev', s')"
  shows "cbk_step p s s'"
proof (cases "fl (ke_flags kev) EV_ADD")
  case False
  then show ?thesis
    using assms(2) by (simp add: filt_timertouch_def ev_cbk)
next
  case True
  define s1 where "s1 = w_upd (\<lambda>w. w\<lparr>w_callout := (w_callout w)(p := None)\<rparr>) s"
  define s2 where "s2 = (if KN_QUEUED \<in> kn_status (kn_of s1 p)
      then kq_upd (fst p) (knote_dequeue (snd p)) s1 else s1)"
  define s3 where "s3 = kn_mod p (\<lambda>kn. set_data 0 (st_clr {KN_ACTIVE} kn)) s2"
  define s4 where "s4 = kn_mod p (\<lambda>kn. kn\<lparr>kn_sfflags := ke_fflags kev, kn_sdata := ke_data kev\<rparr>) s3"
  obtain r s5 where v: "filt_timervalidate p s4 = (r, s5)"
    by (cases "filt_timervalidate p s4")
  obtain kn where kn: "kq_notes (kqs s1 (fst p)) (snd p) = Some kn"
    using assms(1) by (auto simp: s1_def w_upd_def)
  have s': "s' = (case r of Inl e \<Rightarrow> kn_mod p (\<lambda>kn. set_data (word_of_int e) (or_flags EV_ERROR kn)) s5
      | Inr to \<Rightarrow> filt_timerstart p to s5)"
    using assms(2) True v by (auto simp: filt_timertouch_def Let_def s1_def s2_def s3_def s4_def split: sum.splits)
  have "cbk_step p s1 s3"
    using timer_reset_cb [OF kn] kn
    by (auto simp: cbk_step_def kern_frame_def s3_def s2_def kn_mod_def kn_of_def kn_at_def)
  moreover have "ev_step p s3 s4"
    unfolding s4_def by (auto intro!: ev_step_mod keepsI simp: st_core_def)
  moreover have "ev_step p s5 s'"
    using s' by (cases r) (auto intro!: timerstart_step ev_step_mod keepsI simp: st_core_def set_data_def or_flags_def)
  moreover have "ev_step p s s1"
    by (simp add: s1_def ev_step_w)
  ultimately show ?thesis
    using timervalidate_step [OF v] by (blast intro: cbk_step_trans ev_cbk)
qed

lemma ev_step_if:
  "(c \<Longrightarrow> ev_step p s a) \<Longrightarrow> (\<not> c \<Longrightarrow> ev_step p s b) \<Longrightarrow> ev_step p s (if c then a else b)"
  by simp

lemma usertouch_step: "ev_step p s (snd (filt_usertouch EVENT_REGISTER p kev s))"
  unfolding filt_usertouch_def Let_def touch.case snd_conv
  by (intro ev_step_if ev_step_trans [OF _ ev_step_mod] keeps_members ev_step_refl)

lemma touch_process_steps:
  assumes "kq_notes (kqs s (fst p)) (snd p) = Some kn"
    and "f_touch (kern_ops t) EVENT_PROCESS p (kn_kevent kn) s = (kev', s')"
  shows "ke_ident kev' = kn_id kn \<and> ke_filter kev' = kn_filter kn \<and> ev_step p s s'"
proof -
  have "kn_of s p = kn"
    using assms(1) by (simp add: kn_of_def kn_at_def)
  moreover have "keeps (\<lambda>kn. set_fflags 0 (set_data 0 kn))"
    by (rule keeps_comp) simp_all
  ultimately show ?thesis
    using assms(2)
    by (cases t) (auto simp: filt_timertouch_def filt_usertouch_def Let_def split: if_splits intro!: step_intros)
qed

section \<open>The kernel's filters meet the contract\<close>

interpretation kf: filters kern_ops
proof unfold_locales
  fix t q k h s b s'
  assume "f_event (kern_ops t) (q, k) h s = (b, s')"
  then show "kern_frame s s' \<and> note_step k (kqs s q) (kqs s' q) \<and>
      (\<forall>q'. q' \<noteq> q \<longrightarrow> other_step (kqs s q') (kqs s' q'))"
    using events_step [of t "(q, k)"] by (auto simp: ev_step_def)
next
  fix t q k s s'
  assume "f_detach (kern_ops t) (q, k) s = s'"
  then show "kern_frame s s' \<and> note_step k (kqs s q) (kqs s' q) \<and>
      (\<forall>q'. q' \<noteq> q \<longrightarrow> other_step (kqs s q') (kqs s' q'))"
    using detach_steps [of "(q, k)" s t] by (auto simp: ev_step_def)
next
  fix t q k kn e s s'
  assume "kq_notes (kqs s q) k = Some kn" "kn_fop kn = t" "f_attach (kern_ops t) (q, k) s = (e, s')"
  then show "kern_frame s s' \<and> cb_step k (kqs s q) (kqs s' q) \<and>
      (\<forall>q'. q' \<noteq> q \<longrightarrow> other_step (kqs s q') (kqs s' q'))"
    using attach_steps [of s "(q, k)" kn t e s'] by (simp add: cbk_step_def)
next
  fix t q k kev kev' s s'
  assume a: "kq_notes (kqs s q) k \<noteq> None" "f_touch (kern_ops t) EVENT_REGISTER (q, k) kev s = (kev', s')"
  have "cbk_step (q, k) s s'"
    using a timertouch_step [of s "(q, k)"] usertouch_step [of "(q, k)" s kev]
    by (cases t) (auto intro: ev_cbk)
  then show "kern_frame s s' \<and> cb_step k (kqs s q) (kqs s' q) \<and>
      (\<forall>q'. q' \<noteq> q \<longrightarrow> other_step (kqs s q') (kqs s' q'))"
    by (simp add: cbk_step_def)
next
  fix t q k kn kev' s s'
  assume "kq_notes (kqs s q) k = Some kn" "f_touch (kern_ops t) EVENT_PROCESS (q, k) (kn_kevent kn) s = (kev', s')"
  then show "ke_ident kev' = kn_id kn \<and> ke_filter kev' = kn_filter kn \<and>
      kern_frame s s' \<and> note_step k (kqs s q) (kqs s' q) \<and>
      (\<forall>q'. q' \<noteq> q \<longrightarrow> other_step (kqs s q') (kqs s' q'))"
    using touch_process_steps [of s "(q, k)" kn t kev' s'] by (simp add: ev_step_def)
qed

end
