(* ===== verification/Boot.thy ===== *)
theory Boot
  imports Filters
begin

text \<open>
  The kernel before any object exists, and after it has opened one kqueue at descriptor 3.
\<close>

definition kern0 :: kworld where
  "kern0 =
     \<lparr>kqs = (\<lambda>_. kqueue_init), k_filt = sysfilt_ops,
      k_files = (\<lambda>_. \<lparr>f_type = DTYPE_OTHER, f_data = None, f_nonblock = False, f_count = 0\<rparr>),
      k_fdt = Map.empty, k_kqlist = [], k_knl = (\<lambda>_. []), k_mem = True, k_retval = 0,
      k_w = \<lparr>w_efd = (\<lambda>_. \<lparr>efd_count = 0, efd_flags = 0, efd_sel = False\<rparr>),
        w_so = (\<lambda>_. \<lparr>so_listening = False, sol_qlen = 0, sol_comp = 0,
          so_rcv = \<lparr>sb_acc = 0, sb_ccc = 0, sb_hiwat = 0, sb_mbcnt = 0, sb_mbmax = 0, sb_ctl = 0, sb_lowat = 1,
            sb_cantmore = False, sb_stop = False, sb_knote = False\<rparr>,
          so_snd = \<lparr>sb_acc = 0, sb_ccc = 0, sb_hiwat = 0, sb_mbcnt = 0, sb_mbmax = 0, sb_ctl = 0, sb_lowat = 1,
            sb_cantmore = False, sb_stop = False, sb_knote = False\<rparr>,
          so_error = 0, so_rerror = 0, so_isconnected = False, so_connrequired = True\<rparr>),
        w_proc = Map.empty, w_curproc = 0, w_callout = Map.empty, w_ncallouts = 0, w_calloutmax = 4096,
        w_uptime = 0, w_boottime = 0\<rparr>\<rparr>"

definition boot :: kworld where
  "boot = snd (kern_kqueue True (Inr (3, 0)) 0 kern0)"

end
