(* ===== verification/Timer_Props.thy ===== *)
theory Timer_Props
  imports Filters_Ok Boot
begin

text \<open>
  Timers: the conversion of a timer's \<open>data\<close> to a 32.32 fixed point time is exact to two
  units in the last place and saturates, and a periodic timer does not drift.
\<close>

text \<open>Units per second of a timer's flags.\<close>

definition timer_hz :: "u32 \<Rightarrow> int option" where
  "timer_hz flags =
     (let prec = flags AND NOTE_TIMER_PRECMASK in
      if prec = NOTE_SECONDS then Some 1
      else if prec = NOTE_MSECONDS \<or> prec = 0 then Some 1000
      else if prec = NOTE_USECONDS then Some 1000000
      else if prec = NOTE_NSECONDS then Some 1000000000
      else None)"

section \<open>Fixed point arithmetic on 64 bits\<close>

lemma FRAC_uint:
  assumes "0 \<le> R" "R < int n" "n = 1000 \<or> n = 1000000 \<or> n = 1000000000"
  shows "uint (FRAC_TO_SBT n (word_of_int R)) = (R * (2 ^ 63 div int (n div 2))) div 2 ^ 32"
proof -
  define c :: u64 where "c = 0x8000000000000000 div word_of_nat (n div 2)"
  have c: "uint c = 2 ^ 63 div int (n div 2)"
    using assms(3) by (auto simp: c_def uint_div)
  have "R \<le> int n - 1"
    using assms(2) by simp
  then have "R * uint c \<le> (int n - 1) * uint c"
    by (rule mult_right_mono) simp
  also have "\<dots> < 2 ^ 64"
    using assms(3) by (auto simp: c)
  finally have "R * uint c < 2 ^ 64" .
  moreover have "uint (word_of_int R :: u64) = R"
    using assms by (auto simp: uint_word_of_int intro!: mod_pos_pos_trivial)
  ultimately have "uint (word_of_int R * c) = R * uint c"
    using uint_mult_lem [of "word_of_int R :: u64" c] by simp
  then show ?thesis
    by (simp add: FRAC_TO_SBT_def c_def [symmetric] drop_bit_eq_div uint_div c)
qed

lemma join_uint:
  fixes secs frac :: u64
  assumes "uint secs < 2 ^ 31" "uint frac < 2 ^ 32"
  shows "uint (push_bit 32 secs OR frac) = uint secs * 2 ^ 32 + uint frac"
proof -
  have frac: "take_bit 32 frac = frac"
    unfolding word_uint_eq_iff using assms(2) by (simp add: take_bit_int_eq_self unsigned_take_bit_eq)
  have "push_bit 32 secs AND frac = 0"
    by (subst frac [symmetric], rule bit_word_eqI) (simp add: bit_simps)
  then have "push_bit 32 secs OR frac = push_bit 32 secs + frac"
    by (simp add: disjunctive_add bit_eq_iff bit_simps)
  moreover have "uint (push_bit 32 secs) = uint secs * 2 ^ 32"
    using assms(1) uint_mult_lem [of secs "2 ^ 32"] by (simp add: push_bit_eq_mult)
  moreover have "uint secs * 2 ^ 32 + uint frac < 2 ^ 64"
    using assms by simp
  ultimately show ?thesis
    using uint_add_lem [of "push_bit 32 secs" frac] by simp
qed

lemma frac_bounds:
  fixes R n :: int
  assumes "0 \<le> R" "R < n" "n = 1000 \<or> n = 1000000 \<or> n = 1000000000"
    and "f = (R * (2 ^ 63 div (n div 2))) div 2 ^ 32"
  shows "0 \<le> f" "f < 2 ^ 32" "n * f \<le> R * 2 ^ 32" "R * 2 ^ 32 < n * (f + 2)"
proof -
  have f: "f * 2 ^ 32 \<le> R * (2 ^ 63 div (n div 2))" "R * (2 ^ 63 div (n div 2)) < f * 2 ^ 32 + 2 ^ 32"
    using assms(4) by auto
  show "0 \<le> f" "f < 2 ^ 32" "n * f \<le> R * 2 ^ 32" "R * 2 ^ 32 < n * (f + 2)"
    using assms(1-3) f by auto
qed

section \<open>The conversion\<close>

lemma sint_small: "uint (w :: u64) < 2 ^ 63 \<Longrightarrow> sint w = uint w"
  by (simp add: sint_uint signed_take_bit_eq_if_positive bit_uint_iff take_bit_int_eq_self
      bit_iff_odd drop_bit_eq_div [symmetric] not_le)

lemma sint_of_int_pos: "0 \<le> x \<Longrightarrow> x < 2 ^ 63 \<Longrightarrow> sint (word_of_int x :: u64) = x"
  using sint_small [of "word_of_int x"] by (simp add: uint_word_of_int)

lemma sint_nonneg: "0 \<le> sint (w :: u64) \<Longrightarrow> uint w = sint w \<and> sint w < 2 ^ 63"
  using sint_lt [of w] uint_sint [of w] by (simp add: take_bit_int_eq_self)

lemma unit2sbintime_exact:
  assumes "0 \<le> sint data" "n = 1000 \<or> n = 1000000 \<or> n = 1000000000"
    and "r = sint (unit2sbintime n data)"
  shows "0 \<le> r" "r \<le> SBT_MAX"
    and "sint data div int n \<le> SBT_MAX div SBT_1S \<Longrightarrow> int n * r \<le> sint data * 2 ^ 32 \<and> sint data * 2 ^ 32 < int n * (r + 2)"
    and "sint data div int n > SBT_MAX div SBT_1S \<Longrightarrow> r = SBT_MAX"
proof -
  define D where "D = sint data"
  define R where "R = D mod int n"
  define S where "S = D div int n"
  have n: "0 < int n" using assms(2) by auto
  have D: "0 \<le> D" "D < 2 ^ 63" "data = word_of_int D"
    using assms(1) sint_nonneg [OF assms(1)] by (auto simp: D_def)
  have R: "0 \<le> R" "R < int n" and SR: "D = S * int n + R" and S: "0 \<le> S"
    using n D(1) by (simp_all add: R_def S_def pos_imp_zdiv_nonneg_iff)
  have S63: "S < 2 ^ 63"
    using assms(2) SR R S D by auto
  define f where "f = (R * (2 ^ 63 div (int n div 2))) div 2 ^ 32"
  have n': "int n = 1000 \<or> int n = 1000000 \<or> int n = 1000000000" using assms(2) by auto
  have f: "0 \<le> f" "f < 2 ^ 32" "int n * f \<le> R * 2 ^ 32" "R * 2 ^ 32 < int n * (f + 2)"
    using frac_bounds [OF R n' f_def] by auto
  have fw: "uint (FRAC_TO_SBT n (word_of_int R)) = f"
    using FRAC_uint [OF R assms(2)] by (simp add: f_def of_nat_div)
  have sS: "sint (word_of_int S :: u64) = S" "uint (word_of_int S :: u64) = S"
    using S S63 sint_small [of "word_of_int S"] by (simp_all add: uint_word_of_int)
  have r: "r = (if S \<le> 2147483647 then S * 2 ^ 32 + f else SBT_MAX)"
  proof (cases "D \<ge> int n")
    case True
    have "r = S * 2 ^ 32 + f" if "S \<le> 2147483647"
    proof -
      have "uint (push_bit 32 (word_of_int S) OR FRAC_TO_SBT n (word_of_int R)) = S * 2 ^ 32 + f"
        using that f S by (subst join_uint) (simp_all add: sS fw)
      then show ?thesis
        using that f S True sS assms(3) unfolding unit2sbintime_def D_def [symmetric] S_def [symmetric] R_def [symmetric]
        by (simp add: sint_small)
    qed
    then show ?thesis
      using True sS assms(3) unfolding unit2sbintime_def D_def [symmetric] S_def [symmetric] R_def [symmetric]
      by (simp add: sint_small)
  next
    case False
    then have "S = 0" "R = D"
      using D(1) by (simp_all add: S_def R_def)
    then show ?thesis
      using False assms(3) f(1,2) fw D(3) unfolding unit2sbintime_def D_def [symmetric]
      by (simp add: sint_small)
  qed
  have "S * 2 ^ 32 + f \<le> SBT_MAX" if "S \<le> 2147483647"
    using that f(2) by simp
  then show "0 \<le> r" "r \<le> SBT_MAX"
    using r S f(1) by auto
  have q: "SBT_MAX div SBT_1S = 2147483647"
    by simp
  show "int n * r \<le> sint data * 2 ^ 32 \<and> sint data * 2 ^ 32 < int n * (r + 2)"
    if "sint data div int n \<le> SBT_MAX div SBT_1S"
  proof -
    have "r = S * 2 ^ 32 + f"
      using that unfolding q D_def [symmetric] S_def [symmetric] r by simp
    then show ?thesis
      using f(3,4) unfolding D_def [symmetric] by (subst (1 2) SR) (simp add: algebra_simps)
  qed
  show "r = SBT_MAX" if "sint data div int n > SBT_MAX div SBT_1S"
    using that unfolding q D_def [symmetric] S_def [symmetric] r by simp
qed

lemma push_seconds:
  assumes "0 \<le> sint data" "sint data \<le> 2147483647"
  shows "sint (push_bit 32 data :: u64) = sint data * 2 ^ 32"
proof -
  have d: "uint data = sint data"
    using sint_nonneg [OF assms(1)] by simp
  then have "uint (push_bit 32 data) = sint data * 2 ^ 32"
    using assms uint_mult_lem [of data "2 ^ 32"] by (simp add: push_bit_eq_mult)
  then show ?thesis
    using assms(2) by (simp add: sint_small)
qed

text \<open>
  C13: The conversion of a non-negative timer value, in whichever unit its flags select,
  stays within \<open>0 .. SBT_MAX\<close>.  Up to 2147483647 seconds it is the exact number of
  units of 2^-32 seconds rounded down, off by less than two; beyond that it is \<open>SBT_MAX\<close>.
\<close>

theorem timer2sbintime_exact:
  assumes "0 \<le> sint data" "timer_hz flags = Some n"
  shows "0 \<le> timer2sbintime data flags \<and> timer2sbintime data flags \<le> SBT_MAX \<and>
    (if sint data div n \<le> 2147483647
     then n * timer2sbintime data flags \<le> sint data * 2 ^ 32 \<and>
          sint data * 2 ^ 32 < n * (timer2sbintime data flags + 2)
     else timer2sbintime data flags = SBT_MAX)"
proof -
  have unit: "0 \<le> r \<and> r \<le> SBT_MAX \<and>
      (if sint data div int m \<le> 2147483647 then int m * r \<le> sint data * 2 ^ 32 \<and> sint data * 2 ^ 32 < int m * (r + 2)
       else r = SBT_MAX)"
    if "r = sint (unit2sbintime m data)" "m = 1000 \<or> m = 1000000 \<or> m = 1000000000" for m r
    using unit2sbintime_exact [OF assms(1) that(2,1)] by simp
  have secs: "0 \<le> r \<and> r \<le> SBT_MAX \<and>
      (if sint data \<le> 2147483647 then r \<le> sint data * 2 ^ 32 \<and> sint data * 2 ^ 32 < r + 2 else r = SBT_MAX)"
    if "r = (if sint data > SBT_MAX div SBT_1S then SBT_MAX else sint (push_bit 32 data))" for r
    using that assms(1) push_seconds [OF assms(1)] by auto
  have "flags AND NOTE_TIMER_PRECMASK = NOTE_SECONDS \<and> n = 1 \<or>
      (flags AND NOTE_TIMER_PRECMASK = NOTE_MSECONDS \<or> flags AND NOTE_TIMER_PRECMASK = 0) \<and> n = int 1000 \<or>
      flags AND NOTE_TIMER_PRECMASK = NOTE_USECONDS \<and> n = int 1000000 \<or>
      flags AND NOTE_TIMER_PRECMASK = NOTE_NSECONDS \<and> n = int 1000000000"
    using assms(2) by (auto simp: timer_hz_def Let_def split: if_splits)
  then consider (s) "timer2sbintime data flags
        = (if sint data > SBT_MAX div SBT_1S then SBT_MAX else sint (push_bit 32 data))" "n = 1"
    | (u) m where "timer2sbintime data flags = sint (unit2sbintime m data)" "n = int m"
        "m = 1000 \<or> m = 1000000 \<or> m = 1000000000"
    unfolding timer2sbintime_def Let_def by fastforce
  then show ?thesis
  proof cases
    case s
    show ?thesis using secs [OF s(1)] s(2) by (simp split: if_splits)
  next
    case u
    show ?thesis using unit [OF u(1,3)] u(2) by (simp split: if_splits)
  qed
qed

theorem timer2sbintime_exact_witness:
  "1000 * timer2sbintime 2500 NOTE_MSECONDS \<le> 2500 * 2 ^ 32 \<and>
   2500 * 2 ^ 32 < 1000 * (timer2sbintime 2500 NOTE_MSECONDS + 2)"
  using timer2sbintime_exact [of 2500 NOTE_MSECONDS 1000] by (simp add: timer_hz_def)

section \<open>Expiry\<close>

text \<open>
  C14: When a periodic timer expires, its count goes up by one, its knote is activated, and
  the callout is set for exactly one period after the previous deadline, not after the
  time the routine happens to run.
\<close>

theorem filt_timerexpire_periodic:
  assumes "kq_notes (kqs s q) k = Some kn" "\<not> fl (kn_flags kn) EV_ONESHOT" "kn_to kn \<noteq> 0"
    and "0 \<le> kn_next kn + kn_to kn" "kn_next kn + kn_to kn \<le> SBT_MAX"
  shows "w_callout (k_w (filt_timerexpire (q, k) s)) (q, k) = Some (kn_next kn + kn_to kn) \<and>
    kn_next (kn_of (filt_timerexpire (q, k) s) (q, k)) = kn_next kn + kn_to kn \<and>
    kn_data (kn_of (filt_timerexpire (q, k) s) (q, k)) = kn_data kn + 1 \<and>
    KN_ACTIVE \<in> kn_status (kn_of (filt_timerexpire (q, k) s) (q, k))"
proof -
  have add: "sbt_add (kn_next kn) (kn_to kn) = kn_next kn + kn_to kn"
    unfolding sbt_add_def by (rule sint_of_int_pos) (use assms(4,5) in auto)
  have "kq_notes (kqs (kn_mod (q, k) (\<lambda>kn. set_data (kn_data kn + 1) kn)
      (w_upd (\<lambda>w. w\<lparr>w_callout := (w_callout w)((q, k) := None)\<rparr>) s)) q) k = Some (set_data (kn_data kn + 1) kn)"
    using assms(1) by (simp add: kn_mod_def w_upd_def)
  note act = kq_notes_activate [OF this]
  show ?thesis
    using assms(2,3) act
    by (simp add: filt_timerexpire_def Let_def kn_of_def kn_at_def kn_mod_def w_upd_def set_data_def st_set_def add)
qed

definition timer_kn :: knote where
  "timer_kn = zero_knote\<lparr>kn_fop := Timer_filtops, kn_next := 100, kn_to := 10\<rparr>"

definition timer_state :: kworld where
  "timer_state = kern0\<lparr>kqs := (\<lambda>_. kqueue_init\<lparr>kq_notes := [0 \<mapsto> timer_kn]\<rparr>)\<rparr>"

theorem filt_timerexpire_periodic_witness:
  "w_callout (k_w (filt_timerexpire (0, 0) timer_state)) (0, 0) = Some 110"
  using filt_timerexpire_periodic [of timer_state 0 0 timer_kn]
  by (simp add: timer_state_def timer_kn_def zero_knote_def EV_SET_def fl_def)

end
