(* ===== verification/Calendar.thy ===== *)
theory Calendar
  imports Prelude
begin

text \<open>
  Dates: the conversion between seconds since 1970 and year, month, day, hour, minute and
  second of \<^verbatim>\<open>sys/kern/subr_clock.c\<close>, in binary and in BCD.  The
  integers are unbounded here; the theorems on this component are for times before the year
  10000, where all values of the source fit their types.
\<close>

section \<open>The program\<close>

record clocktime =
  ct_year :: int
  ct_mon :: int
  ct_day :: int
  ct_hour :: int
  ct_min :: int
  ct_sec :: int
  ct_dow :: int
  ct_nsec :: int

record timespec =
  tv_sec :: int
  tv_nsec :: int

abbreviation SECDAY :: int where "SECDAY \<equiv> 86400"
abbreviation POSIX_BASE_YEAR :: int where "POSIX_BASE_YEAR \<equiv> 1970"

abbreviation recent_base_year :: int where "recent_base_year \<equiv> 2017"
abbreviation recent_base_days :: int where "recent_base_days \<equiv> 17167"

definition leapyear :: "int \<Rightarrow> int" where
  "leapyear year =
     (if year AND 3 = 0 then
        if cmod year 100 = 0 then (if cmod year 400 = 0 then 1 else 0) else 1
      else 0)"

definition days_in_year :: "int \<Rightarrow> int" where
  "days_in_year y = (if leapyear y \<noteq> 0 then 366 else 365)"

definition month_days :: "int list" where
  "month_days = [31, 28, 31, 30, 31, 30, 31, 31, 30, 31, 30, 31]"

text \<open>Only read for a month between 1 and 12.\<close>

definition days_in_month :: "int \<Rightarrow> int \<Rightarrow> int" where
  "days_in_month y m = month_days ! nat (m - 1) + (if m = 2 then leapyear y else 0)"

definition day_of_week :: "int \<Rightarrow> int" where
  "day_of_week days = cmod (days + 4) 7"

function add_years :: "int \<Rightarrow> int \<Rightarrow> int \<Rightarrow> int" where
  "add_years i year days = (if i < year then add_years (i + 1) year (days + days_in_year i) else days)"
  by pat_completeness auto
termination
  by (relation "measure (\<lambda>(i, year, days). nat (year - i))") auto

function add_months :: "int \<Rightarrow> int \<Rightarrow> int \<Rightarrow> int \<Rightarrow> int" where
  "add_months year i mon days =
     (if i < mon then add_months year (i + 1) mon (days + days_in_month year i) else days)"
  by pat_completeness auto
termination
  by (relation "measure (\<lambda>(year, i, mon, days). nat (mon - i))") auto

declare add_years.simps [simp del] add_months.simps [simp del]

definition clock_ct_to_ts :: "clocktime \<Rightarrow> int + timespec" where
  "clock_ct_to_ts ct =
     (let year = (if ct_year ct < 70 then ct_year ct + 2000
                  else if ct_year ct < 200 then ct_year ct + 1900 else ct_year ct)
      in if ct_mon ct < 1 \<or> ct_mon ct > 12 \<or> ct_day ct < 1 \<or> ct_day ct > days_in_month year (ct_mon ct) \<or>
            ct_hour ct > 23 \<or> ct_min ct > 59 \<or> ct_sec ct > 59 \<or> year < 1970
         then Inl EINVAL
         else
           let d0 = (if year \<ge> recent_base_year then add_years recent_base_year year recent_base_days
                     else add_years POSIX_BASE_YEAR year 0);
               days = add_months year 1 (ct_mon ct) d0 + (ct_day ct - 1)
           in Inr \<lparr>tv_sec = ((days * 24 + ct_hour ct) * 60 + ct_min ct) * 60 + ct_sec ct,
                   tv_nsec = ct_nsec ct\<rparr>)"

function sub_years :: "int \<Rightarrow> int \<Rightarrow> int \<times> int" where
  "sub_years year days =
     (if days \<ge> days_in_year year then sub_years (year + 1) (days - days_in_year year) else (year, days))"
  by pat_completeness auto
termination
  by (relation "measure (\<lambda>(year, days). nat days)") (auto simp: days_in_year_def split: if_splits)

text \<open>\<open>None\<close> stands for a read behind the end of the table of months.\<close>

function sub_months :: "int \<Rightarrow> int \<Rightarrow> int \<Rightarrow> (int \<times> int) option" where
  "sub_months year i days =
     (if i > 12 then None
      else if days \<ge> days_in_month year i then sub_months year (i + 1) (days - days_in_month year i)
      else Some (i, days))"
  by pat_completeness auto
termination
  by (relation "measure (\<lambda>(year, i, days). nat (13 - i))") auto

declare sub_years.simps [simp del] sub_months.simps [simp del]

definition clock_ts_to_ct :: "timespec \<Rightarrow> clocktime option" where
  "clock_ts_to_ct ts =
     (let secs = tv_sec ts; days = cdiv secs SECDAY; rsec = cmod secs SECDAY;
          (year, d1) = (if days \<ge> recent_base_days then sub_years recent_base_year (days - recent_base_days)
                        else sub_years POSIX_BASE_YEAR days)
      in case sub_months year 1 d1 of
           None \<Rightarrow> None
         | Some (mon, d2) \<Rightarrow>
             Some \<lparr>ct_year = year, ct_mon = mon, ct_day = d2 + 1, ct_hour = cdiv rsec 3600,
                   ct_min = cdiv (cmod rsec 3600) 60, ct_sec = cmod (cmod rsec 3600) 60,
                   ct_dow = day_of_week days, ct_nsec = tv_nsec ts\<rparr>)"

section \<open>BCD\<close>

definition bcd2bin_data :: "int list" where
  "bcd2bin_data = [
     0, 1, 2, 3, 4, 5, 6, 7, 8, 9, 0, 0, 0, 0, 0, 0,
     10, 11, 12, 13, 14, 15, 16, 17, 18, 19, 0, 0, 0, 0, 0, 0,
     20, 21, 22, 23, 24, 25, 26, 27, 28, 29, 0, 0, 0, 0, 0, 0,
     30, 31, 32, 33, 34, 35, 36, 37, 38, 39, 0, 0, 0, 0, 0, 0,
     40, 41, 42, 43, 44, 45, 46, 47, 48, 49, 0, 0, 0, 0, 0, 0,
     50, 51, 52, 53, 54, 55, 56, 57, 58, 59, 0, 0, 0, 0, 0, 0,
     60, 61, 62, 63, 64, 65, 66, 67, 68, 69, 0, 0, 0, 0, 0, 0,
     70, 71, 72, 73, 74, 75, 76, 77, 78, 79, 0, 0, 0, 0, 0, 0,
     80, 81, 82, 83, 84, 85, 86, 87, 88, 89, 0, 0, 0, 0, 0, 0,
     90, 91, 92, 93, 94, 95, 96, 97, 98, 99]"

definition bin2bcd_data :: "int list" where
  "bin2bcd_data = [
     0x00, 0x01, 0x02, 0x03, 0x04, 0x05, 0x06, 0x07, 0x08, 0x09,
     0x10, 0x11, 0x12, 0x13, 0x14, 0x15, 0x16, 0x17, 0x18, 0x19,
     0x20, 0x21, 0x22, 0x23, 0x24, 0x25, 0x26, 0x27, 0x28, 0x29,
     0x30, 0x31, 0x32, 0x33, 0x34, 0x35, 0x36, 0x37, 0x38, 0x39,
     0x40, 0x41, 0x42, 0x43, 0x44, 0x45, 0x46, 0x47, 0x48, 0x49,
     0x50, 0x51, 0x52, 0x53, 0x54, 0x55, 0x56, 0x57, 0x58, 0x59,
     0x60, 0x61, 0x62, 0x63, 0x64, 0x65, 0x66, 0x67, 0x68, 0x69,
     0x70, 0x71, 0x72, 0x73, 0x74, 0x75, 0x76, 0x77, 0x78, 0x79,
     0x80, 0x81, 0x82, 0x83, 0x84, 0x85, 0x86, 0x87, 0x88, 0x89,
     0x90, 0x91, 0x92, 0x93, 0x94, 0x95, 0x96, 0x97, 0x98, 0x99]"

definition bcd2bin :: "int \<Rightarrow> int" where
  "bcd2bin bcd = bcd2bin_data ! nat bcd"

definition bin2bcd :: "int \<Rightarrow> int" where
  "bin2bcd bin = bin2bcd_data ! nat bin"

definition validbcd :: "int \<Rightarrow> bool" where
  "validbcd bcd \<longleftrightarrow> bcd = 0 \<or> (bcd > 0 \<and> bcd \<le> 0x99 \<and> bcd2bin_data ! nat bcd \<noteq> 0)"

record bcd_clocktime =
  bct_year :: int
  bct_mon :: int
  bct_day :: int
  bct_hour :: int
  bct_min :: int
  bct_sec :: int
  bct_dow :: int
  bct_nsec :: int
  bct_ispm :: bool

definition clock_bcd_to_ts :: "bcd_clocktime \<Rightarrow> bool \<Rightarrow> int + timespec" where
  "clock_bcd_to_ts bct ampm =
     (let bcent = drop_bit 8 (bct_year bct); byear = bct_year bct AND 0xff
      in if \<not> validbcd bcent \<or> \<not> validbcd byear \<or> \<not> validbcd (bct_mon bct) \<or> \<not> validbcd (bct_day bct) \<or>
            \<not> validbcd (bct_hour bct) \<or> \<not> validbcd (bct_min bct) \<or> \<not> validbcd (bct_sec bct)
         then Inl EINVAL
         else
           let h = bcd2bin (bct_hour bct);
               h1 = (if ampm \<and> h = 12 then 0 else h);
               h2 = (if ampm \<and> bct_ispm bct then h1 + 12 else h1)
           in clock_ct_to_ts
                \<lparr>ct_year = bcd2bin byear + bcd2bin bcent * 100, ct_mon = bcd2bin (bct_mon bct),
                 ct_day = bcd2bin (bct_day bct), ct_hour = h2, ct_min = bcd2bin (bct_min bct),
                 ct_sec = bcd2bin (bct_sec bct), ct_dow = bct_dow bct, ct_nsec = bct_nsec bct\<rparr>)"

text \<open>\<open>None\<close> also stands for a year whose century is behind the end of the table.\<close>

definition clock_ts_to_bcd :: "timespec \<Rightarrow> bool \<Rightarrow> bcd_clocktime option" where
  "clock_ts_to_bcd ts ampm =
     (case clock_ts_to_ct ts of
        None \<Rightarrow> None
      | Some ct \<Rightarrow>
          let ispm = (ampm \<and> ct_hour ct \<ge> 12);
              h1 = (if ispm then ct_hour ct - 12 else ct_hour ct);
              h2 = (if ampm \<and> h1 = 0 then 12 else h1)
          in if cdiv (ct_year ct) 100 > 99 then None
             else Some
               \<lparr>bct_year = bin2bcd (cmod (ct_year ct) 100) OR push_bit 8 (bin2bcd (cdiv (ct_year ct) 100)),
                bct_mon = bin2bcd (ct_mon ct), bct_day = bin2bcd (ct_day ct), bct_hour = bin2bcd h2,
                bct_min = bin2bcd (ct_min ct), bct_sec = bin2bcd (ct_sec ct),
                bct_dow = ct_dow ct, bct_nsec = ct_nsec ct, bct_ispm = ispm\<rparr>)"

section \<open>Years\<close>

lemma and_3: "(y::int) AND 3 = y mod 4"
proof -
  have "y AND mask 2 = y mod 2 ^ 2"
    by (simp only: take_bit_eq_mask [symmetric] take_bit_eq_mod)
  then show ?thesis
    by (simp add: mask_eq_exp_minus_1)
qed

lemma leapyear_iff:
  "0 \<le> y \<Longrightarrow> leapyear y = (if 4 dvd y \<and> (\<not> 100 dvd y \<or> 400 dvd y) then 1 else 0)"
  by (simp add: leapyear_def and_3 cmod_pos mod_eq_0_iff_dvd)

text \<open>The first day of a year, counted from the first day of 1970, in closed form.\<close>

definition year_start :: "int \<Rightarrow> int" where
  "year_start y = 365 * (y - 1970) + (y - 1) div 4 - (y - 1) div 100 + (y - 1) div 400 - 477"

lemma year_start_base [simp]: "year_start 1970 = 0" "year_start 2017 = 17167"
  by (simp_all add: year_start_def)

lemma div_step: "(0::int) < n \<Longrightarrow> y div n = (y - 1) div n + (if n dvd y then 1 else 0)"
proof -
  assume n: "0 < n"
  have "y - 1 = (y mod n - 1) + y div n * n"
    by simp
  then have "(y - 1) div n = y div n + (y mod n - 1) div n"
    using n by (metis add.commute div_mult_self1 less_irrefl)
  moreover have "(y mod n - 1) div n = (if n dvd y then -1 else 0)"
  proof (cases "n dvd y")
    case True
    then show ?thesis
      using n by (simp add: div_eq_minus1)
  next
    case False
    then have "0 < y mod n" "y mod n < n"
      using n pos_mod_sign [OF n, of y] pos_mod_bound [OF n, of y] by (auto simp: dvd_eq_mod_eq_0 less_le)
    then show ?thesis
      using False by (simp add: div_pos_pos_trivial)
  qed
  ultimately show ?thesis
    by simp
qed

lemma leap_sum:
  "(q \<longrightarrow> p) \<Longrightarrow> (r \<longrightarrow> q) \<Longrightarrow>
   365 * (y + 1 - 1970) + (a + (if p then 1 else 0)) - (b + (if q then 1 else 0)) + (c + (if r then 1 else 0)) - 477 =
   365 * (y - 1970) + a - b + c - 477 + (if (if p \<and> (\<not> q \<or> r) then 1 else 0) \<noteq> (0::int) then 366 else 365)" for y :: int
  by (cases p; cases q; cases r) simp_all

lemma year_start_Suc:
  assumes "0 \<le> y"
  shows "year_start (y + 1) = year_start y + days_in_year y"
proof -
  have "100 dvd y \<longrightarrow> 4 dvd y" "400 dvd y \<longrightarrow> 100 dvd y"
    using dvd_trans [of 4 100 y] dvd_trans [of 100 400 y] by simp_all
  note leap_sum [OF this]
  moreover have "year_start (y + 1) = 365 * (y + 1 - 1970) + y div 4 - y div 100 + y div 400 - 477"
    by (simp only: year_start_def add_diff_cancel_right')
  ultimately show ?thesis
    unfolding year_start_def days_in_year_def leapyear_iff [OF assms] div_step [of 4 y, OF zero_less_numeral]
      div_step [of 100 y, OF zero_less_numeral] div_step [of 400 y, OF zero_less_numeral] by metis
qed



lemma add_years_sum: "0 \<le> i \<Longrightarrow> i \<le> year \<Longrightarrow> add_years i year days = days + year_start year - year_start i"
proof (induction i year days rule: add_years.induct)
  case (1 i year days)
  then show ?case
    by (cases "i < year") (simp_all add: add_years.simps [of i] add_years.simps [of year] year_start_Suc)
qed

definition in_year :: "int \<Rightarrow> int \<Rightarrow> bool" where
  "in_year y d \<longleftrightarrow> 0 \<le> d \<and> d < days_in_year y"

lemma sub_years_sum:
  "0 \<le> year \<Longrightarrow> 0 \<le> days \<Longrightarrow> sub_years year days = (y, d) \<Longrightarrow>
   year \<le> y \<and> in_year y d \<and> year_start y + d = year_start year + days"
proof (induction year days rule: sub_years.induct)
  case (1 year days)
  show ?case
  proof (cases "days_in_year year \<le> days")
    case True
    then show ?thesis
      using 1 by (simp add: sub_years.simps [of year] year_start_Suc)
  next
    case False
    then show ?thesis
      using "1.prems" by (simp add: sub_years.simps [of year] in_year_def)
  qed
qed


section \<open>Months\<close>

lemma month_cases:
  "1 \<le> m \<Longrightarrow> m \<le> 12 \<Longrightarrow> m \<in> {1, 2, 3, 4, 5, 6, 7, 8, 9, 10, 11, 12 :: int}"
  by simp arith

lemma leapyear_01: "leapyear y = 0 \<or> leapyear y = 1"
  by (simp add: leapyear_def)

lemma days_in_month_pos: "1 \<le> m \<Longrightarrow> m \<le> 12 \<Longrightarrow> 28 \<le> days_in_month y m \<and> days_in_month y m \<le> 31"
  using month_cases [of m] leapyear_01 [of y] by (auto simp: days_in_month_def month_days_def)

lemma sum_months: "(\<Sum>j \<in> {1..12}. days_in_month y j) = days_in_year y"
proof -
  have "{1..12::int} = {1, 2, 3, 4, 5, 6, 7, 8, 9, 10, 11, 12}"
    by (auto dest: month_cases)
  then show ?thesis
    using leapyear_01 [of y] by (auto simp: days_in_month_def month_days_def days_in_year_def)
qed

lemma add_months_shift: "add_months year i mon (x + y) = x + add_months year i mon y"
proof (induction year i mon y arbitrary: x rule: add_months.induct)
  case (1 year i mon days)
  then show ?case
    by (cases "i < mon") (simp_all add: add_months.simps [of year i] add.assoc)
qed

lemma add_months_step:
  "i < mon \<Longrightarrow> add_months year i mon 0 = days_in_month year i + add_months year (i + 1) mon 0"
  using add_months_shift [of year "i + 1" mon "days_in_month year i" 0] by (simp add: add_months.simps [of year i])

definition in_month :: "int \<Rightarrow> int \<Rightarrow> int \<Rightarrow> bool" where
  "in_month y m d \<longleftrightarrow> 1 \<le> m \<and> m \<le> 12 \<and> 0 \<le> d \<and> d < days_in_month y m"

lemma sub_months_sum:
  "1 \<le> i \<Longrightarrow> 0 \<le> days \<Longrightarrow> days < (\<Sum>j \<in> {i..12}. days_in_month year j) \<Longrightarrow>
   \<exists>m d. sub_months year i days = Some (m, d) \<and> i \<le> m \<and> in_month year m d \<and> add_months year i m 0 + d = days"
proof (induction year i days rule: sub_months.induct)
  case (1 year i days)
  then have i: "i \<le> 12"
    by (cases "i \<le> 12") auto
  show ?case
  proof (cases "days_in_month year i \<le> days")
    case True
    have "{i..12} = insert i {i + 1..12}"
      using i by auto
    then have "(\<Sum>j \<in> {i..12}. days_in_month year j) = days_in_month year i + (\<Sum>j \<in> {i + 1..12}. days_in_month year j)"
      by simp
    then obtain m d where "sub_months year (i + 1) (days - days_in_month year i) = Some (m, d)" "i + 1 \<le> m"
      "in_month year m d" "add_months year (i + 1) m 0 + d = days - days_in_month year i"
      using 1 i True by auto
    then show ?thesis
      using True i by (auto simp: sub_months.simps [of year i] add_months_step)
  next
    case False
    then show ?thesis
      using "1.prems" i by (auto simp: sub_months.simps [of year i] in_month_def add_months.simps [of year i])
  qed
qed




section \<open>Round trips\<close>

text \<open>A date with a year of four digits and every field in its range.\<close>

definition valid_ct :: "clocktime \<Rightarrow> bool" where
  "valid_ct ct \<longleftrightarrow> 1970 \<le> ct_year ct \<and> in_month (ct_year ct) (ct_mon ct) (ct_day ct - 1) \<and>
     0 \<le> ct_hour ct \<and> ct_hour ct \<le> 23 \<and> 0 \<le> ct_min ct \<and> ct_min ct \<le> 59 \<and> 0 \<le> ct_sec ct \<and> ct_sec ct \<le> 59"

definition ct_days :: "clocktime \<Rightarrow> int" where
  "ct_days ct = year_start (ct_year ct) + add_months (ct_year ct) 1 (ct_mon ct) 0 + (ct_day ct - 1)"


lemma ct_to_ts_valid:
  assumes "valid_ct ct"
  shows "clock_ct_to_ts ct = Inr \<lparr>tv_sec = ((ct_days ct * 24 + ct_hour ct) * 60 + ct_min ct) * 60 + ct_sec ct,
    tv_nsec = ct_nsec ct\<rparr>"
proof -
  have d0: "recent_base_year \<le> ct_year ct \<Longrightarrow> add_years recent_base_year (ct_year ct) recent_base_days = year_start (ct_year ct)"
    "add_years POSIX_BASE_YEAR (ct_year ct) 0 = year_start (ct_year ct)"
    using assms by (simp_all add: valid_ct_def add_years_sum)
  have "add_months (ct_year ct) 1 (ct_mon ct) (year_start (ct_year ct)) =
      year_start (ct_year ct) + add_months (ct_year ct) 1 (ct_mon ct) 0"
    using add_months_shift [of _ _ _ "year_start (ct_year ct)" 0] by simp
  then show ?thesis
    using assms unfolding clock_ct_to_ts_def Let_def
    by (auto simp: d0 ct_days_def valid_ct_def in_month_def)
qed

lemma ts_to_ct_valid:
  assumes "0 \<le> tv_sec ts"
  shows "\<exists>ct. clock_ts_to_ct ts = Some ct \<and> valid_ct ct \<and> ct_days ct = tv_sec ts div SECDAY \<and>
    (ct_hour ct * 60 + ct_min ct) * 60 + ct_sec ct = tv_sec ts mod SECDAY \<and> ct_nsec ct = tv_nsec ts \<and>
    ct_dow ct = (tv_sec ts div SECDAY + 4) mod 7"
proof -
  define days where "days = tv_sec ts div SECDAY"
  define rsec where "rsec = tv_sec ts mod SECDAY"
  have d: "0 \<le> days" "0 \<le> rsec" "rsec < SECDAY" "cdiv (tv_sec ts) SECDAY = days" "cmod (tv_sec ts) SECDAY = rsec"
    using assms by (simp_all add: days_def rsec_def cdiv_pos cmod_pos pos_imp_zdiv_nonneg_iff)
  obtain year d1 where y: "(if days \<ge> recent_base_days then sub_years recent_base_year (days - recent_base_days)
      else sub_years POSIX_BASE_YEAR days) = (year, d1)"
    by fastforce
  have yr: "1970 \<le> year" "in_year year d1" "year_start year + d1 = days"
    using y d(1) sub_years_sum [of recent_base_year "days - recent_base_days" year d1]
      sub_years_sum [of POSIX_BASE_YEAR days year d1] by (auto split: if_splits)
  then obtain mon d2 where m: "sub_months year 1 d1 = Some (mon, d2)" "in_month year mon d2" "add_months year 1 mon 0 + d2 = d1"
    using sub_months_sum [of 1 d1 year] by (auto simp: in_year_def sum_months)
  have r: "0 \<le> rsec div 3600" "rsec div 3600 \<le> 23" "0 \<le> rsec mod 3600" "rsec mod 3600 < 3600"
    using d(2,3) by (auto simp: pos_imp_zdiv_nonneg_iff)
  then have r2: "0 \<le> rsec mod 3600 div 60" "rsec mod 3600 div 60 \<le> 59"
    by (auto simp: pos_imp_zdiv_nonneg_iff)
  have s: "(rsec div 3600 * 60 + rsec mod 3600 div 60) * 60 + rsec mod 3600 mod 60 = rsec"
    by simp
  have "clock_ts_to_ct ts = Some \<lparr>ct_year = year, ct_mon = mon, ct_day = d2 + 1, ct_hour = rsec div 3600,
      ct_min = rsec mod 3600 div 60, ct_sec = rsec mod 3600 mod 60, ct_dow = (days + 4) mod 7, ct_nsec = tv_nsec ts\<rparr>"
    (is "_ = Some ?ct")
    unfolding clock_ts_to_ct_def Let_def d(4,5) y prod.case m(1) option.case
    using r d(1,2) by (simp add: cdiv_pos cmod_pos day_of_week_def)
  moreover have "valid_ct ?ct"
    using yr(1) m(2) r r2 by (simp add: valid_ct_def)
  moreover have "ct_days ?ct = days"
    using yr(3) m(3) by (simp add: ct_days_def)
  moreover have "(ct_hour ?ct * 60 + ct_min ?ct) * 60 + ct_sec ?ct = rsec"
    unfolding clocktime.select_convs by (rule s)
  ultimately show ?thesis
    unfolding days_def [symmetric] rsec_def [symmetric] by (metis clocktime.select_convs(7,8))
qed

lemma ts_ct_ts:
  assumes "0 \<le> tv_sec ts"
  shows "\<exists>ct. clock_ts_to_ct ts = Some ct \<and> valid_ct ct \<and> clock_ct_to_ts ct = Inr ts"
proof -
  obtain ct where ct: "clock_ts_to_ct ts = Some ct" "valid_ct ct" "ct_days ct = tv_sec ts div SECDAY"
    "(ct_hour ct * 60 + ct_min ct) * 60 + ct_sec ct = tv_sec ts mod SECDAY" "ct_nsec ct = tv_nsec ts"
    using ts_to_ct_valid [OF assms] by blast
  have "((ct_days ct * 24 + ct_hour ct) * 60 + ct_min ct) * 60 + ct_sec ct = SECDAY * (tv_sec ts div SECDAY) + tv_sec ts mod SECDAY"
    unfolding ct(3,4) [symmetric] by simp
  also have "\<dots> = tv_sec ts"
    by (rule mult_div_mod_eq)
  finally show ?thesis
    using ct(1,2,5) ct_to_ts_valid [OF ct(2)] by simp
qed





text \<open>
  The header of the program says that a value out of range is refused.  A negative hour is
  not: it is taken as a time of the day before.
\<close>

theorem clock_negative_hour:
  "clock_ct_to_ts \<lparr>ct_year = 1970, ct_mon = 1, ct_day = 2, ct_hour = -1, ct_min = 0, ct_sec = 0, ct_dow = 0, ct_nsec = 0\<rparr>
     = Inr \<lparr>tv_sec = 82800, tv_nsec = 0\<rparr>"
  by (simp add: clock_ct_to_ts_def days_in_month_def month_days_def add_years.simps add_months.simps)

section \<open>BCD round trip\<close>

lemma bcd_tables:
  "list_all (\<lambda>n. bin2bcd_data ! n < 256 \<and> 0 \<le> bin2bcd_data ! n \<and> validbcd (bin2bcd_data ! n) \<and>
     bcd2bin (bin2bcd_data ! n) = int n) [0 ..< 100]"
  by code_simp

lemma bin2bcd_ok:
  assumes "0 \<le> n" "n < 100"
  shows "0 \<le> bin2bcd n" "bin2bcd n < 256" "validbcd (bin2bcd n)" "bcd2bin (bin2bcd n) = n"
proof -
  have "nat n \<in> set [0 ..< 100]"
    using assms by auto
  with bcd_tables show "0 \<le> bin2bcd n" "bin2bcd n < 256" "validbcd (bin2bcd n)" "bcd2bin (bin2bcd n) = n"
    using assms(1) unfolding list_all_iff bin2bcd_def by (metis nat_0_le)+
qed

lemma split_year:
  fixes a b :: int
  assumes "0 \<le> a" "a < 256"
  shows "drop_bit 8 (a OR push_bit 8 b) = b" "(a OR push_bit 8 b) AND 0xff = a"
proof -
  have a: "take_bit 8 a = a"
    using assms by (simp add: take_bit_int_eq_self_iff)
  then have "drop_bit 8 a = 0"
    by (metis drop_bit_take_bit diff_self_eq_0 take_bit_0)
  then show "drop_bit 8 (a OR push_bit 8 b) = b"
    by (simp add: drop_bit_or drop_bit_push_bit_int)
  have "(a OR push_bit 8 b) AND mask 8 = a"
    using a by (simp add: take_bit_eq_mask [symmetric] take_bit_or take_bit_push_bit)
  then show "(a OR push_bit 8 b) AND 0xff = a"
    by (simp add: mask_eq_exp_minus_1)
qed

text \<open>
  C32: The BCD forms are faithful: every time from 1970 to the end of 9999 has a BCD date, in
  12-hour and in 24-hour form, and \<open>clock_bcd_to_ts\<close> takes it back to the same time.
\<close>

theorem clock_bcd_roundtrip:
  assumes "0 \<le> tv_sec ts" "ct_year (the (clock_ts_to_ct ts)) < 10000"
  shows "\<exists>bct. clock_ts_to_bcd ts ampm = Some bct \<and> clock_bcd_to_ts bct ampm = Inr ts"
proof -
  obtain ct where ct: "clock_ts_to_ct ts = Some ct" "valid_ct ct" "clock_ct_to_ts ct = Inr ts"
    using ts_ct_ts [OF assms(1)] by blast
  have v: "1970 \<le> ct_year ct" "ct_year ct < 10000" "1 \<le> ct_mon ct" "ct_mon ct \<le> 12" "1 \<le> ct_day ct" "ct_day ct \<le> 31"
    "0 \<le> ct_hour ct" "ct_hour ct \<le> 23" "0 \<le> ct_min ct" "ct_min ct \<le> 59" "0 \<le> ct_sec ct" "ct_sec ct \<le> 59"
    using ct(1,2) assms(2) days_in_month_pos [of "ct_mon ct" "ct_year ct"] by (auto simp: valid_ct_def in_month_def)
  have y: "0 \<le> ct_year ct mod 100" "ct_year ct mod 100 < 100" "0 \<le> ct_year ct div 100" "ct_year ct div 100 < 100"
    using v(1,2) by (auto simp: pos_imp_zdiv_nonneg_iff)
  note bcd = bin2bcd_ok [OF y(1,2)] bin2bcd_ok [OF y(3,4)]
  define h where "h = (if ampm then if ct_hour ct = 0 \<or> ct_hour ct = 12 then 12 else ct_hour ct mod 12 else ct_hour ct)"
  have h: "0 \<le> h" "h < 100"
    using v(7,8) by (auto simp: h_def)
  define bct where "bct = \<lparr>bct_year = bin2bcd (ct_year ct mod 100) OR push_bit 8 (bin2bcd (ct_year ct div 100)),
    bct_mon = bin2bcd (ct_mon ct), bct_day = bin2bcd (ct_day ct), bct_hour = bin2bcd h, bct_min = bin2bcd (ct_min ct),
    bct_sec = bin2bcd (ct_sec ct), bct_dow = ct_dow ct, bct_nsec = ct_nsec ct, bct_ispm = (ampm \<and> ct_hour ct \<ge> 12)\<rparr>"
  have m12: "ct_hour ct mod 12 = (if ct_hour ct < 12 then ct_hour ct else ct_hour ct - 12)"
    using v(7,8) mod_pos_pos_trivial [of "ct_hour ct - 12" 12] by (auto simp: mod_diff_right_eq [of _ 12 12, symmetric] intro: mod_pos_pos_trivial) 
  have "clock_ts_to_bcd ts ampm = Some bct"
    using ct(1) v(1) y(4) m12 by (auto simp: clock_ts_to_bcd_def bct_def h_def Let_def cdiv_pos cmod_pos)
  moreover have "clock_bcd_to_ts bct ampm = clock_ct_to_ts ct"
  proof -
    have hour: "(if ampm \<and> 12 \<le> ct_hour ct then (if ampm \<and> h = 12 then 0 else h) + 12 else if ampm \<and> h = 12 then 0 else h) = ct_hour ct"
      using m12 v(7,8) by (auto simp: h_def)
    have ok: "validbcd (bin2bcd n)" "bcd2bin (bin2bcd n) = n" if "n \<in> {ct_mon ct, ct_day ct, h, ct_min ct, ct_sec ct}" for n
      using that v h bin2bcd_ok [of n] by auto
    have "clock_bcd_to_ts bct ampm = clock_ct_to_ts \<lparr>ct_year = ct_year ct mod 100 + ct_year ct div 100 * 100, ct_mon = ct_mon ct,
        ct_day = ct_day ct, ct_hour = ct_hour ct, ct_min = ct_min ct, ct_sec = ct_sec ct, ct_dow = ct_dow ct, ct_nsec = ct_nsec ct\<rparr>"
      unfolding clock_bcd_to_ts_def bct_def Let_def bcd_clocktime.select_convs split_year [OF bcd(1,2)]
      using hour by (auto simp: ok bcd split: if_splits)
    also have "\<lparr>ct_year = ct_year ct mod 100 + ct_year ct div 100 * 100, ct_mon = ct_mon ct, ct_day = ct_day ct,
        ct_hour = ct_hour ct, ct_min = ct_min ct, ct_sec = ct_sec ct, ct_dow = ct_dow ct, ct_nsec = ct_nsec ct\<rparr> = ct"
      by simp
    finally show ?thesis .
  qed
  ultimately show ?thesis
    using ct(3) by simp
qed

theorem clock_bcd_roundtrip_witness:
  "\<exists>bct. clock_ts_to_bcd \<lparr>tv_sec = 86399, tv_nsec = 0\<rparr> True = Some bct \<and>
     clock_bcd_to_ts bct True = Inr \<lparr>tv_sec = 86399, tv_nsec = 0\<rparr>"
  by (rule clock_bcd_roundtrip)
    (simp_all add: clock_ts_to_ct_def Let_def cdiv_pos cmod_pos sub_years.simps sub_months.simps days_in_year_def leapyear_iff
      days_in_month_def month_days_def)

end
