(* ===== verification/Kqueue_Copy.thy ===== *)
theory Kqueue_Copy
  imports Kqueue "HOL-Library.Sublist"
begin

text \<open>
  How much a \<open>kevent\<close> call writes to the caller's event list.  The bound does not rest on
  the filters or on the state of the kqueue.
\<close>

text \<open>Copy routines that never fail; \<open>lg\<close> is what has been copied out.\<close>

definition copy_total :: "'u copyops \<Rightarrow> ('u \<Rightarrow> kevent list) \<Rightarrow> bool" where
  "copy_total cops lg \<longleftrightarrow>
     (\<forall>evs u. fst (k_copyout cops evs u) = 0 \<and> lg (snd (k_copyout cops evs u)) = lg u @ evs) \<and>
     (\<forall>n u. lg (snd (snd (k_copyin cops n u))) = lg u)"

definition wrote :: "('u \<Rightarrow> kevent list) \<Rightarrow> int \<Rightarrow> 'u \<Rightarrow> kevent list \<Rightarrow> 'u \<Rightarrow> kevent list \<Rightarrow> bool" where
  "wrote lg n u keva u' keva' \<longleftrightarrow>
     prefix (lg u) (lg u') \<and> int (length (lg u') + length keva') = int (length (lg u) + length keva) + n"

lemma wrote_refl: "wrote lg 0 u keva u keva"
  by (simp add: wrote_def)

lemma wrote_trans:
  "wrote lg n u keva v kevb \<Longrightarrow> wrote lg m v kevb u' keva' \<Longrightarrow> n + m = l \<Longrightarrow> wrote lg l u keva u' keva'"
  by (auto simp: wrote_def intro: prefix_order.trans)

lemma copy_totalD:
  "copy_total cops lg \<Longrightarrow> k_copyout cops evs u = (e, u') \<Longrightarrow> e = 0 \<and> lg u' = lg u @ evs"
  "copy_total cops lg \<Longrightarrow> k_copyin cops n u = (e, evs', u') \<Longrightarrow> lg u' = lg u"
  unfolding copy_total_def by (metis fst_conv snd_conv)+

definition loop_wrote ::
    "('u \<Rightarrow> kevent list) \<Rightarrow> int \<Rightarrow> kevent list \<Rightarrow> 'u \<Rightarrow> scanout \<times> int \<times> kevent list \<times> 'u \<times> 'w kern \<Rightarrow> bool" where
  "loop_wrote lg count keva u r \<longleftrightarrow>
     (case r of (out, count', keva', u', s') \<Rightarrow>
        wrote lg (count - count') u keva u' keva' \<and> 0 \<le> count' \<and> count' \<le> count \<and>
        (\<forall>e. out = Sc_end e \<longrightarrow> e = 0))"

lemma loop_wrote_end [simp]:
  "loop_wrote lg count keva u (out, count, keva, u, s) \<longleftrightarrow> 0 \<le> count \<and> (\<forall>e. out = Sc_end e \<longrightarrow> e = 0)"
  by (simp add: loop_wrote_def wrote_refl)

lemma loop_wrote_step:
  "loop_wrote lg (count - 1) keva1 u1 r \<Longrightarrow> wrote lg 1 u keva u1 keva1 \<Longrightarrow> loop_wrote lg count keva u r"
  unfolding loop_wrote_def by (auto split: prod.splits elim: wrote_trans)

lemma scan_loop_wrote:
  assumes "copy_total cops lg" "0 \<le> count"
  shows "loop_wrote lg count keva u (kqueue_scan_loop fuel ops cops q m count influx keva u s)"
  using assms(2)
proof (induction fuel arbitrary: count influx keva u s)
  case 0
  then show ?case
    by (simp add: loop_wrote_def wrote_refl)
next
  case (Suc fuel)
  note IH = Suc.IH
  have cp: "e = 0 \<and> wrote lg 1 u keva u1 []" if "k_copyout cops (keva @ [kev]) u = (e, u1)" for kev e u1
    using copy_totalD(1) [OF assms(1) that] by (simp add: wrote_def)
  have "loop_wrote lg count keva u (kqueue_scan_loop fuel ops cops q m (count - 1) i (keva @ [kev]) u s1)"
    if "count \<noteq> 0" for i kev s1
    using that Suc.prems by (intro loop_wrote_step [OF IH]) (auto simp: wrote_def)
  moreover have "loop_wrote lg count keva u (kqueue_scan_loop fuel ops cops q m (count - 1) i [] u1 s1)"
    if "count \<noteq> 0" "wrote lg 1 u keva u1 []" for i u1 s1
    using that Suc.prems by (intro loop_wrote_step [OF IH]) auto
  moreover have "loop_wrote lg count keva u (kqueue_scan_loop fuel ops cops q m count i keva u s1)" for i s1
    using IH Suc.prems .
  ultimately show ?case
    using Suc.prems
    by (auto simp: Let_def split: list.split qent.split prod.split option.split dest!: cp)
qed

definition scan_wrote :: "('u \<Rightarrow> kevent list) \<Rightarrow> int \<Rightarrow> 'u \<Rightarrow> scanres \<times> int \<times> kevent list \<times> 'u \<times> 'w kern \<Rightarrow> bool" where
  "scan_wrote lg maxevents u r \<longleftrightarrow>
     (case r of (out, count', keva', u', s') \<Rightarrow> wrote lg (maxevents - count') u [] u' keva' \<and> 0 \<le> count')"

lemma wrote_none: "wrote lg 0 u [] u' keva \<Longrightarrow> lg u' = lg u \<and> keva = []"
  unfolding wrote_def prefix_def by (auto simp flip: of_nat_add)

lemma scan_retry_wrote:
  assumes "copy_total cops lg" "0 \<le> maxevents"
  shows "scan_wrote lg maxevents u (kqueue_scan_retry passes ops cops q m maxevents asbt u s)"
proof (induction passes arbitrary: u s)
  case 0
  then show ?case
    using assms(2) by (simp add: scan_wrote_def wrote_refl)
next
  case (Suc passes)
  have again: "scan_wrote lg maxevents u (kqueue_scan_retry passes ops cops q m maxevents asbt u1 s1)"
    if "wrote lg 0 u [] u1 keva" for u1 s1 keva
    using Suc [of u1 s1] wrote_none [OF that] by (auto simp: scan_wrote_def wrote_def split: prod.splits)
  define s1 where "s1 = kq_upd q (\<lambda>kq. kq\<lparr>kq_head := kq_head kq @ [QMark m]\<rparr>) s"
  obtain out count keva u1 s2 where
    l: "kqueue_scan_loop (length (kq_head (kqs s1 q)) + 1) ops cops q m maxevents False [] u s1 = (out, count, keva, u1, s2)"
    by (metis prod_cases5)
  have w: "wrote lg (maxevents - count) u [] u1 keva" "0 \<le> count"
    using scan_loop_wrote [OF assms, of "[]" u] l by (metis (no_types, lifting) case_prod_conv loop_wrote_def)+
  have "scan_wrote lg maxevents u (kqueue_scan_retry (Suc passes) ops cops q m maxevents asbt u s)"
    if "kq_count (kqs s q) \<noteq> 0"
  proof (cases "out = Sc_marker \<and> count = maxevents")
    case True
    then have "kqueue_scan_retry (Suc passes) ops cops q m maxevents asbt u s
        = kqueue_scan_retry passes ops cops q m maxevents asbt u1 s2"
      using that unfolding kqueue_scan_retry.simps s1_def [symmetric] Let_def l by simp
    then show ?thesis
      using again w True by simp
  next
    case False
    then show ?thesis
      using that w unfolding kqueue_scan_retry.simps s1_def [symmetric] Let_def l
      by (cases out) (auto simp: scan_wrote_def)
  qed
  moreover have "scan_wrote lg maxevents u (kqueue_scan_retry (Suc passes) ops cops q m maxevents asbt u s)"
    if "kq_count (kqs s q) = 0"
    using that assms(2) by (simp add: scan_wrote_def wrote_refl)
  ultimately show ?case by blast
qed

text \<open>What a scan, and a whole call, has copied out: at most so many events, after what was there.\<close>

definition adds :: "('u \<Rightarrow> kevent list) \<Rightarrow> int \<Rightarrow> 'u \<Rightarrow> 'u \<Rightarrow> bool" where
  "adds lg n u u' \<longleftrightarrow> (\<exists>evs. lg u' = lg u @ evs \<and> int (length evs) \<le> n)"

lemma adds_refl: "0 \<le> n \<Longrightarrow> adds lg n u u"
  by (simp add: adds_def)

lemma adds_trans: "adds lg n u v \<Longrightarrow> adds lg m v w \<Longrightarrow> n + m \<le> l \<Longrightarrow> adds lg l u w"
  by (auto simp: adds_def)

lemma wrote_adds: "wrote lg n u [] u' keva \<Longrightarrow> adds lg n u u'"
  by (auto simp: wrote_def adds_def prefix_def)

lemma scan_adds:
  assumes "copy_total cops lg" "0 \<le> maxevents"
    and "kqueue_scan ops cops clk td q maxevents tsp u s = (r, u', s')"
  shows "adds lg maxevents u u'"
proof (cases "maxevents = 0 \<or> (\<exists>e. kqueue_scan_deadline clk tsp = Inl e)")
  case True
  then show ?thesis
    using assms(2,3) by (auto simp: kqueue_scan_def adds_refl split: if_splits)
next
  case False
  then obtain asbt rsbt where d: "kqueue_scan_deadline clk tsp = Inr (asbt, rsbt)"
    by (cases "kqueue_scan_deadline clk tsp") auto
  obtain x count keva u1 s1 where
    t: "kqueue_scan_retry 2 ops cops q td maxevents asbt u s = (x, count, keva, u1, s1)"
    by (metis prod_cases5)
  have w: "wrote lg (maxevents - count) u [] u1 keva" "0 \<le> count"
    using scan_retry_wrote [OF assms(1,2), of u 2 ops q td asbt s] t by (simp_all add: scan_wrote_def)
  have fin: "adds lg maxevents u u2" if "k_copyout cops keva u1 = (e, u2)" for e u2
    using w copy_totalD(1) [OF assms(1) that] by (auto simp: adds_def wrote_def prefix_def)
  have "adds lg maxevents u u1"
    using w by (auto simp: adds_def wrote_def prefix_def)
  then show ?thesis
    using assms(3) False d t fin
    by (auto simp: kqueue_scan_def Let_def split: scanres.splits if_splits prod.splits)
qed

lemma changes_adds:
  assumes "copy_total cops lg"
    and "kqueue_changes ops cops q kevs ne nr u s = (r, u', s')" "0 \<le> ne"
  shows "case r of Ch_go ne' nr' \<Rightarrow> 0 \<le> ne' \<and> adds lg (ne - ne') u u' | _ \<Rightarrow> adds lg ne u u'"
  using assms(2,3)
proof (induction kevs arbitrary: ne nr u s)
  case Nil
  then show ?case
    by (auto simp: adds_refl)
next
  case (Cons kev kevs)
  have put: "adds lg 1 u u1" if "k_copyout cops [e] u = (x, u1)" for e x u1
    using copy_totalD(1) [OF assms(1) that] by (simp add: adds_def)
  have more: "case r of Ch_go ne' nr' \<Rightarrow> 0 \<le> ne' \<and> adds lg (ne - ne') u u' | _ \<Rightarrow> adds lg ne u u'"
    if "ne \<noteq> 0" "adds lg 1 u u1" "kqueue_changes ops cops q kevs (ne - 1) nr1 u1 s1 = (r, u', s')" for u1 nr1 s1
    using Cons.IH [OF that(3)] that(1) Cons.prems(2) adds_trans [OF that(2)] by (cases r) force+
  consider (go) s1 where "kqueue_changes ops cops q kevs ne nr u s1 = (r, u', s')"
    | (stop) e where "u' = u" "r = Ch_ret e \<or> r = Ch_sleep"
    | (err) e x u1 s1 where "ne \<noteq> 0" "k_copyout cops [e] u = (x, u1)"
        "kqueue_changes ops cops q kevs (ne - 1) (nr + 1) u1 s1 = (r, u', s')"
    using Cons.prems(1) by (auto simp: Let_def split: if_split_asm prod.split_asm kres.split_asm)
  then show ?case
  proof cases
    case go
    then show ?thesis using Cons.IH Cons.prems(2) by blast
  next
    case stop
    then show ?thesis using Cons.prems(2) by (auto simp: adds_refl)
  next
    case err
    then show ?thesis using more put by blast
  qed
qed

lemma batches_adds:
  assumes "copy_total cops lg"
    and "kqueue_batches ops cops q n ne nr u s = (r, u', s')" "0 \<le> ne"
  shows "case r of Ch_go ne' nr' \<Rightarrow> 0 \<le> ne' \<and> adds lg (ne - ne') u u' | _ \<Rightarrow> adds lg ne u u'"
  using assms(2,3)
proof (induction n arbitrary: ne nr u s rule: less_induct)
  case (less n)
  show ?case
  proof (cases "n = 0")
    case True
    then show ?thesis
      using less.prems by (auto simp: kqueue_batches.simps adds_refl)
  next
    case False
    obtain e kevs u1 where ci: "k_copyin cops (min KQ_NEVENTS n) u = (e, kevs, u1)"
      by (metis prod_cases3)
    obtain x u2 s2 where ch: "kqueue_changes ops cops q kevs ne nr u1 s = (x, u2, s2)"
      by (metis prod_cases3)
    have u1: "lg u1 = lg u"
      by (rule copy_totalD(2) [OF assms(1) ci])
    note ok = changes_adds [OF assms(1) ch less.prems(2)]
    have same: "adds lg m u w = adds lg m u1 w" for m w
      by (simp add: adds_def u1)
    show ?thesis
    proof (cases "e = 0 \<and> (\<exists>ne1 nr1. x = Ch_go ne1 nr1)")
      case True
      then obtain ne1 nr1 where x: "x = Ch_go ne1 nr1" "e = 0" by blast
      have "kqueue_batches ops cops q (n - min KQ_NEVENTS n) ne1 nr1 u2 s2 = (r, u', s')"
        using less.prems(1) False ci ch x by (simp add: kqueue_batches.simps [of _ _ _ n])
      then have "case r of Ch_go ne' nr' \<Rightarrow> 0 \<le> ne' \<and> adds lg (ne1 - ne') u2 u' | _ \<Rightarrow> adds lg ne1 u2 u'"
        using less.IH [of "n - min KQ_NEVENTS n" ne1 nr1 u2 s2] False ok x by simp
      then show ?thesis
        using ok x adds_trans [of lg "ne - ne1" u1 u2] by (cases r) (force simp: same)+
    next
      case f: False
      then show ?thesis
        using less.prems False ci ch ok u1 adds_refl [of _ lg u1]
        by (cases x) (auto simp: same kqueue_batches.simps [of _ _ _ n] split: if_splits)
    qed
  qed
qed

lemma kevent_adds:
  assumes "copy_total cops lg" "0 \<le> nevents"
    and "kqueue_kevent ops cops clk td q nchanges nevents tsp u s = (r, u', s')"
  shows "adds lg nevents u u'"
proof -
  obtain x u1 s1 where b: "kqueue_batches ops cops q (nat nchanges) nevents 0 u s = (x, u1, s1)"
    by (metis prod_cases3)
  note ok = batches_adds [OF assms(1) b assms(2)]
  show ?thesis
  proof (cases x)
    case (Ch_go ne nr)
    then have "adds lg (nevents - ne) u u1" "0 \<le> ne"
      using ok by auto
    moreover have "adds lg ne u1 u'"
      using assms(3) b Ch_go calculation(2) scan_adds [OF assms(1)]
      by (auto simp: kqueue_kevent_def adds_refl split: if_splits)
    ultimately show ?thesis
      using adds_trans [of lg "nevents - ne" u u1 ne u' nevents] by simp
  qed (use assms(3) b ok in \<open>auto simp: kqueue_kevent_def\<close>)
qed

lemma kern_kevent_adds:
  assumes "copy_total cops lg" "0 \<le> nevents"
    and "kern_kevent ops cops clk td fd nchanges nevents tsp u s = (r, u', s')"
  shows "adds lg nevents u u'"
  using assms(2,3) kevent_adds [OF assms(1,2)]
  by (auto simp: kern_kevent_def kern_kevent_fp_def adds_refl split: if_splits prod.splits sum.splits
      scanres.splits; blast)

lemma kevent_copy_total: "copy_total \<lparr>k_copyout = kevent_copyout, k_copyin = kevent_copyin\<rparr> ka_eventlist"
  by (simp add: copy_total_def kevent_copyout_def kevent_copyin_def)

section \<open>What the copy routines keep\<close>

text \<open>A property of the caller's state that the copy routines keep holds after a scan.\<close>

definition copy_keeps :: "'u copyops \<Rightarrow> ('u \<Rightarrow> bool) \<Rightarrow> bool" where
  "copy_keeps cops P \<longleftrightarrow>
     (\<forall>evs u. P u \<longrightarrow> P (snd (k_copyout cops evs u))) \<and> (\<forall>n u. P u \<longrightarrow> P (snd (snd (k_copyin cops n u))))"

lemma copy_keepsD:
  "copy_keeps cops P \<Longrightarrow> k_copyout cops evs u = (e, u') \<Longrightarrow> P u \<Longrightarrow> P u'"
  unfolding copy_keeps_def by (metis snd_conv)

lemma scan_loop_keeps:
  assumes "copy_keeps cops P" "P u"
  shows "P (fst (snd (snd (snd (kqueue_scan_loop fuel ops cops q m count influx keva u s)))))"
  using assms(2)
proof (induction fuel arbitrary: count influx keva u s)
  case (Suc fuel)
  note IH = Suc.IH and cp = copy_keepsD [OF assms(1) _ Suc.prems]
  show ?case
    using Suc.prems
    by (auto simp: Let_def split: list.split qent.split prod.split option.split intro: IH dest!: cp)
qed simp

lemma scan_retry_keeps:
  assumes "copy_keeps cops P" "P u"
  shows "P (fst (snd (snd (snd (kqueue_scan_retry passes ops cops q m maxevents asbt u s)))))"
  using assms(2)
proof (induction passes arbitrary: u s)
  case (Suc passes)
  define s1 where "s1 = kq_upd q (\<lambda>kq. kq\<lparr>kq_head := kq_head kq @ [QMark m]\<rparr>) s"
  obtain out count keva u1 s2 where
    l: "kqueue_scan_loop (length (kq_head (kqs s1 q)) + 1) ops cops q m maxevents False [] u s1 = (out, count, keva, u1, s2)"
    by (metis prod_cases5)
  have "P u1"
    using scan_loop_keeps [OF assms(1) Suc.prems] l by (metis fst_conv snd_conv)
  then show ?case
    using Suc unfolding kqueue_scan_retry.simps s1_def [symmetric] Let_def l by (cases out) auto
qed simp

lemma scan_keeps:
  assumes "copy_keeps cops P" "P u" "kqueue_scan ops cops clk td q maxevents tsp u s = (r, u', s')"
  shows "P u'"
proof -
  have "P u1" if "kqueue_scan_retry 2 ops cops q td maxevents asbt u s = (x, count, keva, u1, s1)" for asbt x count keva u1 s1
    using scan_retry_keeps [OF assms(1,2)] that by (metis fst_conv snd_conv)
  then show ?thesis
    using assms copy_keepsD [OF assms(1)]
    by (auto simp: kqueue_scan_def Let_def split: if_splits sum.splits prod.splits scanres.splits)
qed

end
