(* ===== verification/Kqueue_Watch.thy ===== *)
theory Kqueue_Watch
  imports Filters_Ok Kqueue_Copy
begin

text \<open>
  Which descriptors the knotes of a kqueue watch.  A scan never adds a knote and never changes
  the key of one; a registration adds a knote for a descriptor only if the descriptor is open;
  closing a descriptor removes its knotes.  So no kqueue of the process has a knote for a
  descriptor that is not open.
\<close>

section \<open>Knotes are dropped, their keys kept\<close>

definition kq_keys :: "kqueue \<Rightarrow> nat \<rightharpoonup> u64 \<times> int \<times> bool" where
  "kq_keys kq k = map_option kn_key (kq_notes kq k)"

definition keys_sub :: "'w kern \<Rightarrow> 'w kern \<Rightarrow> bool" where
  "keys_sub s s' \<longleftrightarrow> (\<forall>q. kq_keys (kqs s' q) \<subseteq>\<^sub>m kq_keys (kqs s q))"

lemma keys_kn_upd: "(\<And>kn. kn_key (g kn) = kn_key kn) \<Longrightarrow> kq_keys (kn_upd k g a) = kq_keys a"
  by (auto simp: kq_keys_def fun_eq_iff kn_upd_def option.map_comp comp_def)

lemma keys_cong: "kq_notes b = kq_notes a \<Longrightarrow> kq_keys b = kq_keys a"
  by (simp add: kq_keys_def fun_eq_iff)

lemma kn_key_upd [simp]:
  "kn_key (st_set F kn) = kn_key kn" "kn_key (st_clr F kn) = kn_key kn" "kn_key (kn\<lparr>kn_influx := i\<rparr>) = kn_key kn"
  "kn_key (kn\<lparr>kn_kevent := (kn_kevent kn)\<lparr>ke_data := d, ke_fflags := f\<rparr>\<rparr>) = kn_key kn"
  by (simp_all add: kn_key_def st_set_def st_clr_def)

lemma keys_upd [simp]:
  "kq_keys (kn_enter_flux k b) = kq_keys b" "kq_keys (kn_leave_flux k b) = kq_keys b"
  "kq_keys (kn_upd k (st_set F) b) = kq_keys b" "kq_keys (kn_upd k (st_clr F) b) = kq_keys b"
  "kq_keys (kn_upd k (\<lambda>kn. kn\<lparr>kn_kevent := (kn_kevent kn)\<lparr>ke_data := d, ke_fflags := f\<rparr>\<rparr>) b) = kq_keys b"
  by (simp_all add: kn_enter_flux_def kn_leave_flux_def keys_kn_upd)

lemma keys_fields [simp]:
  "kq_keys (b\<lparr>kq_count := c\<rparr>) = kq_keys b" "kq_keys (b\<lparr>kq_head := h\<rparr>) = kq_keys b"
  "kq_keys (b\<lparr>kq_state := t\<rparr>) = kq_keys b" "kq_keys (b\<lparr>kq_si_note := n\<rparr>) = kq_keys b"
  "kq_keys (KQ_FLUX_WAKEUP b) = kq_keys b"
  by (rule keys_cong, simp add: KQ_FLUX_WAKEUP_def)+

lemma keys_note_step: "note_step k a b \<Longrightarrow> kq_keys b = kq_keys a"
  unfolding note_step_def by (auto simp: keys_kn_upd)

lemma keys_other_step: "other_step a b \<Longrightarrow> kq_keys b = kq_keys a"
  by (auto simp: other_step_def)

lemma keys_drop: "kq_keys (kq_drop k a) \<subseteq>\<^sub>m kq_keys a"
proof -
  have "kq_keys (knote_unlink k a) = kq_keys a"
    by (auto simp: knote_unlink_def Let_def knote_dequeue_def kn_klist_upd_def intro!: keys_cong)
  moreover have "kq_keys (knote_free (Some k) b) \<subseteq>\<^sub>m kq_keys b" for b
    by (auto simp: kq_keys_def knote_free_def map_le_def)
  ultimately show ?thesis
    unfolding kq_drop_def by metis
qed

lemma keys_sub_refl [simp]: "keys_sub s s"
  by (simp add: keys_sub_def)

lemma keys_sub_trans [trans]: "keys_sub s t \<Longrightarrow> keys_sub t u \<Longrightarrow> keys_sub s u"
  unfolding keys_sub_def by (blast intro: map_le_trans)

lemma keys_sub_kqs: "kqs s' = kqs s \<Longrightarrow> keys_sub s s'"
  by (simp add: keys_sub_def)

lemma keys_sub_upd: "kq_keys (f (kqs s q)) \<subseteq>\<^sub>m kq_keys (kqs s q) \<Longrightarrow> keys_sub s (kq_upd q f s)"
  by (simp add: keys_sub_def kq_upd_def)

lemma keys_sub_upd_after: "keys_sub s t \<Longrightarrow> kq_keys (f (kqs t q)) = kq_keys (kqs t q) \<Longrightarrow> keys_sub s (kq_upd q f t)"
  by (rule keys_sub_trans [OF _ keys_sub_upd]) simp_all

lemma keys_sub_if: "keys_sub s a \<Longrightarrow> keys_sub s b \<Longrightarrow> keys_sub s (if c then a else b)"
  by simp

lemma keys_sub_step:
  "note_step k (kqs s q) (kqs s' q) \<Longrightarrow> \<forall>q'. q' \<noteq> q \<longrightarrow> other_step (kqs s q') (kqs s' q') \<Longrightarrow> keys_sub s s'"
  unfolding keys_sub_def by (metis keys_note_step keys_other_step map_le_refl)

lemma keys_sub_drop_detached: "keys_sub s (knote_drop_detached (q, k) s)"
proof -
  have "kqs (knote_drop_detached (q, k) s) q' = kqs s q'" if "q' \<noteq> q" for q'
    using that by (simp add: knote_drop_detached_def Let_def kq_upd_def)
  then show ?thesis
    unfolding keys_sub_def by (metis knote_drop_detached_eq keys_drop map_le_refl)
qed

context filters
begin

lemma keys_sub_drop: "keys_sub s (knote_drop ops (q, k) s)"
proof -
  have "keys_sub s (f_detach (ops t) (q, k) s)" for t
    using detach_step [OF refl] by (blast intro: keys_sub_step)
  then show ?thesis
    unfolding knote_drop_def Let_def by (auto intro: keys_sub_trans keys_sub_drop_detached)
qed

lemma keys_sub_scan_note: "keys_sub s (snd (kqueue_scan_note ops (q, k) s))"
proof -
  define s1 where "s1 = kq_upd q (\<lambda>kq. kn_enter_flux k (kn_upd k (st_set {KN_SCAN}) kq)) s"
  obtain event s2 where ev: "f_event (ops (kn_fop (kn_of s (q, k)))) (q, k) 0 s1 = (event, s2)"
    by fastforce
  have "keys_sub s s1"
    unfolding s1_def by (rule keys_sub_upd) simp
  also have "keys_sub s1 s2"
    using event_step [OF ev] by (blast intro: keys_sub_step)
  finally have s2: "keys_sub s s2" .
  define fop where "fop = kn_fop (kn_of s2 (q, k))"
  define touch where "touch = (\<not> f_isfd fop \<and> f_has_touch fop)"
  obtain kev s3 where s3: "(if touch then f_touch (ops fop) EVENT_PROCESS (q, k) (kn_kevent (kn_of s2 (q, k))) s2
                            else (kn_kevent (kn_of s2 (q, k)), s2)) = (kev, s3)"
    by fastforce
  have "keys_sub s2 s3"
  proof (cases touch)
    case True
    then obtain kn where kn: "kq_notes (kqs s2 q) k = Some kn"
      by (cases "kq_notes (kqs s2 q) k") (auto simp: touch_def fop_def kn_of_def kn_at_def zero_knote_def)
    then have "kn_of s2 (q, k) = kn"
      by (simp add: kn_of_def)
    then show ?thesis
      using touch_process_step [OF kn, of fop kev s3] s3 True by (auto intro: keys_sub_step)
  next
    case False
    then show ?thesis
      using s3 by simp
  qed
  then have "keys_sub s s3"
    using s2 by (rule keys_sub_trans [rotated])
  then have s3': "keys_sub s s3" .
  show ?thesis
  proof (cases "fl (kn_flags (kn_of s (q, k))) EV_DROP \<or> fl (kn_flags (kn_of s (q, k))) EV_ONESHOT")
    case True
    then have "snd (kqueue_scan_note ops (q, k) s) = knote_drop ops (q, k) (kq_upd q (\<lambda>kq. (kn_enter_flux k (kn_upd k (st_clr {KN_QUEUED}) kq))
                 \<lparr>kq_count := kq_count kq - 1\<rparr>) s)"
      by (auto simp: kqueue_scan_note_def Let_def)
    then show ?thesis
      by (simp add: keys_sub_trans [OF keys_sub_upd keys_sub_drop])
  next
    case False
    then have fl: "fl (kn_flags (kn_of s (q, k))) EV_DROP = False" "fl (kn_flags (kn_of s (q, k))) EV_ONESHOT = False"
      by simp_all
    show ?thesis
      unfolding kqueue_scan_note_def Let_def fst_conv snd_conv fl if_False s1_def [symmetric] ev prod.case
        fop_def [symmetric] touch_def [symmetric] s3 if_distrib [of snd]
      by (intro keys_sub_if keys_sub_upd_after s2 s3') simp_all
  qed
qed

lemma keys_sub_scan_loop:
  "keys_sub s (snd (snd (snd (snd (kqueue_scan_loop fuel ops cops q m count influx keva u s)))))"
proof (induction fuel arbitrary: count influx keva u s)
  case (Suc fuel)
  have IH: "keys_sub s (snd (snd (snd (snd (kqueue_scan_loop fuel ops cops q m c i v u' t)))))" if "keys_sub s t" for c i v u' t
    using keys_sub_trans [OF that Suc.IH] .
  have after: "keys_sub s t'" if "kqueue_scan_note ops (q, k) t = (o', t')" "keys_sub s t" for k t o' t'
    using keys_sub_trans [OF that(2) keys_sub_scan_note, of q k] that(1) by simp
  have upd: "keys_sub s (kq_upd q f s)" if "kq_keys (f (kqs s q)) = kq_keys (kqs s q)" for f
    using that by (simp add: keys_sub_upd)
  show ?case
  proof (cases "kq_head (kqs s q)")
    case (Cons e rest)
    define s1 where "s1 = kq_upd q (\<lambda>kq. kq\<lparr>kq_head := rest\<rparr>) s"
    have s1: "keys_sub s s1"
      unfolding s1_def by (rule upd) simp
    then show ?thesis
      unfolding kqueue_scan_loop.simps Cons list.case s1_def [symmetric]
      by (auto simp: Let_def split: qent.split prod.split option.split
          intro!: IH upd keys_sub_upd_after [OF s1] keys_sub_upd_after elim!: after)
  qed simp
qed simp

lemma keys_sub_scan_retry:
  "keys_sub s (snd (snd (snd (snd (kqueue_scan_retry passes ops cops q m maxevents asbt u s)))))"
proof (induction passes arbitrary: u s)
  case (Suc passes)
  define s1 where "s1 = kq_upd q (\<lambda>kq. kq\<lparr>kq_head := kq_head kq @ [QMark m]\<rparr>) s"
  obtain out count keva u1 s2 where
    l: "kqueue_scan_loop (length (kq_head (kqs s1 q)) + 1) ops cops q m maxevents False [] u s1 = (out, count, keva, u1, s2)"
    by (metis prod_cases5)
  have "keys_sub s s1"
    unfolding s1_def by (rule keys_sub_upd) simp
  also have "keys_sub s1 s2"
    using keys_sub_scan_loop [of s1 _ cops q m maxevents False "[]" u] l by (metis snd_conv)
  finally have s2: "keys_sub s s2" .
  have again: "keys_sub s (snd (snd (snd (snd (kqueue_scan_retry passes ops cops q m maxevents asbt u1 s2)))))"
    using keys_sub_trans [OF s2 Suc.IH] .
  show ?case
    using s2 again unfolding kqueue_scan_retry.simps s1_def [symmetric] Let_def l
    by (cases out) (auto intro!: keys_sub_upd keys_sub_upd_after)
qed simp

lemma keys_sub_scan:
  assumes "kqueue_scan ops cops clk td q maxevents tsp u s = (r, u', s')"
  shows "keys_sub s s'"
proof -
  have "keys_sub s s1" if "kqueue_scan_retry 2 ops cops q td maxevents asbt u s = (x, count, keva, u1, s1)" for asbt x count keva u1 s1
    using keys_sub_scan_retry [of s 2 cops q td maxevents asbt u] that by simp
  moreover have "keys_sub s (t\<lparr>k_retval := i\<rparr>) \<longleftrightarrow> keys_sub s t" for t i
    by (simp add: keys_sub_def)
  ultimately show ?thesis
    using assms by (auto simp: kqueue_scan_def Let_def split: if_splits sum.splits prod.splits scanres.splits)
qed

end

section \<open>Watched descriptors are open\<close>

definition watch_ok :: "'w kern \<Rightarrow> bool" where
  "watch_ok s \<longleftrightarrow>
     (\<forall>q \<in> set (k_kqlist s). \<forall>k kn. kq_notes (kqs s q) k = Some kn \<longrightarrow> f_isfd (kn_fop kn) \<longrightarrow>
        k_fdt s (unat (kn_id kn)) \<noteq> None)"

lemma watch_ok_keys:
  "watch_ok s \<longleftrightarrow>
     (\<forall>q \<in> set (k_kqlist s). \<forall>k i f. kq_keys (kqs s q) k = Some (i, f, True) \<longrightarrow> k_fdt s (unat i) \<noteq> None)"
  unfolding watch_ok_def kq_keys_def kn_key_def by (auto; metis)

lemma map_le_Some: "a \<subseteq>\<^sub>m b \<Longrightarrow> a k = Some x \<Longrightarrow> b k = Some x"
  by (metis domI map_le_def)

lemma watch_ok_sub:
  assumes "watch_ok s" "keys_sub s s'" "k_kqlist s' = k_kqlist s" "k_fdt s' = k_fdt s"
  shows "watch_ok s'"
  unfolding watch_ok_keys assms(3,4)
proof (intro ballI allI impI)
  fix q k i f assume q: "q \<in> set (k_kqlist s)" "kq_keys (kqs s' q) k = Some (i, f, True)"
  have "kq_keys (kqs s q) k = Some (i, f, True)"
    using map_le_Some [where a = "kq_keys (kqs s' q)" and b = "kq_keys (kqs s q)" and k = k] q(2) assms(2)
    by (simp add: keys_sub_def)
  then show "k_fdt s (unat i) \<noteq> None"
    using assms(1) q(1) unfolding watch_ok_keys by blast
qed

lemma kqueue_findkn_closed:
  assumes "f_isfd fops" "k_fdt s (unat (ke_ident kev)) = None"
  shows "kqueue_findkn fops q waitok kev s = Find_err EBADF None s"
  using assms by (simp add: kqueue_findkn.simps [of fops] fget_def)

lemma register_closed:
  assumes "fst (kqueue_fo_find (ke_filter kev) s) = Some fops" "f_isfd fops" "k_fdt s (unat (ke_ident kev)) = None"
    and "kqueue_register ops q kev waitok s = (r, kev', s')"
  shows "r = KRet EINVAL \<or> r = KRet EBADF"
proof -
  obtain s1 where fo: "kqueue_fo_find (ke_filter kev) s = (Some fops, s1)"
    using assms(1) by (metis prod.collapse)
  have "kqueue_findkn fops q waitok kev (kq_upd q f s1) = Find_err EBADF None (kq_upd q f s1)" for f
    using assms(3) kqueue_fo_find_kqs(3) [OF fo] by (intro kqueue_findkn_closed assms(2)) simp
  then show ?thesis
    using assms(4)
    by (auto simp: kqueue_register_def fo Let_def split: if_splits prod.splits)
qed

context filters
begin

lemma watch_register:
  assumes "kq_inv (kqs s q)" "watch_ok s" "kqueue_register ops q kev waitok s = (r, kev', s')"
  shows "watch_ok s'"
proof -
  note out = register_outcome [OF assms(1,3)]
  have k: "k_fdt s' = k_fdt s" "k_kqlist s' = k_kqlist s" "\<And>p. p \<noteq> q \<Longrightarrow> kq_keys (kqs s' p) = kq_keys (kqs s p)"
    using out by (auto simp: kq_keep_def keys_other_step)
  have "k_fdt s (unat (kn_id kn')) \<noteq> None"
    if q: "q \<in> set (k_kqlist s)" and kn': "kq_notes (kqs s' q) k = Some kn'" "f_isfd (kn_fop kn')" for k kn'
  proof -
    have old: ?thesis if "kq_notes (kqs s q) k = Some kn" "kn_key kn = kn_key kn'" for kn
    proof -
      have "kn_id kn = kn_id kn'" "f_isfd (kn_fop kn)"
        using that(2) kn'(2) by (simp_all add: kn_key_def)
      then show ?thesis
        using assms(2) [unfolded watch_ok_def, rule_format, OF q that(1)] by simp
    qed
    from out consider "kq_notes (kqs s' q) = kq_notes (kqs s q)"
      | fops where "reg_changed fops kev (kqs s q) (kqs s' q) r"
      | fops where "fst (kqueue_fo_find (ke_filter kev) s) = Some fops" "reg_added fops kev (kqs s q) (kqs s' q) r"
      by (auto simp: reg_none_def)
    then show ?thesis
    proof cases
      case 1
      then show ?thesis
        using old kn'(1) by metis
    next
      case 2
      then show ?thesis
        using reg_changed_notes [OF 2 kn'(1)] old by blast
    next
      case 3
      then obtain j kn where j: "notes_but j (kqs s q) (kqs s' q)" "kq_notes (kqs s' q) j = Some kn"
        "kn_key kn = (ke_ident kev, ke_filter kev, f_isfd fops)" "r = KRet 0"
        by (auto simp: reg_added_def)
      show ?thesis
      proof (cases "k = j")
        case True
        then show ?thesis
          using register_closed [OF 3(1) _ _ assms(3)] j kn' by (auto simp: kn_key_def)
      next
        case False
        then show ?thesis
          using old [of kn'] j(1) kn'(1) by (simp add: notes_but_def)
      qed
    qed
  qed
  moreover have "k_fdt s (unat (kn_id kn')) \<noteq> None"
    if p: "p \<in> set (k_kqlist s)" "p \<noteq> q" and kn': "kq_notes (kqs s' p) k = Some kn'" "f_isfd (kn_fop kn')" for p k kn'
  proof -
    have "kq_keys (kqs s p) k = Some (kn_id kn', kn_filter kn', True)"
      using k(3) [OF p(2)] kn' by (metis kn_key_def kq_keys_def option.simps(9))
    then show ?thesis
      using assms(2) p(1) unfolding watch_ok_keys by blast
  qed
  ultimately show ?thesis
    unfolding watch_ok_def k(1,2) by blast
qed

lemma watch_scan:
  assumes "copy_log cops lg" "kq_inv (kqs s q)" "marks (kqs s q) = []" "0 \<le> maxevents" "watch_ok s"
    and "kqueue_scan ops cops clk td q maxevents tsp u s = (r, u', s')"
  shows "watch_ok s'"
  using watch_ok_sub [OF assms(5) keys_sub_scan [OF assms(6)]] scan_ok [OF assms(1-4,6)] by (simp add: kq_env_def)

end

section \<open>Removal keeps the rest\<close>

definition still :: "'w kern \<Rightarrow> 'w kern \<Rightarrow> bool" where
  "still s s' \<longleftrightarrow>
     k_fdt s' = k_fdt s \<and> k_kqlist s' = k_kqlist s \<and> k_retval s' = k_retval s \<and> keys_sub s s' \<and>
     (\<forall>q. marks (kqs s' q) = marks (kqs s q))"

lemma still_refl [simp]: "still s s"
  by (simp add: still_def)

lemma still_trans [trans]: "still s t \<Longrightarrow> still t u \<Longrightarrow> still s u"
  by (auto simp: still_def intro: keys_sub_trans)

lemma still_watch: "still s s' \<Longrightarrow> watch_ok s \<Longrightarrow> watch_ok s'"
  by (auto simp: still_def intro: watch_ok_sub)

lemma notes_sub_keys:
  assumes "notes_sub a b"
  shows "kq_keys b \<subseteq>\<^sub>m kq_keys a"
proof -
  have "kq_keys b k = kq_keys a k" if "kq_keys b k \<noteq> None" for k
    using assms that unfolding notes_sub_def kq_keys_def by (metis option.map_disc_iff)
  then show ?thesis
    by (simp add: map_le_def dom_def)
qed

lemma still_keep:
  assumes "kq_keep q s s'" "notes_sub (kqs s q) (kqs s' q)"
  shows "still s s'"
proof -
  have "kq_keys (kqs s' p) \<subseteq>\<^sub>m kq_keys (kqs s p) \<and> marks (kqs s' p) = marks (kqs s p)" for p
    using assms notes_sub_keys [OF assms(2)] by (cases "p = q") (auto simp: kq_keep_def other_step_def)
  then show ?thesis
    using assms(1) by (simp add: still_def keys_sub_def kq_keep_def)
qed

lemma still_upd: "kq_keys (f (kqs s q)) = kq_keys (kqs s q) \<Longrightarrow> marks (f (kqs s q)) = marks (kqs s q) \<Longrightarrow> still s (kq_upd q f s)"
  by (simp add: still_def keys_sub_upd)

lemma marks_fields [simp]:
  "marks (b\<lparr>kq_state := t\<rparr>) = marks b" "marks (KQ_FLUX_WAKEUP b) = marks b" "marks (b\<lparr>kq_refcnt := n\<rparr>) = marks b"
  "marks (b\<lparr>kq_selwait := w\<rparr>) = marks b"
  by (simp_all add: marks_def KQ_FLUX_WAKEUP_def)

lemma keys_fields2 [simp]: "kq_keys (b\<lparr>kq_refcnt := n\<rparr>) = kq_keys b" "kq_keys (b\<lparr>kq_selwait := w\<rparr>) = kq_keys b"
  by (rule keys_cong, simp)+

context filters
begin

lemma fdclose_from_still:
  assumes "kern_inv s" "knote_fdclose_from ops fd qs s = (r, s')"
  shows "still s s'"
  using assms
proof (induction qs arbitrary: s)
  case (Cons q qs)
  obtain r1 s1 where d: "kqueue_drop_bucket (length (fd_bucket fd (kqs s q))) ops q (fd_bucket fd) s = (r1, s1)"
    by fastforce
  have "kq_inv (kqs s q)"
    using Cons.prems(1) by (simp add: kern_inv_def)
  note ok = drop_bucket_ok [OF this _ _ d, where i = fd, simplified]
  have inv: "kern_inv (kq_upd q KQ_FLUX_WAKEUP s1)"
    using ok Cons.prems(1) kern_invI [of s1 q s] by (auto dest: kq_keep_env simp: kern_inv_def)
  have "still s s1"
    using ok by (auto intro: still_keep)
  also have "still s1 (kq_upd q KQ_FLUX_WAKEUP s1)"
    by (rule still_upd) simp_all
  also have "still \<dots> s'"
    using Cons.prems(2) d ok by (intro Cons.IH inv) simp
  finally show ?case .
qed simp

lemma drain_still:
  assumes "kq_inv (kqs s q)" "kqueue_drain ops q s = (r, s')"
  shows "still s s'"
proof -
  define s1 where "s1 = kq_upd q (\<lambda>kq. kq\<lparr>kq_state := insert KQ_CLOSING (kq_state kq)\<rparr>) s"
  have i1: "kq_inv (kqs s1 q)" and t1: "still s s1"
    using assms(1) unfolding s1_def by (simp add: kq_inv_sleep, intro still_upd) simp_all
  obtain r2 s2 where d: "kqueue_drop_buckets ops q (kqueue_buckets (kqs s1 q)) s1 = (r2, s2)"
    by fastforce
  have "\<forall>b \<in> set (kqueue_buckets (kqs s1 q)). \<exists>i. b = (\<lambda>kq. kq_knlist kq i) \<or> b = (\<lambda>kq. kq_knhash kq i)"
    by (auto simp: kqueue_buckets_def)
  note ok = drop_buckets_ok [OF i1 this d]
  then have t2: "still s s2"
    using still_trans [OF t1 still_keep] by blast
  have t3: "still s (kq_upd q f s2)" if "kq_keys (f (kqs s2 q)) = kq_keys (kqs s2 q)" "marks (f (kqs s2 q)) = marks (kqs s2 q)" for f
    using still_trans [OF t2 still_upd [of f, OF that]] .
  show ?thesis
    using assms(2) ok t1 t2 unfolding kqueue_drain_def Let_def s1_def [symmetric] d
    by (auto split: if_splits intro!: t3)
qed

end

end
