(* ===== verification/Filedesc.thy ===== *)
theory Filedesc
  imports Prelude "HOL-Library.Monad_Syntax"
begin

text \<open>
  The descriptor table of a process: the bitmap of the descriptors in use, the array of open
  files and their growth, from \<^verbatim>\<open>sys/kern/kern_descrip.c\<close>.  A descriptor is a
  natural number here; the sums and products the source forms of descriptors stay below
  \<open>2 ^ 31\<close> as long as the limit on open files is below \<open>2 ^ 30\<close>.  An operation that
  would read or write outside the bitmap has the result \<open>None\<close>.  The capability rights of a
  descriptor and the list of replaced tables are not in the model.
\<close>

section \<open>The program\<close>

subsection \<open>Bit searches\<close>

text \<open>
  The loops of \<^verbatim>\<open>libkern/ffsll.c\<close> and \<^verbatim>\<open>libkern/flsll.c\<close>.  They are
  entered with a word other than 0 and keep it so; the test for 0 is there for termination.
\<close>

function ffsll_loop :: "nat \<Rightarrow> u64 \<Rightarrow> nat" where
  "ffsll_loop b w = (if w = 0 \<or> w AND 1 \<noteq> 0 then b else ffsll_loop (b + 1) (drop_bit 1 w))"
  by pat_completeness auto

lemma drop_bit_1_less: "(w :: u64) \<noteq> 0 \<Longrightarrow> unat (drop_bit 1 w) < unat w"
  using unat_gt_0 [of w] by (simp add: drop_bit_Suc unat_div)

termination ffsll_loop
  by (relation "measure (\<lambda>(b, w). unat w)") (auto simp: drop_bit_1_less [unfolded One_nat_def])

definition ffsll :: "u64 \<Rightarrow> nat" where
  "ffsll w = (if w = 0 then 0 else ffsll_loop 1 w)"

function flsll_loop :: "nat \<Rightarrow> u64 \<Rightarrow> nat" where
  "flsll_loop b w = (if w = 0 \<or> w = 1 then b else flsll_loop (b + 1) (drop_bit 1 w))"
  by pat_completeness auto

termination flsll_loop
  by (relation "measure (\<lambda>(b, w). unat w)") (auto simp: drop_bit_1_less [unfolded One_nat_def])

definition flsll :: "u64 \<Rightarrow> nat" where
  "flsll w = (if w = 0 then 0 else flsll_loop 1 w)"

declare ffsll_loop.simps [simp del] flsll_loop.simps [simp del]

subsection \<open>The table\<close>

abbreviation EMFILE :: int where "EMFILE \<equiv> 24"
abbreviation NDFILE :: nat where "NDFILE \<equiv> 20"

definition NDSLOT :: "nat \<Rightarrow> nat" where
  "NDSLOT x = x div 64"

definition NDBIT :: "nat \<Rightarrow> u64" where
  "NDBIT x = push_bit (x mod 64) 1"

definition NDSLOTS :: "nat \<Rightarrow> nat" where
  "NDSLOTS x = (x + 64 - 1) div 64"

record filedescent =
  fde_file :: "nat option"
  fde_flags :: u8

text \<open>The size \<^verbatim>\<open>fd_nfiles\<close> is the length of the array.\<close>

record filedesc =
  fd_ofiles :: "filedescent list"
  fd_map :: "u64 list"
  fd_freefile :: nat

definition fd_nfiles :: "filedesc \<Rightarrow> nat" where
  "fd_nfiles fdp = length (fd_ofiles fdp)"

definition map_get :: "u64 list \<Rightarrow> nat \<Rightarrow> u64 option" where
  "map_get m i = (if i < length m then Some (m ! i) else None)"

text \<open>
  The search for a free descriptor.  A slot that is full is recognised by a comparison with
  \<^verbatim>\<open>~0UL\<close>: the argument \<open>ul\<close>, which is the word of all ones where
  \<^verbatim>\<open>unsigned long\<close> has 64 bits and \<open>0xffffffff\<close> where it has 32.
\<close>

function ffree_loop :: "u64 \<Rightarrow> u64 list \<Rightarrow> nat \<Rightarrow> nat \<Rightarrow> nat \<Rightarrow> int option" where
  "ffree_loop ul m off maxoff siz =
     (if off < maxoff then
        do {
          w \<leftarrow> map_get m off;
          if w \<noteq> ul then Some (int (off * 64) + int (ffsll (NOT w)) - 1)
          else ffree_loop ul m (off + 1) maxoff siz
        }
      else Some (int siz))"
  by pat_completeness auto

termination ffree_loop
  by (relation "measure (\<lambda>(ul, m, off, maxoff, siz). maxoff - off)") auto

declare ffree_loop.simps [simp del]

definition fd_first_free :: "u64 \<Rightarrow> filedesc \<Rightarrow> nat \<Rightarrow> nat \<Rightarrow> int option" where
  "fd_first_free ul fdp low siz =
     (if low \<ge> siz then Some (int low)
      else let off = NDSLOT low in
        if low mod 64 \<noteq> 0 then
          do {
            w \<leftarrow> map_get (fd_map fdp) off;
            let mask1 = NOT (drop_bit (64 - low mod 64) (- 1)) AND NOT w;
            if mask1 \<noteq> 0 then Some (int (off * 64) + int (ffsll mask1) - 1)
            else ffree_loop ul (fd_map fdp) (off + 1) (NDSLOTS siz) siz
          }
        else ffree_loop ul (fd_map fdp) off (NDSLOTS siz) siz)"

fun last_loop :: "u64 list \<Rightarrow> nat \<Rightarrow> int option" where
  "last_loop m 0 = Some (- 1)"
| "last_loop m (Suc off) =
     do {
       w \<leftarrow> map_get m off;
       if w \<noteq> 0 then Some (int (off * 64) + int (flsll w) - 1) else last_loop m off
     }"

definition fdlastfile_single :: "filedesc \<Rightarrow> int option" where
  "fdlastfile_single fdp = last_loop (fd_map fdp) (Suc (NDSLOT (fd_nfiles fdp - 1)))"

definition fdisused :: "filedesc \<Rightarrow> nat \<Rightarrow> bool option" where
  "fdisused fdp fd = do { w \<leftarrow> map_get (fd_map fdp) (NDSLOT fd); Some (fl w (NDBIT fd)) }"

definition fdused_init :: "int \<Rightarrow> filedesc \<Rightarrow> filedesc option" where
  "fdused_init fd fdp =
     (if fd < 0 then None
      else do {
        w \<leftarrow> map_get (fd_map fdp) (NDSLOT (nat fd));
        Some (fdp\<lparr>fd_map := (fd_map fdp)[NDSLOT (nat fd) := w OR NDBIT (nat fd)]\<rparr>)
      })"

definition fdused :: "int \<Rightarrow> filedesc \<Rightarrow> filedesc option" where
  "fdused fd fdp =
     do {
       fdp1 \<leftarrow> fdused_init fd fdp;
       Some (if fd = int (fd_freefile fdp1) then fdp1\<lparr>fd_freefile := fd_freefile fdp1 + 1\<rparr> else fdp1)
     }"

definition fdunused :: "nat \<Rightarrow> filedesc \<Rightarrow> filedesc option" where
  "fdunused fd fdp =
     do {
       w \<leftarrow> map_get (fd_map fdp) (NDSLOT fd);
       let fdp1 = fdp\<lparr>fd_map := (fd_map fdp)[NDSLOT fd := w AND NOT (NDBIT fd)]\<rparr>;
       Some (if fd < fd_freefile fdp1 then fdp1\<lparr>fd_freefile := fd\<rparr> else fdp1)
     }"

definition fde_set :: "nat \<Rightarrow> (filedescent \<Rightarrow> filedescent) \<Rightarrow> filedesc \<Rightarrow> filedesc option" where
  "fde_set fd f fdp =
     (if fd < length (fd_ofiles fdp)
      then Some (fdp\<lparr>fd_ofiles := (fd_ofiles fdp)[fd := f (fd_ofiles fdp ! fd)]\<rparr>) else None)"

definition fdfree :: "nat \<Rightarrow> filedesc \<Rightarrow> filedesc option" where
  "fdfree fd fdp = do { fdp1 \<leftarrow> fde_set fd (\<lambda>e. e\<lparr>fde_file := None\<rparr>) fdp; fdunused fd fdp1 }"

definition fget_locked :: "filedesc \<Rightarrow> nat \<Rightarrow> nat option" where
  "fget_locked fdp fd = (if fd \<ge> fd_nfiles fdp then None else fde_file (fd_ofiles fdp ! fd))"

text \<open>Growing the table.  New entries and new slots of the bitmap are zero.\<close>

definition fdgrowtable :: "nat \<Rightarrow> filedesc \<Rightarrow> filedesc" where
  "fdgrowtable nfd fdp =
     (let onfiles = fd_nfiles fdp; nnfiles = NDSLOTS nfd * 64 in
      if nnfiles \<le> onfiles then fdp
      else let fdp1 = (if NDSLOTS nnfiles > NDSLOTS onfiles
                       then fdp\<lparr>fd_map := take (NDSLOTS onfiles) (fd_map fdp) @
                                  replicate (NDSLOTS nnfiles - NDSLOTS onfiles) 0\<rparr>
                       else fdp)
           in fdp1\<lparr>fd_ofiles := fd_ofiles fdp @
                 replicate (nnfiles - onfiles) \<lparr>fde_file = None, fde_flags = 0\<rparr>\<rparr>)"

definition fdgrowtable_exp :: "nat \<Rightarrow> filedesc \<Rightarrow> filedesc" where
  "fdgrowtable_exp nfd fdp =
     (let nfd1 = fd_nfiles fdp * 2; nfd2 = (if nfd1 < nfd then nfd else nfd1) in fdgrowtable nfd2 fdp)"

text \<open>Allocation; \<open>maxfd\<close> is the value of \<^verbatim>\<open>getmaxfd\<close>.\<close>

definition fdalloc :: "u64 \<Rightarrow> nat \<Rightarrow> nat \<Rightarrow> filedesc \<Rightarrow> ((int + nat) \<times> filedesc) option" where
  "fdalloc ul maxfd minfd fdp =
     do {
       let minfd1 = (if fd_freefile fdp > minfd then fd_freefile fdp else minfd);
       fd \<leftarrow> fd_first_free ul fdp minfd1 (fd_nfiles fdp);
       if fd \<ge> int maxfd then Some (Inl EMFILE, fdp)
       else do {
         let fdp1 = (if fd \<ge> int (fd_nfiles fdp)
                     then fdgrowtable_exp (nat (min (fd * 2) (int maxfd))) fdp else fdp);
         fdp2 \<leftarrow> fdused fd fdp1;
         Some (Inr (nat fd), fdp2)
       }
     }"

text \<open>\<^verbatim>\<open>fdallocn\<close>: the descriptors of the first \<open>i\<close> rounds are \<open>fds\<close>, last one first.\<close>

fun fdunused_all :: "nat list \<Rightarrow> filedesc \<Rightarrow> filedesc option" where
  "fdunused_all [] fdp = Some fdp"
| "fdunused_all (fd # fds) fdp = do { fdp1 \<leftarrow> fdunused fd fdp; fdunused_all fds fdp1 }"

fun fdallocn_from :: "u64 \<Rightarrow> nat \<Rightarrow> nat list \<Rightarrow> nat \<Rightarrow> filedesc \<Rightarrow> ((int + nat list) \<times> filedesc) option" where
  "fdallocn_from ul maxfd fds 0 fdp = Some (Inr (rev fds), fdp)"
| "fdallocn_from ul maxfd fds (Suc i) fdp =
     do {
       (r, fdp1) \<leftarrow> fdalloc ul maxfd 0 fdp;
       case r of
         Inl e \<Rightarrow> do { fdp2 \<leftarrow> fdunused_all fds fdp1; Some (Inl EMFILE, fdp2) }
       | Inr fd \<Rightarrow> fdallocn_from ul maxfd (fd # fds) i fdp1
     }"

definition fdallocn :: "u64 \<Rightarrow> nat \<Rightarrow> nat \<Rightarrow> filedesc \<Rightarrow> ((int + nat list) \<times> filedesc) option" where
  "fdallocn ul maxfd n fdp = fdallocn_from ul maxfd [] n fdp"

definition finstall_fde :: "nat \<Rightarrow> nat \<Rightarrow> bool \<Rightarrow> filedesc \<Rightarrow> filedesc option" where
  "finstall_fde fp fd cloexec =
     fde_set fd (\<lambda>e. \<lparr>fde_file = Some fp, fde_flags = (if cloexec then 1 else 0)\<rparr>)"

definition finstall_refed ::
    "u64 \<Rightarrow> nat \<Rightarrow> nat \<Rightarrow> bool \<Rightarrow> filedesc \<Rightarrow> ((int + nat) \<times> filedesc) option" where
  "finstall_refed ul maxfd fp cloexec fdp =
     do {
       (r, fdp1) \<leftarrow> fdalloc ul maxfd 0 fdp;
       case r of
         Inl e \<Rightarrow> Some (Inl e, fdp1)
       | Inr fd \<Rightarrow> do { fdp2 \<leftarrow> finstall_fde fp fd cloexec fdp1; Some (Inr fd, fdp2) }
     }"

text \<open>The table of a new process.\<close>

definition fdinit :: filedesc where
  "fdinit = \<lparr>fd_ofiles = replicate NDFILE \<lparr>fde_file = None, fde_flags = 0\<rparr>,
             fd_map = replicate (NDSLOTS NDFILE) 0, fd_freefile = 0\<rparr>"

definition ff_fdisused :: "filedesc \<Rightarrow> int \<Rightarrow> bool option" where
  "ff_fdisused fdp fd =
     (if fd < 0 then Some False
      else if \<not> nat fd < fd_nfiles fdp then Some False
      else do { u \<leftarrow> fdisused fdp (nat fd); Some (u \<and> fde_file (fd_ofiles fdp ! nat fd) \<noteq> None) })"

fun ff_fdused_range :: "u64 \<Rightarrow> nat \<Rightarrow> nat \<Rightarrow> filedesc \<Rightarrow> filedesc option" where
  "ff_fdused_range ul maxfd 0 fdp = Some fdp"
| "ff_fdused_range ul maxfd (Suc n) fdp =
     do { (r, fdp1) \<leftarrow> fdalloc ul maxfd 0 fdp; ff_fdused_range ul maxfd n fdp1 }"

section \<open>Bit searches\<close>

lemma ffsll_loop_spec:
  "w \<noteq> 0 \<Longrightarrow> \<exists>n. ffsll_loop b w = b + n \<and> bit w n \<and> (\<forall>m < n. \<not> bit w m)"
proof (induction b w rule: ffsll_loop.induct)
  case (1 b w)
  show ?case
  proof (cases "bit w 0")
    case True
    then show ?thesis
      by (intro exI [of _ 0]) (simp add: ffsll_loop.simps [of b w] and_one_eq bit_0 odd_iff_mod_2_eq_one)
  next
    case False
    then have w: "\<not> (w = 0 \<or> w AND 1 \<noteq> 0)"
      using 1(2) by (simp add: and_one_eq bit_0 even_iff_mod_2_eq_zero)
    have "drop_bit 1 w \<noteq> 0"
    proof
      assume "drop_bit 1 w = 0"
      then have "\<not> bit w n" for n
        using False bit_drop_bit_eq [of 1 w] by (cases n) (auto simp: fun_eq_iff)
      then show False
        using 1(2) by (auto simp: bit_eq_iff)
    qed
    from 1(1) [OF w this] obtain n where n: "ffsll_loop (b + 1) (drop_bit 1 w) = b + 1 + n"
      "bit (drop_bit 1 w) n" "\<forall>m < n. \<not> bit (drop_bit 1 w) m"
      by auto
    have "\<not> bit w m" if "m < Suc n" for m
      using that False n(3) by (cases m) (auto simp: bit_drop_bit_eq)
    then show ?thesis
      using n w by (intro exI [of _ "Suc n"]) (simp add: ffsll_loop.simps [of b w] bit_drop_bit_eq)
  qed
qed

lemma ffsll_spec:
  assumes "w \<noteq> 0"
  obtains n where "ffsll w = Suc n" "n < 64" "bit w n" "\<forall>m < n. \<not> bit w m"
proof -
  from ffsll_loop_spec [OF assms, of 1] obtain n where
    "ffsll_loop 1 w = 1 + n" "bit w n" "\<forall>m < n. \<not> bit w m"
    by blast
  moreover from this(2) have "n < 64"
    using bit_imp_le_length [of w n] by simp
  ultimately show thesis
    using assms by (intro that) (auto simp: ffsll_def)
qed

lemma flsll_loop_spec:
  "w \<noteq> 0 \<Longrightarrow> \<exists>n. flsll_loop b w = b + n \<and> bit w n \<and> (\<forall>m > n. \<not> bit w m)"
proof (induction b w rule: flsll_loop.induct)
  case (1 b w)
  show ?case
  proof (cases "w = 1")
    case True
    then show ?thesis
      by (intro exI [of _ 0]) (auto simp: flsll_loop.simps [of b 1] bit_1_iff)
  next
    case False
    have "drop_bit 1 w \<noteq> 0"
    proof
      assume "drop_bit 1 w = 0"
      then have d: "\<not> bit w (Suc n)" for n
        using bit_drop_bit_eq [of 1 w] by (auto simp: fun_eq_iff)
      have "w = 0 \<or> w = 1"
      proof (cases "bit w 0")
        case True
        then have "w = 1"
          using d by (intro bit_eqI) (metis bit_1_iff gr0_conv_Suc gr0I)
        then show ?thesis ..
      next
        case False
        then have "bit w n = bit 0 n" for n
          using d by (cases n) auto
        then have "w = 0"
          by (intro bit_eqI)
        then show ?thesis ..
      qed
      then show False
        using 1(2) False by simp
    qed
    with False 1 obtain n where n: "flsll_loop (b + 1) (drop_bit 1 w) = b + 1 + n"
      "bit (drop_bit 1 w) n" "\<forall>m > n. \<not> bit (drop_bit 1 w) m"
      by auto
    have "\<not> bit w m" if "Suc n < m" for m
      using that n(3) by (cases m) (auto simp: bit_drop_bit_eq)
    then show ?thesis
      using n False 1(2) by (intro exI [of _ "Suc n"]) (simp add: flsll_loop.simps [of b w] bit_drop_bit_eq)
  qed
qed

lemma flsll_spec:
  assumes "w \<noteq> 0"
  obtains n where "flsll w = Suc n" "n < 64" "bit w n" "\<forall>m > n. \<not> bit w m"
proof -
  from flsll_loop_spec [OF assms, of 1] obtain n where
    "flsll_loop 1 w = 1 + n" "bit w n" "\<forall>m > n. \<not> bit w m"
    by blast
  moreover from this(2) have "n < 64"
    using bit_imp_le_length [of w n] by simp
  ultimately show thesis
    using assms by (intro that) (auto simp: flsll_def)
qed

section \<open>The descriptors in use\<close>

definition bits_set :: "u64 list \<Rightarrow> nat set" where
  "bits_set m = {n. n div 64 < length m \<and> bit (m ! (n div 64)) (n mod 64)}"

definition used :: "filedesc \<Rightarrow> nat set" where
  "used fdp = bits_set (fd_map fdp)"

lemma bits_set_slot: "off < length m \<Longrightarrow> b < 64 \<Longrightarrow> off * 64 + b \<in> bits_set m \<longleftrightarrow> bit (m ! off) b"
  by (simp add: bits_set_def)

lemma slot_cases:
  assumes "off * 64 \<le> n" "n < (off + 1) * (64 :: nat)"
  obtains b where "n = off * 64 + b" "b < 64"
  using assms that [of "n - off * 64"] by auto

lemma bits_set_upd:
  assumes "i < length m"
  shows "n \<in> bits_set (m[i := w]) \<longleftrightarrow> (if n div 64 = i then bit w (n mod 64) else n \<in> bits_set m)"
  using assms by (auto simp: bits_set_def nth_list_update)

lemma bit_NDBIT: "bit (NDBIT x) b \<longleftrightarrow> b = x mod 64"
  using mod_less_divisor [of 64 x] by (auto simp: NDBIT_def bit_exp_iff)

lemma fl_NDBIT: "fl w (NDBIT x) \<longleftrightarrow> bit w (x mod 64)"
  by (rule fl_bit) (simp add: NDBIT_def)

text \<open>A slot is full when it is the word of all ones.\<close>

lemma ffree_loop_spec:
  assumes "maxoff \<le> length m"
  shows "(\<exists>n. ffree_loop (- 1) m off maxoff siz = Some (int n) \<and> off * 64 \<le> n \<and> n < maxoff * 64 \<and>
            n \<notin> bits_set m \<and> (\<forall>j. off * 64 \<le> j \<and> j < n \<longrightarrow> j \<in> bits_set m)) \<or>
         ffree_loop (- 1) m off maxoff siz = Some (int siz) \<and>
            (\<forall>j. off * 64 \<le> j \<and> j < maxoff * 64 \<longrightarrow> j \<in> bits_set m)"
proof (induction "maxoff - off" arbitrary: off)
  case 0
  then show ?case
    by (intro disjI2) (auto simp: ffree_loop.simps [of _ _ off])
next
  case (Suc d)
  then have off: "off < maxoff" "off < length m"
    using assms by auto
  show ?case
  proof (cases "m ! off = - 1")
    case True
    have full: "j \<in> bits_set m" if "off * 64 \<le> j" "j < (off + 1) * 64" for j
      using that by (rule slot_cases) (simp add: bits_set_slot off(2) True)
    have eq: "ffree_loop (- 1) m off maxoff siz = ffree_loop (- 1) m (off + 1) maxoff siz"
      using off True by (simp add: ffree_loop.simps [of _ _ off] map_get_def)
    have below: "j \<in> bits_set m" if "off * 64 \<le> j" "\<not> (off + 1) * 64 \<le> j" for j
      using full [OF that(1)] that(2) by simp
    from Suc(1) [of "off + 1"] Suc(2)
    have "(\<exists>n. ffree_loop (- 1) m (off + 1) maxoff siz = Some (int n) \<and> (off + 1) * 64 \<le> n \<and> n < maxoff * 64 \<and>
            n \<notin> bits_set m \<and> (\<forall>j. (off + 1) * 64 \<le> j \<and> j < n \<longrightarrow> j \<in> bits_set m)) \<or>
         ffree_loop (- 1) m (off + 1) maxoff siz = Some (int siz) \<and>
            (\<forall>j. (off + 1) * 64 \<le> j \<and> j < maxoff * 64 \<longrightarrow> j \<in> bits_set m)" (is "(\<exists>n. ?P n) \<or> ?Q")
      by simp
    then show ?thesis
    proof
      assume "\<exists>n. ?P n"
      then obtain n where n: "?P n" ..
      then have "off * 64 \<le> n" "\<forall>j. off * 64 \<le> j \<and> j < n \<longrightarrow> j \<in> bits_set m"
        using below by auto
      then show ?thesis
        unfolding eq using n by (intro disjI1 exI [of _ n] conjI) (elim conjE, assumption)+
    next
      assume q: ?Q
      then have "\<forall>j. off * 64 \<le> j \<and> j < maxoff * 64 \<longrightarrow> j \<in> bits_set m"
        using below by auto
      then show ?thesis
        unfolding eq using q by (intro disjI2 conjI) (elim conjE, assumption)+
    qed
  next
    case False
    then have "NOT (m ! off) \<noteq> 0"
      by (metis bit.compl_zero bit.double_compl)
    then obtain b where b: "ffsll (NOT (m ! off)) = Suc b" "b < 64" "bit (NOT (m ! off)) b"
      "\<forall>c < b. \<not> bit (NOT (m ! off)) c"
      by (rule ffsll_spec)
    have "ffree_loop (- 1) m off maxoff siz = Some (int (off * 64 + b))"
      using off False b by (simp add: ffree_loop.simps [of _ _ off] map_get_def)
    moreover have "off * 64 + b < maxoff * 64"
      using off(1) b(2) by simp
    moreover have "off * 64 + b \<notin> bits_set m"
      using b(2,3) by (simp add: bits_set_slot off(2) bit_not_iff)
    moreover have "j \<in> bits_set m" if "off * 64 \<le> j" "j < off * 64 + b" for j
    proof -
      define c where "c = j - off * 64"
      have c: "j = off * 64 + c" "c < b" "c < 64"
        using that b(2) by (simp_all add: c_def)
      have "bit (m ! off) c"
        using b(4) c(2,3) by (simp add: bit_not_iff)
      then show ?thesis
        unfolding c(1) bits_set_slot [OF off(2) c(3)] .
    qed
    ultimately show ?thesis
      by (intro disjI1 exI [of _ "off * 64 + b"] conjI) (simp_all del: of_nat_add)
  qed
qed

lemma bit_low_mask:
  "0 < r \<Longrightarrow> r < 64 \<Longrightarrow> b < 64 \<Longrightarrow> bit (NOT (drop_bit (64 - r) (- 1 :: u64))) b \<longleftrightarrow> r \<le> b"
  by (auto simp: bit_not_iff bit_mask_iff)

section \<open>The invariant of the table\<close>

definition fd_inv :: "filedesc \<Rightarrow> bool" where
  "fd_inv fdp \<longleftrightarrow>
     0 < fd_nfiles fdp \<and> length (fd_map fdp) = NDSLOTS (fd_nfiles fdp) \<and>
     used fdp \<subseteq> {..< fd_nfiles fdp} \<and> {..< fd_freefile fdp} \<subseteq> used fdp \<and>
     (\<forall>n < fd_nfiles fdp. fde_file (fd_ofiles fdp ! n) \<noteq> None \<longrightarrow> n \<in> used fdp)"

lemma fd_invD:
  assumes "fd_inv fdp"
  shows "0 < fd_nfiles fdp" "length (fd_map fdp) = NDSLOTS (fd_nfiles fdp)" "used fdp \<subseteq> {..< fd_nfiles fdp}"
    "{..< fd_freefile fdp} \<subseteq> used fdp" "n < fd_nfiles fdp \<Longrightarrow> fde_file (fd_ofiles fdp ! n) \<noteq> None \<Longrightarrow> n \<in> used fdp"
  using assms by (auto simp: fd_inv_def)

lemma NDSLOTS_bound: "n < x \<Longrightarrow> n div 64 < NDSLOTS x" "x \<le> NDSLOTS x * 64"
  by (simp_all add: NDSLOTS_def)

definition lowest_free :: "nat set \<Rightarrow> nat \<Rightarrow> nat" where
  "lowest_free U low = (LEAST n. low \<le> n \<and> n \<notin> U)"

lemma lowest_freeI:
  "low \<le> n \<Longrightarrow> n \<notin> U \<Longrightarrow> (\<And>j. low \<le> j \<Longrightarrow> j < n \<Longrightarrow> j \<in> U) \<Longrightarrow> lowest_free U low = n"
  unfolding lowest_free_def by (rule Least_equality) (auto simp: not_less [symmetric])

lemma lowest_free_props:
  assumes "finite U"
  shows "low \<le> lowest_free U low" "lowest_free U low \<notin> U" "low \<le> j \<Longrightarrow> j < lowest_free U low \<Longrightarrow> j \<in> U"
proof -
  obtain k where "\<forall>x \<in> U. x < k"
    using assms finite_nat_set_iff_bounded by blast
  then have "\<exists>n. low \<le> n \<and> n \<notin> U"
    by (intro exI [of _ "max low k"]) auto
  then have "low \<le> lowest_free U low \<and> lowest_free U low \<notin> U"
    unfolding lowest_free_def by (rule LeastI_ex)
  then show "low \<le> lowest_free U low" "lowest_free U low \<notin> U"
    by simp_all
  show "low \<le> j \<Longrightarrow> j < lowest_free U low \<Longrightarrow> j \<in> U"
    unfolding lowest_free_def using not_less_Least by blast
qed

lemma ffree_loop_lowest:
  assumes inv: "fd_inv fdp" and low: "low < fd_nfiles fdp" "low \<le> off * 64"
    and full: "\<And>j. low \<le> j \<Longrightarrow> j < off * 64 \<Longrightarrow> j \<in> used fdp"
  shows "ffree_loop (- 1) (fd_map fdp) off (NDSLOTS (fd_nfiles fdp)) (fd_nfiles fdp) =
           Some (int (lowest_free (used fdp) low))"
proof -
  note i = fd_invD [OF inv]
  have split: "j < off * 64 \<or> off * 64 \<le> j" for j
    by auto
  from ffree_loop_spec [of "NDSLOTS (fd_nfiles fdp)" "fd_map fdp" off "fd_nfiles fdp"] i(2)
  consider n where "ffree_loop (- 1) (fd_map fdp) off (NDSLOTS (fd_nfiles fdp)) (fd_nfiles fdp) = Some (int n)"
      "off * 64 \<le> n" "n \<notin> used fdp" "\<And>j. off * 64 \<le> j \<Longrightarrow> j < n \<Longrightarrow> j \<in> used fdp"
    | "ffree_loop (- 1) (fd_map fdp) off (NDSLOTS (fd_nfiles fdp)) (fd_nfiles fdp) = Some (int (fd_nfiles fdp))"
      "\<And>j. off * 64 \<le> j \<Longrightarrow> j < NDSLOTS (fd_nfiles fdp) * 64 \<Longrightarrow> j \<in> used fdp"
    unfolding used_def by (metis le_refl)
  then show ?thesis
  proof cases
    case 1
    have "lowest_free (used fdp) low = n"
      using 1 low(2) full split by (intro lowest_freeI) (auto dest: le_trans)
    then show ?thesis
      using 1(1) by simp
  next
    case 2
    have "lowest_free (used fdp) low = fd_nfiles fdp"
    proof (rule lowest_freeI)
      show "low \<le> fd_nfiles fdp" "fd_nfiles fdp \<notin> used fdp"
        using low(1) i(3) by auto
      show "j \<in> used fdp" if "low \<le> j" "j < fd_nfiles fdp" for j
        using split [of j] full [OF that(1)] 2(2) [of j] that(2) NDSLOTS_bound(2) [of "fd_nfiles fdp"] by auto
    qed
    then show ?thesis
      using 2(1) by simp
  qed
qed

lemma fd_first_free_lowest:
  assumes inv: "fd_inv fdp"
  shows "fd_first_free (- 1) fdp low (fd_nfiles fdp) = Some (int (lowest_free (used fdp) low))"
proof (cases "fd_nfiles fdp \<le> low")
  case True
  then have "lowest_free (used fdp) low = low"
    using fd_invD(3) [OF inv] by (intro lowest_freeI) auto
  then show ?thesis
    using True by (simp add: fd_first_free_def)
next
  case False
  define off where "off = NDSLOT low"
  define w where "w = fd_map fdp ! off"
  define mk where "mk = NOT (drop_bit (64 - low mod 64) (- 1 :: u64)) AND NOT w"
  have off: "off < length (fd_map fdp)"
    using False NDSLOTS_bound(1) [of low "fd_nfiles fdp"] fd_invD(2) [OF inv] by (simp add: off_def NDSLOT_def)
  have low: "low = off * 64 + low mod 64"
    by (simp add: off_def NDSLOT_def)
  have slot: "off * 64 + c \<in> used fdp \<longleftrightarrow> bit w c" if "c < 64" for c
    using that off by (simp add: used_def bits_set_slot w_def)
  show ?thesis
  proof (cases "low mod 64 = 0")
    case True
    then have "ffree_loop (- 1) (fd_map fdp) off (NDSLOTS (fd_nfiles fdp)) (fd_nfiles fdp) = Some (int (lowest_free (used fdp) low))"
      using False low by (intro ffree_loop_lowest inv) auto
    then show ?thesis
      using False True by (simp add: fd_first_free_def off_def)
  next
    case r: False
    have bits: "bit mk c \<longleftrightarrow> low mod 64 \<le> c \<and> \<not> bit w c" if "c < 64" for c
      using that r bit_low_mask [of "low mod 64" c] by (simp add: mk_def bit_and_iff bit_not_iff)
    have run: "fd_first_free (- 1) fdp low (fd_nfiles fdp) =
        (if mk \<noteq> 0 then Some (int (off * 64) + int (ffsll mk) - 1)
         else ffree_loop (- 1) (fd_map fdp) (off + 1) (NDSLOTS (fd_nfiles fdp)) (fd_nfiles fdp))"
      using False r off by (simp add: fd_first_free_def map_get_def Let_def off_def w_def mk_def)
    show ?thesis
    proof (cases "mk = 0")
      case True
      have "j \<in> used fdp" if "low \<le> j" "j < (off + 1) * 64" for j
      proof (rule slot_cases)
        show "off * 64 \<le> j" "j < (off + 1) * 64"
          using that low by auto
        fix c assume c: "j = off * 64 + c" "c < 64"
        then have "low mod 64 \<le> c"
          using that(1) low by linarith
        then show "j \<in> used fdp"
          using bits [OF c(2)] slot [OF c(2)] True c(1) by simp
      qed
      moreover have "low \<le> (off + 1) * 64"
        using mod_less_divisor [of 64 low] by (subst low) simp
      ultimately have "ffree_loop (- 1) (fd_map fdp) (off + 1) (NDSLOTS (fd_nfiles fdp)) (fd_nfiles fdp) =
          Some (int (lowest_free (used fdp) low))"
        using False by (intro ffree_loop_lowest inv) auto
      then show ?thesis
        using True by (simp add: run)
    next
      case nz: False
      then obtain b where b: "ffsll mk = Suc b" "b < 64" "bit mk b" "\<forall>c < b. \<not> bit mk c"
        by (rule ffsll_spec)
      have "lowest_free (used fdp) low = off * 64 + b"
      proof (rule lowest_freeI)
        show "low \<le> off * 64 + b" "off * 64 + b \<notin> used fdp"
          using low bits [OF b(2)] b(3) slot [OF b(2)] by linarith+
        fix j assume j: "low \<le> j" "j < off * 64 + b"
        define c where "c = j - off * 64"
        have c: "j = off * 64 + c" "c < b" "low mod 64 \<le> c"
          using j low by (simp_all add: c_def)
        then show "j \<in> used fdp"
          using b(2,4) bits [of c] slot [of c] by auto
      qed
      then show ?thesis
        using nz b(1) by (simp add: run)
    qed
  qed
qed

section \<open>The operations keep the invariant\<close>

lemma finite_used: "fd_inv fdp \<Longrightarrow> finite (used fdp)"
  using fd_invD(3) finite_subset by blast

lemma fdused_ok:
  assumes inv: "fd_inv fdp" and fd: "fd < fd_nfiles fdp"
  obtains fdp' where "fdused (int fd) fdp = Some fdp'" "used fdp' = insert fd (used fdp)"
    "fd_ofiles fdp' = fd_ofiles fdp" "fd_inv fdp'"
proof -
  note i = fd_invD [OF inv]
  have sl: "NDSLOT fd < length (fd_map fdp)"
    using NDSLOTS_bound(1) [OF fd] i(2) by (simp add: NDSLOT_def)
  define m where "m = (fd_map fdp)[NDSLOT fd := fd_map fdp ! NDSLOT fd OR NDBIT fd]"
  define ff where "ff = (if fd = fd_freefile fdp then fd_freefile fdp + 1 else fd_freefile fdp)"
  have eq: "n div 64 = fd div 64 \<and> n mod 64 = fd mod 64 \<longleftrightarrow> n = fd" for n
    by (metis div_mult_mod_eq)
  have m: "bits_set m = insert fd (bits_set (fd_map fdp))"
  proof (rule set_eqI)
    fix n
    show "n \<in> bits_set m \<longleftrightarrow> n \<in> insert fd (bits_set (fd_map fdp))"
      unfolding m_def bits_set_upd [OF sl] using eq [of n] sl
      by (auto simp: bit_or_iff bit_NDBIT NDSLOT_def bits_set_def)
  qed
  show thesis
  proof (rule that)
    show "fdused (int fd) fdp = Some (fdp\<lparr>fd_map := m, fd_freefile := ff\<rparr>)"
      using sl by (simp add: fdused_def fdused_init_def map_get_def m_def ff_def)
    show "used (fdp\<lparr>fd_map := m, fd_freefile := ff\<rparr>) = insert fd (used fdp)"
      by (simp add: used_def m)
    show "fd_inv (fdp\<lparr>fd_map := m, fd_freefile := ff\<rparr>)"
      using i fd by (auto simp: fd_inv_def used_def m fd_nfiles_def ff_def less_Suc_eq) (simp_all add: m_def)
  qed simp
qed

lemma fdunused_ok:
  assumes inv: "fd_inv fdp" and fd: "fd < fd_nfiles fdp" "fde_file (fd_ofiles fdp ! fd) = None"
  obtains fdp' where "fdunused fd fdp = Some fdp'" "used fdp' = used fdp - {fd}"
    "fd_ofiles fdp' = fd_ofiles fdp" "fd_inv fdp'"
proof -
  note i = fd_invD [OF inv]
  have sl: "NDSLOT fd < length (fd_map fdp)"
    using NDSLOTS_bound(1) [OF fd(1)] i(2) by (simp add: NDSLOT_def)
  define m where "m = (fd_map fdp)[NDSLOT fd := fd_map fdp ! NDSLOT fd AND NOT (NDBIT fd)]"
  define ff where "ff = (if fd < fd_freefile fdp then fd else fd_freefile fdp)"
  have eq: "n div 64 = fd div 64 \<and> n mod 64 = fd mod 64 \<longleftrightarrow> n = fd" for n
    by (metis div_mult_mod_eq)
  have m: "bits_set m = bits_set (fd_map fdp) - {fd}"
  proof (rule set_eqI)
    fix n
    show "n \<in> bits_set m \<longleftrightarrow> n \<in> bits_set (fd_map fdp) - {fd}"
      unfolding m_def bits_set_upd [OF sl] using eq [of n] sl mod_less_divisor [of 64 n]
      by (auto simp: bit_and_iff bit_not_iff bit_NDBIT NDSLOT_def bits_set_def)
  qed
  show thesis
  proof (rule that)
    show "fdunused fd fdp = Some (fdp\<lparr>fd_map := m, fd_freefile := ff\<rparr>)"
      using sl by (simp add: fdunused_def map_get_def m_def ff_def Let_def)
    show "used (fdp\<lparr>fd_map := m, fd_freefile := ff\<rparr>) = used fdp - {fd}"
      by (simp add: used_def m)
    show "fd_inv (fdp\<lparr>fd_map := m, fd_freefile := ff\<rparr>)"
      using i fd by (auto simp: fd_inv_def used_def m fd_nfiles_def ff_def) (simp_all add: m_def)
  qed simp
qed

text \<open>What a lookup of a descriptor yields.\<close>

definition fdt :: "filedesc \<Rightarrow> nat \<rightharpoonup> nat" where
  "fdt fdp n = (if n < fd_nfiles fdp then fde_file (fd_ofiles fdp ! n) else None)"

lemma fget_locked_fdt: "fget_locked fdp fd = fdt fdp fd"
  by (simp add: fget_locked_def fdt_def)

lemma fdt_cong: "fd_ofiles fdp' = fd_ofiles fdp \<Longrightarrow> fdt fdp' = fdt fdp"
  by (simp add: fdt_def fd_nfiles_def fun_eq_iff)

lemma fdt_used: "fd_inv fdp \<Longrightarrow> fdt fdp n = Some f \<Longrightarrow> n \<in> used fdp"
  using fd_invD(5) [of fdp n] by (auto simp: fdt_def split: if_splits)

lemma fdfree_ok:
  assumes inv: "fd_inv fdp" and fd: "fd < fd_nfiles fdp"
  obtains fdp' where "fdfree fd fdp = Some fdp'" "used fdp' = used fdp - {fd}"
    "fdt fdp' = (fdt fdp)(fd := None)" "fd_inv fdp'"
proof -
  define fdp1 where "fdp1 = fdp\<lparr>fd_ofiles := (fd_ofiles fdp)[fd := (fd_ofiles fdp ! fd)\<lparr>fde_file := None\<rparr>]\<rparr>"
  have f: "fde_file (fd_ofiles fdp1 ! n) = (if n = fd then None else fde_file (fd_ofiles fdp ! n))" if "n < fd_nfiles fdp" for n
    using that by (simp add: fdp1_def fd_nfiles_def nth_list_update)
  have n: "fd_nfiles fdp1 = fd_nfiles fdp" "used fdp1 = used fdp"
    by (simp_all add: fdp1_def fd_nfiles_def used_def)
  have inv1: "fd_inv fdp1"
    using fd_invD [OF inv] f by (simp add: fd_inv_def n) (simp add: fdp1_def)
  obtain fdp' where "fdunused fd fdp1 = Some fdp'" "used fdp' = used fdp1 - {fd}" "fd_ofiles fdp' = fd_ofiles fdp1" "fd_inv fdp'"
    using fdunused_ok [OF inv1] fd f n by metis
  moreover have "fdfree fd fdp = fdunused fd fdp1"
    using fd by (simp add: fdfree_def fde_set_def fd_nfiles_def fdp1_def)
  moreover have "fdt fdp1 = (fdt fdp)(fd := None)"
    using f fd by (auto simp: fdt_def n)
  ultimately show thesis
    using that fdt_cong n by metis
qed

lemma NDSLOTS_mono: "m \<le> n \<Longrightarrow> NDSLOTS m \<le> NDSLOTS n"
  by (simp add: NDSLOTS_def div_le_mono)

lemma NDSLOTS_mult: "NDSLOTS (k * 64) = k"
  by (simp add: NDSLOTS_def)

lemma bits_set_append_zero: "bits_set (m @ replicate k 0) = bits_set m"
proof (rule set_eqI)
  fix n
  have "replicate k (0 :: u64) ! (n div 64 - length m) = 0" if "n div 64 < length m + k" "\<not> n div 64 < length m"
    using that by (intro nth_replicate) linarith
  then show "n \<in> bits_set (m @ replicate k 0) \<longleftrightarrow> n \<in> bits_set m"
    by (cases "n div 64 < length m") (auto simp: bits_set_def nth_append)
qed

lemma fdgrowtable_ok:
  assumes inv: "fd_inv fdp"
  shows "fd_inv (fdgrowtable nfd fdp)" "used (fdgrowtable nfd fdp) = used fdp" "fdt (fdgrowtable nfd fdp) = fdt fdp"
    "nfd \<le> fd_nfiles (fdgrowtable nfd fdp)" "fd_nfiles fdp \<le> fd_nfiles (fdgrowtable nfd fdp)"
proof -
  note i = fd_invD [OF inv]
  define nn where "nn = NDSLOTS nfd * 64"
  have nn: "nfd \<le> nn" "NDSLOTS nn = NDSLOTS nfd"
    by (simp_all add: nn_def NDSLOTS_bound(2) NDSLOTS_mult)
  define g where "g = fdgrowtable nfd fdp"
  consider "g = fdp" "nn \<le> fd_nfiles fdp"
    | "g = fdp\<lparr>fd_map := fd_map fdp @ replicate (NDSLOTS nn - NDSLOTS (fd_nfiles fdp)) 0,
           fd_ofiles := fd_ofiles fdp @ replicate (nn - fd_nfiles fdp) \<lparr>fde_file = None, fde_flags = 0\<rparr>\<rparr>" "fd_nfiles fdp < nn"
    using i(2) by (cases "nn \<le> fd_nfiles fdp") (auto simp: g_def fdgrowtable_def Let_def nn_def [symmetric])
  then have "fd_inv g \<and> used g = used fdp \<and> fdt g = fdt fdp \<and> nfd \<le> fd_nfiles g \<and> fd_nfiles fdp \<le> fd_nfiles g"
  proof cases
    case 1
    then show ?thesis
      using inv nn(1) by simp
  next
    case 2
    have n: "fd_nfiles g = nn"
      using 2 by (simp add: fd_nfiles_def)
    have u: "used g = used fdp"
      unfolding used_def 2(1) by (simp add: bits_set_append_zero)
    have f: "fd_ofiles g ! k = (if k < fd_nfiles fdp then fd_ofiles fdp ! k else \<lparr>fde_file = None, fde_flags = 0\<rparr>)" if "k < nn" for k
      using that by (simp add: 2(1) nth_append fd_nfiles_def)
    have t: "fdt g = fdt fdp"
      using 2(2) by (auto simp: fdt_def n f)
    have "length (fd_map g) = NDSLOTS nn"
      using i(2) 2(2) NDSLOTS_mono [of "fd_nfiles fdp" nn] by (simp add: 2(1))
    moreover have "fd_freefile g = fd_freefile fdp"
      by (simp add: 2(1))
    ultimately have "fd_inv g"
      using i 2(2) by (auto simp: fd_inv_def n u f split: if_splits)
    then show ?thesis
      using u t n nn(1) 2(2) by simp
  qed
  then show "fd_inv (fdgrowtable nfd fdp)" "used (fdgrowtable nfd fdp) = used fdp" "fdt (fdgrowtable nfd fdp) = fdt fdp"
    "nfd \<le> fd_nfiles (fdgrowtable nfd fdp)" "fd_nfiles fdp \<le> fd_nfiles (fdgrowtable nfd fdp)"
    by (simp_all add: g_def)
qed

lemma fdgrowtable_exp_ok:
  assumes inv: "fd_inv fdp"
  shows "fd_inv (fdgrowtable_exp nfd fdp)" "used (fdgrowtable_exp nfd fdp) = used fdp"
    "fdt (fdgrowtable_exp nfd fdp) = fdt fdp" "nfd \<le> fd_nfiles (fdgrowtable_exp nfd fdp)"
  using fdgrowtable_ok [OF inv, of nfd] fdgrowtable_ok [OF inv, of "fd_nfiles fdp * 2"]
  by (auto simp: fdgrowtable_exp_def Let_def)

text \<open>The allocation takes the lowest free descriptor from the minimum on.\<close>

lemma fdalloc_ok:
  fixes minfd maxfd :: nat
  assumes inv: "fd_inv fdp"
  defines "fd \<equiv> lowest_free (used fdp) minfd"
  obtains "maxfd \<le> fd" "fdalloc (- 1) maxfd minfd fdp = Some (Inl EMFILE, fdp)"
  | fdp' where "fd < maxfd" "fdalloc (- 1) maxfd minfd fdp = Some (Inr fd, fdp')" "fd_inv fdp'"
      "used fdp' = insert fd (used fdp)" "fdt fdp' = fdt fdp" "fd < fd_nfiles fdp'"
proof -
  note i = fd_invD [OF inv]
  define minfd1 where "minfd1 = (if fd_freefile fdp > minfd then fd_freefile fdp else minfd)"
  have l: "minfd \<le> fd" "fd \<notin> used fdp" "\<And>j. minfd \<le> j \<Longrightarrow> j < fd \<Longrightarrow> j \<in> used fdp"
    using lowest_free_props [OF finite_used [OF inv]] by (simp_all add: fd_def)
  have "fd_freefile fdp \<le> fd"
    using i(4) l(2) by (auto simp: not_less [symmetric])
  then have "lowest_free (used fdp) minfd1 = fd"
    using l i(4) by (intro lowest_freeI) (auto simp: minfd1_def split: if_splits)
  then have free: "fd_first_free (- 1) fdp minfd1 (fd_nfiles fdp) = Some (int fd)"
    by (simp add: fd_first_free_lowest [OF inv])
  define fdp1 where "fdp1 = (if fd_nfiles fdp \<le> fd then fdgrowtable_exp (min (fd * 2) maxfd) fdp else fdp)"
  have run: "fdalloc (- 1) maxfd minfd fdp =
      (if maxfd \<le> fd then Some (Inl EMFILE, fdp) else do { fdp2 \<leftarrow> fdused (int fd) fdp1; Some (Inr fd, fdp2) })"
  proof -
    have "nat (min (int fd * 2) (int maxfd)) = min (fd * 2) maxfd"
      by linarith
    then show ?thesis
      by (simp add: fdalloc_def minfd1_def [symmetric] free fdp1_def Let_def)
  qed
  show thesis
  proof (cases "maxfd \<le> fd")
    case True
    then show thesis
      using that(1) run by simp
  next
    case False
    have "fd < min (fd * 2) maxfd" if "fd_nfiles fdp \<le> fd"
      using False that i(1) by simp
    then have g: "fd_inv fdp1" "used fdp1 = used fdp" "fdt fdp1 = fdt fdp" "fd < fd_nfiles fdp1"
      using fdgrowtable_exp_ok [OF inv, of "min (fd * 2) maxfd"] inv by (auto simp: fdp1_def)
    obtain fdp' where "fdused (int fd) fdp1 = Some fdp'" "used fdp' = insert fd (used fdp1)"
      "fd_ofiles fdp' = fd_ofiles fdp1" "fd_inv fdp'"
      using fdused_ok [OF g(1,4)] by blast
    then show thesis
      using that(2) [of fdp'] run False g fdt_cong [of fdp' fdp1] by (simp add: fd_nfiles_def)
  qed
qed

end
