(* ===== verification/Refine.thy ===== *)
theory Refine
  imports Main
begin

text \<open>
  Functional refinement.  A concrete step function that may be undefined implements an abstract
  one under an invariant when it is defined wherever the invariant holds, keeps it, and has the
  result and the abstraction of the abstract step.  The locale carries this from single steps to
  sequences of them.
\<close>

fun run :: "('op \<Rightarrow> 'c \<Rightarrow> ('r \<times> 'c) option) \<Rightarrow> 'op list \<Rightarrow> 'c \<Rightarrow> ('r list \<times> 'c) option" where
  "run f [] c = Some ([], c)"
| "run f (x # xs) c =
     (case f x c of None \<Rightarrow> None
      | Some (r, c1) \<Rightarrow> (case run f xs c1 of None \<Rightarrow> None | Some (rs, c2) \<Rightarrow> Some (r # rs, c2)))"

fun run_spec :: "('op \<Rightarrow> 'a \<Rightarrow> 'r \<times> 'a) \<Rightarrow> 'op list \<Rightarrow> 'a \<Rightarrow> 'r list \<times> 'a" where
  "run_spec g [] a = ([], a)"
| "run_spec g (x # xs) a =
     (case g x a of (r, a1) \<Rightarrow> (case run_spec g xs a1 of (rs, a2) \<Rightarrow> (r # rs, a2)))"

locale refinement =
  fixes step_c :: "'op \<Rightarrow> 'c \<Rightarrow> ('r \<times> 'c) option"
    and step_a :: "'op \<Rightarrow> 'a \<Rightarrow> 'r \<times> 'a"
    and abs_c :: "'c \<Rightarrow> 'a"
    and inv_c :: "'c \<Rightarrow> bool"
  assumes step: "inv_c c \<Longrightarrow> \<exists>r c'. step_c x c = Some (r, c') \<and> step_a x (abs_c c) = (r, abs_c c') \<and> inv_c c'"
begin

lemma run_refines:
  "inv_c c \<Longrightarrow> \<exists>rs c'. run step_c xs c = Some (rs, c') \<and> run_spec step_a xs (abs_c c) = (rs, abs_c c') \<and> inv_c c'"
proof (induction xs arbitrary: c)
  case (Cons x xs)
  obtain r c1 where 1: "step_c x c = Some (r, c1)" "step_a x (abs_c c) = (r, abs_c c1)" "inv_c c1"
    using step [OF Cons(2)] by blast
  obtain rs c2 where "run step_c xs c1 = Some (rs, c2)" "run_spec step_a xs (abs_c c1) = (rs, abs_c c2)" "inv_c c2"
    using Cons(1) [OF 1(3)] by blast
  then show ?case
    using 1 by simp
qed simp

text \<open>An invariant of the abstract machine holds of every state the concrete one reaches.\<close>

lemma run_invariant:
  assumes "inv_c c" and "run step_c xs c = Some (rs, c')" and "P (abs_c c)"
    and "\<And>x a. P a \<Longrightarrow> P (snd (step_a x a))"
  shows "P (abs_c c')"
proof -
  have "P (snd (run_spec step_a ys a))" if "P a" for ys a
    using that by (induction ys arbitrary: a) (auto simp: split_beta assms(4))
  then show ?thesis
    using run_refines [OF assms(1), of xs] assms(2,3) by (metis option.inject prod.inject snd_conv)
qed

end

end
