(* ===== verification/Filedesc_Props.thy ===== *)
theory Filedesc_Props
  imports Filedesc Refine
begin

text \<open>
  The descriptor table implements a set of descriptors in use with a map to the open files:
  allocation takes the lowest free descriptor, closing one frees it.  Further: an allocation of
  several descriptors is all or nothing, and the last descriptor in use is found.
\<close>

section \<open>The abstract table\<close>

type_synonym fdspec = "nat set \<times> (nat \<rightharpoonup> nat)"

definition fd_abs :: "filedesc \<Rightarrow> fdspec" where
  "fd_abs fdp = (used fdp, fdt fdp)"

text \<open>
  The operations on the table: the allocation of a descriptor, the installation of a file, the
  part of \<^verbatim>\<open>kern_close\<close> that takes the descriptor out of the table, and the lookup.
\<close>

datatype fdop = Fd_alloc nat | Fd_install nat bool | Fd_close nat | Fd_lookup nat

definition close_fd :: "nat \<Rightarrow> filedesc \<Rightarrow> ((int + nat) \<times> filedesc) option" where
  "close_fd fd fdp =
     (case fget_locked fdp fd of
        None \<Rightarrow> Some (Inl EBADF, fdp)
      | Some fp \<Rightarrow> do { fdp1 \<leftarrow> fdfree fd fdp; Some (Inr fp, fdp1) })"

fun fd_step :: "u64 \<Rightarrow> nat \<Rightarrow> fdop \<Rightarrow> filedesc \<Rightarrow> ((int + nat) \<times> filedesc) option" where
  "fd_step ul maxfd (Fd_alloc minfd) fdp = fdalloc ul maxfd minfd fdp"
| "fd_step ul maxfd (Fd_install fp cloexec) fdp = finstall_refed ul maxfd fp cloexec fdp"
| "fd_step ul maxfd (Fd_close fd) fdp = close_fd fd fdp"
| "fd_step ul maxfd (Fd_lookup fd) fdp =
     Some (case fget_locked fdp fd of None \<Rightarrow> Inl EBADF | Some fp \<Rightarrow> Inr fp, fdp)"

definition alloc_spec :: "nat \<Rightarrow> nat \<Rightarrow> fdspec \<Rightarrow> (int + nat) \<times> fdspec" where
  "alloc_spec maxfd minfd a =
     (let fd = lowest_free (fst a) minfd in
      if maxfd \<le> fd then (Inl EMFILE, a) else (Inr fd, (insert fd (fst a), snd a)))"

fun fd_spec :: "nat \<Rightarrow> fdop \<Rightarrow> fdspec \<Rightarrow> (int + nat) \<times> fdspec" where
  "fd_spec maxfd (Fd_alloc minfd) a = alloc_spec maxfd minfd a"
| "fd_spec maxfd (Fd_install fp cloexec) a =
     (case alloc_spec maxfd 0 a of
        (Inl e, a1) \<Rightarrow> (Inl e, a1)
      | (Inr fd, a1) \<Rightarrow> (Inr fd, (fst a1, (snd a1)(fd \<mapsto> fp))))"
| "fd_spec maxfd (Fd_close fd) a =
     (case snd a fd of
        None \<Rightarrow> (Inl EBADF, a)
      | Some fp \<Rightarrow> (Inr fp, (fst a - {fd}, (snd a)(fd := None))))"
| "fd_spec maxfd (Fd_lookup fd) a = (case snd a fd of None \<Rightarrow> Inl EBADF | Some fp \<Rightarrow> Inr fp, a)"

lemma fdalloc_refines:
  assumes "fd_inv fdp"
  shows "\<exists>r fdp'. fdalloc (- 1) maxfd minfd fdp = Some (r, fdp') \<and>
    alloc_spec maxfd minfd (fd_abs fdp) = (r, fd_abs fdp') \<and> fd_inv fdp' \<and> (\<forall>fd. r = Inr fd \<longrightarrow> fd < fd_nfiles fdp' \<and> fd \<in> used fdp')"
  by (rule fdalloc_ok [OF assms, where minfd = minfd and maxfd = maxfd])
    (auto simp: alloc_spec_def fd_abs_def Let_def assms)

lemma finstall_fde_ok:
  assumes inv: "fd_inv fdp" and fd: "fd < fd_nfiles fdp" "fd \<in> used fdp"
  obtains fdp' where "finstall_fde fp fd cloexec fdp = Some fdp'" "used fdp' = used fdp"
    "fdt fdp' = (fdt fdp)(fd \<mapsto> fp)" "fd_inv fdp'"
proof -
  define fdp' where "fdp' = fdp\<lparr>fd_ofiles := (fd_ofiles fdp)[fd := \<lparr>fde_file = Some fp, fde_flags = (if cloexec then 1 else 0)\<rparr>]\<rparr>"
  have f: "fde_file (fd_ofiles fdp' ! n) = (if n = fd then Some fp else fde_file (fd_ofiles fdp ! n))" if "n < fd_nfiles fdp" for n
    using that by (simp add: fdp'_def fd_nfiles_def nth_list_update)
  have n: "fd_nfiles fdp' = fd_nfiles fdp" "used fdp' = used fdp"
    by (simp_all add: fdp'_def fd_nfiles_def used_def)
  have "fd_inv fdp'"
    using fd_invD [OF inv] f fd(2) by (simp add: fd_inv_def n) (simp add: fdp'_def)
  moreover have "fdt fdp' = (fdt fdp)(fd \<mapsto> fp)"
    using f fd(1) by (auto simp: fdt_def n)
  moreover have "finstall_fde fp fd cloexec fdp = Some fdp'"
    using fd(1) by (simp add: finstall_fde_def fde_set_def fd_nfiles_def fdp'_def)
  ultimately show thesis
    using n(2) by (intro that)
qed

lemma close_fd_ok:
  assumes "fd_inv fdp"
  shows "\<exists>r fdp'. close_fd fd fdp = Some (r, fdp') \<and> fd_spec maxfd (Fd_close fd) (fd_abs fdp) = (r, fd_abs fdp') \<and> fd_inv fdp'"
proof (cases "fdt fdp fd")
  case None
  then show ?thesis
    using assms by (simp add: close_fd_def fget_locked_fdt fd_abs_def)
next
  case (Some fp)
  then have "fd < fd_nfiles fdp"
    by (simp add: fdt_def split: if_splits)
  then show ?thesis
    by (rule fdfree_ok [OF assms]) (auto simp: close_fd_def fget_locked_fdt fd_abs_def Some)
qed

lemma fd_step_refines:
  assumes inv: "fd_inv fdp"
  shows "\<exists>r fdp'. fd_step (- 1) maxfd x fdp = Some (r, fdp') \<and> fd_spec maxfd x (fd_abs fdp) = (r, fd_abs fdp') \<and> fd_inv fdp'"
proof (cases x)
  case (Fd_alloc minfd)
  then show ?thesis
    using fdalloc_refines [OF inv, of maxfd minfd] by auto
next
  case (Fd_install fp cloexec)
  obtain r fdp1 where 1: "fdalloc (- 1) maxfd 0 fdp = Some (r, fdp1)" "alloc_spec maxfd 0 (fd_abs fdp) = (r, fd_abs fdp1)"
    "fd_inv fdp1" "\<And>fd. r = Inr fd \<Longrightarrow> fd < fd_nfiles fdp1 \<and> fd \<in> used fdp1"
    using fdalloc_refines [OF inv, of maxfd 0] by blast
  show ?thesis
  proof (cases r)
    case (Inl e)
    then show ?thesis
      using 1 Fd_install by (simp add: finstall_refed_def)
  next
    case (Inr fd)
    obtain fdp2 where "finstall_fde fp fd cloexec fdp1 = Some fdp2" "used fdp2 = used fdp1"
      "fdt fdp2 = (fdt fdp1)(fd \<mapsto> fp)" "fd_inv fdp2"
      using finstall_fde_ok [OF 1(3)] 1(4) [OF Inr] by metis
    then show ?thesis
      using 1 Inr Fd_install by (simp add: finstall_refed_def fd_abs_def)
  qed
next
  case (Fd_close fd)
  then show ?thesis
    using close_fd_ok [OF inv, of fd maxfd] by simp
next
  case (Fd_lookup fd)
  then show ?thesis
    using inv by (simp add: fd_abs_def fget_locked_fdt split: option.split)
qed

interpretation fdr: refinement "fd_step (- 1) maxfd" "fd_spec maxfd" fd_abs fd_inv for maxfd
  by unfold_locales (rule fd_step_refines)

lemma fdinit_inv: "fd_inv fdinit" "used fdinit = {}" "fdt fdinit = Map.empty"
proof -
  show u: "used fdinit = {}"
    by (auto simp: used_def bits_set_def fdinit_def NDSLOTS_def)
  show "fdt fdinit = Map.empty"
    by (auto simp: fdt_def fdinit_def fd_nfiles_def fun_eq_iff)
  show "fd_inv fdinit"
    unfolding fd_inv_def u by (simp add: fdinit_def fd_nfiles_def)
qed

text \<open>
  C7: On any sequence of allocations, installations, closes and lookups the descriptor table
  returns what the abstract table returns, which hands out the lowest free descriptor at or above
  the one asked for and refuses with EMFILE exactly when that is not below the limit; no access
  falls outside the bitmap or the array.
\<close>

theorem fd_table_refines:
  assumes "fd_inv fdp"
  shows "\<exists>rs fdp'. run (fd_step (- 1) maxfd) xs fdp = Some (rs, fdp') \<and>
    run_spec (fd_spec maxfd) xs (fd_abs fdp) = (rs, fd_abs fdp') \<and> fd_inv fdp'"
  using assms by (rule fdr.run_refines)

theorem fd_table_refines_witness:
  "\<exists>rs fdp'. run (fd_step (- 1) 100) [Fd_install 7 False, Fd_install 8 True, Fd_close 0, Fd_alloc 0] fdinit = Some (rs, fdp') \<and>
    run_spec (fd_spec 100) [Fd_install 7 False, Fd_install 8 True, Fd_close 0, Fd_alloc 0] (fd_abs fdinit) = (rs, fd_abs fdp') \<and> fd_inv fdp'"
  by (rule fd_table_refines) (rule fdinit_inv(1))

section \<open>Several descriptors at once\<close>

lemma fdunused_all_ok:
  assumes "fd_inv fdp" and "\<forall>fd \<in> set fds. fd \<in> used fdp \<and> fdt fdp fd = None" and "distinct fds"
  shows "\<exists>fdp'. fdunused_all fds fdp = Some fdp' \<and> used fdp' = used fdp - set fds \<and> fdt fdp' = fdt fdp \<and> fd_inv fdp'"
  using assms
proof (induction fds arbitrary: fdp)
  case (Cons fd fds)
  have fd: "fd < fd_nfiles fdp" "fde_file (fd_ofiles fdp ! fd) = None"
    using Cons(2,3) fd_invD(3) [OF Cons(2)] by (auto simp: fdt_def split: if_splits)
  obtain fdp1 where 1: "fdunused fd fdp = Some fdp1" "used fdp1 = used fdp - {fd}" "fd_ofiles fdp1 = fd_ofiles fdp" "fd_inv fdp1"
    using fdunused_ok [OF Cons(2) fd] by blast
  have "\<forall>fd \<in> set fds. fd \<in> used fdp1 \<and> fdt fdp1 fd = None" "distinct fds"
    using Cons(3,4) fdt_cong [OF 1(3)] by (auto simp: 1(2))
  from Cons(1) [OF 1(4) this] show ?case
    using 1(1,2) fdt_cong [OF 1(3)] by auto
qed simp

definition allocn_ok :: "nat \<Rightarrow> filedesc \<Rightarrow> nat list \<Rightarrow> filedesc \<Rightarrow> bool" where
  "allocn_ok maxfd fdp0 fds fdp \<longleftrightarrow>
     fd_inv fdp \<and> distinct fds \<and> set fds \<inter> used fdp0 = {} \<and> set fds \<subseteq> {..< maxfd} \<and>
     used fdp = used fdp0 \<union> set fds \<and> fdt fdp = fdt fdp0"

lemma fdallocn_from_ok:
  assumes "fd_inv fdp0" and "allocn_ok maxfd fdp0 fds fdp"
  shows "(\<exists>fds' fdp'. fdallocn_from (- 1) maxfd fds i fdp = Some (Inr fds', fdp') \<and> length fds' = length fds + i \<and>
             allocn_ok maxfd fdp0 fds' fdp') \<or>
         (\<exists>fdp'. fdallocn_from (- 1) maxfd fds i fdp = Some (Inl EMFILE, fdp') \<and> allocn_ok maxfd fdp0 [] fdp' \<and>
             card ({..< maxfd} - used fdp0) < length fds + i)"
  using assms(2)
proof (induction i arbitrary: fds fdp)
  case 0
  then show ?case
    by (simp add: allocn_ok_def)
next
  case (Suc i)
  have a: "fd_inv fdp" "distinct fds" "set fds \<inter> used fdp0 = {}" "set fds \<subseteq> {..< maxfd}"
      "used fdp = used fdp0 \<union> set fds" "fdt fdp = fdt fdp0"
    using Suc(2) by (simp_all add: allocn_ok_def)
  define fd where "fd = lowest_free (used fdp) 0"
  have l: "fd \<notin> used fdp" "\<And>j. j < fd \<Longrightarrow> j \<in> used fdp"
    using lowest_free_props [OF finite_used [OF a(1)], of 0] by (simp_all add: fd_def)
  show ?case
  proof (rule fdalloc_ok [OF a(1), where minfd = 0 and maxfd = maxfd, folded fd_def])
    assume e: "maxfd \<le> fd" "fdalloc (- 1) maxfd 0 fdp = Some (Inl EMFILE, fdp)"
    have "fdt fdp0 x = None" if "x \<in> set fds" for x
      using that a(3) fdt_used [OF assms(1)] by (cases "fdt fdp0 x") auto
    then obtain fdp' where u: "fdunused_all fds fdp = Some fdp'" "used fdp' = used fdp - set fds" "fdt fdp' = fdt fdp" "fd_inv fdp'"
      using fdunused_all_ok [OF a(1) _ a(2)] a(5,6) by (metis UnCI)
    have "{..< maxfd} - used fdp0 \<subseteq> set fds"
      using l(2) [OF less_le_trans [OF _ e(1)]] a(5) by auto
    then have "card ({..< maxfd} - used fdp0) \<le> card (set fds)"
      by (intro card_mono) auto
    also have "\<dots> = length fds"
      using a(2) by (rule distinct_card)
    finally have "card ({..< maxfd} - used fdp0) < length fds + Suc i"
      by simp
    moreover have "allocn_ok maxfd fdp0 [] fdp'"
      using u a by (auto simp: allocn_ok_def)
    moreover have "fdallocn_from (- 1) maxfd fds (Suc i) fdp = Some (Inl EMFILE, fdp')"
      using e(2) u(1) by simp
    ultimately show ?case
      by blast
  next
    fix fdp1 assume o: "fd < maxfd" "fdalloc (- 1) maxfd 0 fdp = Some (Inr fd, fdp1)" "fd_inv fdp1"
      "used fdp1 = insert fd (used fdp)" "fdt fdp1 = fdt fdp"
    have "allocn_ok maxfd fdp0 (fd # fds) fdp1"
      using o a l(1) by (auto simp: allocn_ok_def)
    from Suc(1) [OF this] show ?case
      using o(2) by simp
  qed
qed

text \<open>
  C33: An allocation of several descriptors is all or nothing.  Either it returns as many
  descriptors as were asked for, all different, below the limit and free before, and these are
  now in use as well; or it fails with EMFILE, the descriptors in use are those of before, and
  there were fewer free descriptors below the limit than were asked for.
\<close>

theorem fdallocn_all_or_nothing:
  assumes "fd_inv fdp"
  shows "(\<exists>fds fdp'. fdallocn (- 1) maxfd n fdp = Some (Inr fds, fdp') \<and> length fds = n \<and> allocn_ok maxfd fdp fds fdp') \<or>
         (\<exists>fdp'. fdallocn (- 1) maxfd n fdp = Some (Inl EMFILE, fdp') \<and> allocn_ok maxfd fdp [] fdp' \<and>
            card ({..< maxfd} - used fdp) < n)"
  using fdallocn_from_ok [OF assms, of maxfd "[]" fdp n] assms by (auto simp: fdallocn_def allocn_ok_def)

theorem fdallocn_all_or_nothing_witness:
  "(\<exists>fds fdp'. fdallocn (- 1) 1 2 fdinit = Some (Inr fds, fdp') \<and> length fds = 2 \<and> allocn_ok 1 fdinit fds fdp') \<or>
   (\<exists>fdp'. fdallocn (- 1) 1 2 fdinit = Some (Inl EMFILE, fdp') \<and> allocn_ok 1 fdinit [] fdp' \<and> card ({..< 1} - used fdinit) < 2)"
  by (rule fdallocn_all_or_nothing) (rule fdinit_inv(1))

section \<open>The last descriptor in use\<close>

lemma last_loop_ok:
  assumes "k \<le> length m"
  shows "(last_loop m k = Some (- 1) \<and> (\<forall>j < k * 64. j \<notin> bits_set m)) \<or>
    (\<exists>n. last_loop m k = Some (int n) \<and> n \<in> bits_set m \<and> (\<forall>j. n < j \<and> j < k * 64 \<longrightarrow> j \<notin> bits_set m))"
  using assms
proof (induction k)
  case (Suc k)
  then have k: "k < length m"
    by simp
  show ?case
  proof (cases "m ! k = 0")
    case True
    have e: "j \<notin> bits_set m" if "\<not> j < k * 64" "j < Suc k * 64" for j
      by (rule slot_cases [of k j]) (use that in \<open>auto simp: bits_set_slot k True\<close>)
    have "last_loop m (Suc k) = last_loop m k"
      using k True by (simp add: map_get_def)
    then show ?thesis
      using Suc(1) k e by (metis less_imp_le)
  next
    case False
    then obtain b where b: "flsll (m ! k) = Suc b" "b < 64" "bit (m ! k) b" "\<forall>c > b. \<not> bit (m ! k) c"
      by (rule flsll_spec)
    have "last_loop m (Suc k) = Some (int (k * 64 + b))"
      using k False b(1) by (simp add: map_get_def)
    moreover have "k * 64 + b \<in> bits_set m"
      using b(2,3) k by (simp add: bits_set_slot)
    moreover have "j \<notin> bits_set m" if "k * 64 + b < j" "j < Suc k * 64" for j
      by (rule slot_cases [of k j]) (use that b(4) in \<open>auto simp: bits_set_slot k\<close>)
    ultimately show ?thesis
      by blast
  qed
qed simp

text \<open>
  C34: The search for the last descriptor in use returns the greatest one, and -1 when there is none.
\<close>

theorem fdlastfile_max:
  assumes "fd_inv fdp"
  shows "fdlastfile_single fdp = Some (if used fdp = {} then - 1 else int (Max (used fdp)))"
proof -
  note i = fd_invD [OF assms]
  have k: "Suc (NDSLOT (fd_nfiles fdp - 1)) = length (fd_map fdp)"
    using i(1,2) by (simp add: NDSLOT_def NDSLOTS_def)
  have lim: "j < length (fd_map fdp) * 64" if "j \<in> used fdp" for j
    using that by (simp add: used_def bits_set_def div_less_iff_less_mult)
  from last_loop_ok [OF le_refl, of "fd_map fdp"] show ?thesis
  proof (elim disjE exE conjE)
    assume "last_loop (fd_map fdp) (length (fd_map fdp)) = Some (- 1)"
      "\<forall>j < length (fd_map fdp) * 64. j \<notin> bits_set (fd_map fdp)"
    then show ?thesis
      unfolding fdlastfile_single_def k using lim by (auto simp: used_def)
  next
    fix n assume n: "last_loop (fd_map fdp) (length (fd_map fdp)) = Some (int n)" "n \<in> bits_set (fd_map fdp)"
      "\<forall>j. n < j \<and> j < length (fd_map fdp) * 64 \<longrightarrow> j \<notin> bits_set (fd_map fdp)"
    have "Max (used fdp) = n"
      using finite_used [OF assms] n(2,3) lim by (intro Max_eqI) (auto simp: used_def not_less [symmetric])
    then show ?thesis
      unfolding fdlastfile_single_def k using n(1,2) by (auto simp: used_def)
  qed
qed

theorem fdlastfile_max_witness:
  "\<exists>fdp. fdused 3 fdinit = Some fdp \<and> fdlastfile_single fdp = Some 3"
proof -
  have "(3 :: nat) < fd_nfiles fdinit"
    by (simp add: fdinit_def fd_nfiles_def)
  from fdused_ok [OF fdinit_inv(1) this] obtain fdp where
    "fdused (int 3) fdinit = Some fdp" "used fdp = insert 3 (used fdinit)" "fd_inv fdp"
    by blast
  then show ?thesis
    using fdlastfile_max [of fdp] by (simp add: fdinit_inv(2))
qed

section \<open>Reserved descriptors\<close>





text \<open>
  Where \<^verbatim>\<open>unsigned long\<close> has 32 bits the comparison with
  \<^verbatim>\<open>~0UL\<close> does not recognise a full slot: with 64 descriptors in use the search
  returns -1 and the allocation writes outside the bitmap.
\<close>

definition fdp_full_slot :: filedesc where
  "fdp_full_slot = \<lparr>fd_ofiles = replicate 128 \<lparr>fde_file = None, fde_flags = 0\<rparr>, fd_map = [- 1, 0], fd_freefile = 0\<rparr>"

lemma fd_first_free_32_bit:
  "fd_first_free 0xffffffff fdp_full_slot 0 128 = Some (- 1)" "fdalloc 0xffffffff 1024 0 fdp_full_slot = None"
proof -
  have m: "fd_map fdp_full_slot = [- 1, 0]" "fd_nfiles fdp_full_slot = 128" "fd_freefile fdp_full_slot = 0"
    unfolding fdp_full_slot_def by (simp_all add: fd_nfiles_def)
  show 1: "fd_first_free 0xffffffff fdp_full_slot 0 128 = Some (- 1)"
    unfolding fd_first_free_def m by (simp add: NDSLOT_def NDSLOTS_def ffree_loop.simps [of _ _ 0] map_get_def ffsll_def)
  show "fdalloc 0xffffffff 1024 0 fdp_full_slot = None"
    unfolding fdalloc_def m Let_def by (simp add: 1 fdused_def fdused_init_def)
qed

end
