(* ===== verification/Uio.thy ===== *)
theory Uio
  imports Prelude
begin

text \<open>
  Scatter/gather input and output: \<^verbatim>\<open>sys/kern/subr_uio.c\<close>, with the
  routines \<^verbatim>\<open>copyin\<close>, \<^verbatim>\<open>copyout\<close> and
  \<^verbatim>\<open>subyte\<close> of \<^verbatim>\<open>compat/user_glue.c\<close>.  A user memory is
  a function from addresses to bytes; the kernel buffer a list of bytes.  The system runs in one
  address space, so copies do not fail.
\<close>

section \<open>Memory\<close>

type_synonym memory = "nat \<Rightarrow> u8"

definition copyin :: "memory \<Rightarrow> nat \<Rightarrow> nat \<Rightarrow> u8 list" where
  "copyin mem uaddr len = map (\<lambda>i. mem (uaddr + i)) [0 ..< len]"

definition copyout :: "u8 list \<Rightarrow> nat \<Rightarrow> memory \<Rightarrow> memory" where
  "copyout bs uaddr mem =
     (\<lambda>a. if uaddr \<le> a \<and> a < uaddr + length bs then bs ! (a - uaddr) else mem a)"

definition subyte :: "nat \<Rightarrow> u8 \<Rightarrow> memory \<Rightarrow> memory" where
  "subyte base byte mem = mem(base := byte)"

text \<open>The bytes of a 64-bit object, least significant first, and the object read back from them.\<close>

definition le_bytes :: "u64 \<Rightarrow> u8 list" where
  "le_bytes w = map (\<lambda>i. ucast (drop_bit (8 * i) w)) [0 ..< 8]"

definition le_word :: "u8 list \<Rightarrow> u64" where
  "le_word bs = foldr (\<lambda>b acc. ucast b OR push_bit 8 acc) bs 0"

section \<open>The uio\<close>

record iovec =
  iov_base :: nat
  iov_len :: nat

datatype uio_seg = UIO_USERSPACE | UIO_SYSSPACE | UIO_NOCOPY
datatype uio_rw = UIO_READ | UIO_WRITE

text \<open>The count \<^verbatim>\<open>uio_iovcnt\<close> is the length of the list.\<close>

record uio =
  uio_iov :: "iovec list"
  uio_offset :: int
  uio_resid :: int
  uio_segflg :: uio_seg
  uio_rw :: uio_rw

text \<open>Writing \<open>bs\<close> into the kernel buffer from index \<open>off\<close> on.\<close>

definition buf_write :: "nat \<Rightarrow> u8 list \<Rightarrow> u8 list \<Rightarrow> u8 list" where
  "buf_write off bs cp = take off cp @ bs @ drop (off + length bs) cp"

text \<open>
  The loop of \<^verbatim>\<open>uiomove_faultflag\<close>.  \<open>off\<close> is how far \<open>cp\<close> has
  advanced, \<open>n\<close> what is left to move; \<open>None\<close> when an element past the end of the
  vector is read.
\<close>

function uiomove_loop :: "u8 list \<Rightarrow> nat \<Rightarrow> nat \<Rightarrow> uio \<Rightarrow> memory \<Rightarrow> (u8 list \<times> uio \<times> memory) option" where
  "uiomove_loop cp off n uio mem =
     (if n = 0 \<or> uio_resid uio = 0 then Some (cp, uio, mem)
      else case uio_iov uio of
        [] \<Rightarrow> None
      | iov # iovs \<Rightarrow>
          if iov_len iov = 0 then uiomove_loop cp off n (uio\<lparr>uio_iov := iovs\<rparr>) mem
          else
            let cnt = min (iov_len iov) n;
                (cp1, mem1) =
                  (case (uio_segflg uio, uio_rw uio) of
                     (UIO_NOCOPY, _) \<Rightarrow> (cp, mem)
                   | (_, UIO_READ) \<Rightarrow> (cp, copyout (take cnt (drop off cp)) (iov_base iov) mem)
                   | (_, UIO_WRITE) \<Rightarrow> (buf_write off (copyin mem (iov_base iov) cnt) cp, mem));
                iov1 = iov\<lparr>iov_base := iov_base iov + cnt, iov_len := iov_len iov - cnt\<rparr>
            in uiomove_loop cp1 (off + cnt) (n - cnt)
                 (uio\<lparr>uio_iov := iov1 # iovs, uio_resid := uio_resid uio - int cnt,
                      uio_offset := uio_offset uio + int cnt\<rparr>) mem1)"
  by pat_completeness auto
termination
  by (relation "measure (\<lambda>(cp, off, n, uio, mem). n + length (uio_iov uio))") auto

declare uiomove_loop.simps [simp del]

definition uiomove :: "u8 list \<Rightarrow> int \<Rightarrow> uio \<Rightarrow> memory \<Rightarrow> (u8 list \<times> uio \<times> memory) option" where
  "uiomove cp n uio mem = uiomove_loop cp 0 (nat n) uio mem"

abbreviation SSIZE_MAX :: int where "SSIZE_MAX \<equiv> 9223372036854775807"

text \<open>\<open>clamp\<close> is the variable \<^verbatim>\<open>iosize_max_clamp\<close>.\<close>

definition iosize_max :: "bool \<Rightarrow> int" where
  "iosize_max clamp = (if clamp then 2147483647 else SSIZE_MAX)"

definition uiomove_frombuf :: "bool \<Rightarrow> u8 list \<Rightarrow> int \<Rightarrow> uio \<Rightarrow> memory \<Rightarrow> (int \<times> uio \<times> memory) option" where
  "uiomove_frombuf clamp buf buflen uio mem =
     (if uio_offset uio < 0 \<or> uio_resid uio < 0 then Some (EINVAL, uio, mem)
      else if buflen \<le> 0 \<or> uio_offset uio \<ge> buflen then Some (0, uio, mem)
      else if buflen - uio_offset uio > iosize_max clamp then Some (EINVAL, uio, mem)
      else (case uiomove (drop (nat (uio_offset uio)) buf) (buflen - uio_offset uio) uio mem of
              None \<Rightarrow> None
            | Some (_, uio1, mem1) \<Rightarrow> Some (0, uio1, mem1)))"

text \<open>One character to the user; \<open>None\<close> is the panic.\<close>

function ureadc :: "u8 \<Rightarrow> uio \<Rightarrow> memory \<Rightarrow> (uio \<times> memory) option" where
  "ureadc c uio mem =
     (if uio_resid uio = 0 then None
      else case uio_iov uio of
        [] \<Rightarrow> None
      | iov # iovs \<Rightarrow>
          if iov_len iov = 0 then ureadc c (uio\<lparr>uio_iov := iovs\<rparr>) mem
          else Some
            (uio\<lparr>uio_iov := iov\<lparr>iov_base := iov_base iov + 1, iov_len := iov_len iov - 1\<rparr> # iovs,
                 uio_resid := uio_resid uio - 1, uio_offset := uio_offset uio + 1\<rparr>,
             if uio_segflg uio = UIO_NOCOPY then mem else subyte (iov_base iov) c mem))"
  by pat_completeness auto
termination
  by (relation "measure (\<lambda>(c, uio, mem). length (uio_iov uio))") auto

declare ureadc.simps [simp del]

text \<open>
  Reading the vector \<open>iovp\<close> of a system call.  The limit counts the entries, the sum of
  the lengths must be representable.
\<close>

abbreviation UIO_MAXIOV :: nat where "UIO_MAXIOV \<equiv> 1024"

definition copyiniov :: "iovec list \<Rightarrow> nat \<Rightarrow> int \<Rightarrow> int + iovec list" where
  "copyiniov iovp iovcnt error =
     (if iovcnt > UIO_MAXIOV then Inl error else Inr (take iovcnt iovp))"

fun uio_total :: "bool \<Rightarrow> iovec list \<Rightarrow> int \<Rightarrow> int option" where
  "uio_total clamp [] resid = Some resid"
| "uio_total clamp (iov # iovs) resid =
     (if int (iov_len iov) > iosize_max clamp - resid then None
      else uio_total clamp iovs (resid + int (iov_len iov)))"

definition copyinuio :: "bool \<Rightarrow> iovec list \<Rightarrow> nat \<Rightarrow> uio_rw \<Rightarrow> int + uio" where
  "copyinuio clamp iovp iovcnt rw =
     (if iovcnt > UIO_MAXIOV then Inl EINVAL
      else case uio_total clamp (take iovcnt iovp) 0 of
        None \<Rightarrow> Inl EINVAL
      | Some resid \<Rightarrow>
          Inr \<lparr>uio_iov = take iovcnt iovp, uio_offset = -1, uio_resid = resid,
               uio_segflg = UIO_USERSPACE, uio_rw = rw\<rparr>)"

section \<open>The bytes a uio covers\<close>

definition iov_addrs :: "iovec list \<Rightarrow> nat list" where
  "iov_addrs iovs = concat (map (\<lambda>v. [iov_base v ..< iov_base v + iov_len v]) iovs)"

definition uio_ok :: "uio \<Rightarrow> bool" where
  "uio_ok uio \<longleftrightarrow> uio_resid uio = int (length (iov_addrs (uio_iov uio)))"

lemma iov_addrs_simps [simp]:
  "iov_addrs [] = []"
  "iov_addrs (v # vs) = [iov_base v ..< iov_base v + iov_len v] @ iov_addrs vs"
  by (simp_all add: iov_addrs_def)

lemma length_iov_addrs: "length (iov_addrs vs) = sum_list (map iov_len vs)"
  by (induction vs) auto

lemma length_copyin [simp]: "length (copyin mem a n) = n"
  by (simp add: copyin_def)

lemma copyin_map: "copyin mem a n = map mem [a ..< a + n]"
  by (rule nth_equalityI) (simp_all add: copyin_def)

lemma copyout_map: "map (copyout bs a mem) [a ..< a + length bs] = bs"
  by (rule nth_equalityI) (simp_all add: copyout_def)

lemma copyout_other: "x \<notin> set [a ..< a + length bs] \<Longrightarrow> copyout bs a mem x = mem x"
  by (auto simp: copyout_def)

lemma copy_roundtrip: "copyin (copyout bs a mem) a (length bs) = bs"
  by (simp add: copyin_map copyout_map)

lemma length_le_bytes [simp]: "length (le_bytes w) = 8"
  by (simp add: le_bytes_def)

lemma le_word_part:
  "le_word (map (\<lambda>i. ucast (drop_bit (8 * i) w)) [k ..< k + n]) = take_bit (8 * n) (drop_bit (8 * k) w)"
proof (induction n arbitrary: k)
  case 0
  then show ?case by (simp add: le_word_def)
next
  case (Suc n)
  have "[k ..< k + Suc n] = k # [Suc k ..< Suc k + n]"
    by (simp add: upt_rec)
  moreover have "le_word (b # bs) = ucast b OR push_bit 8 (le_word bs)" for b bs
    by (simp add: le_word_def)
  ultimately have "le_word (map (\<lambda>i. ucast (drop_bit (8 * i) w)) [k ..< k + Suc n])
      = ucast (ucast (drop_bit (8 * k) w) :: u8) OR push_bit 8 (take_bit (8 * n) (drop_bit (8 * Suc k) w))"
    using Suc [of "Suc k"] by (simp del: upt_Suc)
  also have "\<dots> = take_bit (8 * Suc n) (drop_bit (8 * k) w)"
  proof (rule bit_word_eqI)
    fix i
    assume "i < LENGTH(64)"
    then show "bit (ucast (ucast (drop_bit (8 * k) w) :: u8) OR push_bit 8 (take_bit (8 * n) (drop_bit (8 * Suc k) w))) i
        = bit (take_bit (8 * Suc n) (drop_bit (8 * k) w)) i"
      by (cases "i < 8") (auto simp: bit_simps)
  qed
  finally show ?case .
qed

lemma le_roundtrip [simp]: "le_word (le_bytes w) = w"
  using le_word_part [of w 0 8] by (simp add: le_bytes_def take_bit_word_eq_self)

section \<open>Moving bytes\<close>

text \<open>The memory after \<open>bs\<close> has been written to the addresses \<open>as\<close>.\<close>

definition mem_put :: "nat list \<Rightarrow> u8 list \<Rightarrow> memory \<Rightarrow> memory \<Rightarrow> bool" where
  "mem_put as bs mem mem' \<longleftrightarrow> map mem' as = bs \<and> (\<forall>a. a \<notin> set as \<longrightarrow> mem' a = mem a)"

lemma mem_put_append:
  assumes "mem_put as bs mem mem1" "mem_put as' bs' mem1 mem2" "set as \<inter> set as' = {}"
  shows "mem_put (as @ as') (bs @ bs') mem mem2"
proof -
  have "map mem2 as = map mem1 as"
    using assms(2,3) by (auto simp: mem_put_def)
  then show ?thesis
    using assms by (auto simp: mem_put_def)
qed

lemma mem_put_copyout: "length bs = n \<Longrightarrow> mem_put [a ..< a + n] bs mem (copyout bs a mem)"
  using copyout_map [of bs a mem] copyout_other [of _ a bs mem] by (auto simp: mem_put_def)

text \<open>The relation between a uio and the one after \<open>m\<close> bytes have been moved.\<close>

definition uio_moved :: "nat \<Rightarrow> uio \<Rightarrow> uio \<Rightarrow> bool" where
  "uio_moved m uio uio' \<longleftrightarrow>
     uio_ok uio' \<and> iov_addrs (uio_iov uio') = drop m (iov_addrs (uio_iov uio)) \<and>
     uio_resid uio' = uio_resid uio - int m \<and> uio_offset uio' = uio_offset uio + int m \<and>
     uio_segflg uio' = uio_segflg uio \<and> uio_rw uio' = uio_rw uio"

lemma uio_moved_trans:
  "uio_moved m u v \<Longrightarrow> uio_moved k v w \<Longrightarrow> uio_moved (m + k) u w"
  by (simp add: uio_moved_def add.commute)

lemma uio_moved_step:
  assumes "uio_ok uio" "uio_iov uio = v # vs" "cnt \<le> iov_len v"
  shows "uio_moved cnt uio (uio\<lparr>uio_iov := v\<lparr>iov_base := iov_base v + cnt, iov_len := iov_len v - cnt\<rparr> # vs,
    uio_resid := uio_resid uio - int cnt, uio_offset := uio_offset uio + int cnt\<rparr>)"
proof -
  have "[iov_base v + cnt ..< iov_base v + cnt + (iov_len v - cnt)] = drop cnt [iov_base v ..< iov_base v + iov_len v]"
    using assms(3) by (simp add: drop_upt)
  then show ?thesis
    using assms by (simp add: uio_moved_def uio_ok_def)
qed

lemma uiomove_loop_read:
  assumes "uio_ok uio" "uio_rw uio = UIO_READ" "uio_segflg uio \<noteq> UIO_NOCOPY"
    and "off + n \<le> length cp" "distinct (iov_addrs (uio_iov uio))"
    and "m = min n (length (iov_addrs (uio_iov uio)))"
  shows "\<exists>uio' mem'. uiomove_loop cp off n uio mem = Some (cp, uio', mem') \<and> uio_moved m uio uio' \<and>
    mem_put (take m (iov_addrs (uio_iov uio))) (take m (drop off cp)) mem mem'"
  using assms
proof (induction "n + length (uio_iov uio)" arbitrary: off n uio mem m rule: less_induct)
  case less
  note IH = less(1) and ok = less(2) and rw = less(3) and sg = less(4) and le = less(5) and di = less(6) and m = less(7)
  show ?case
  proof (cases "n = 0 \<or> uio_resid uio = 0")
    case True
    then have "m = 0"
      using ok m by (auto simp: uio_ok_def)
    moreover have "uiomove_loop cp off n uio mem = Some (cp, uio, mem)"
      using True by (simp add: uiomove_loop.simps)
    ultimately show ?thesis
      using ok by (simp add: mem_put_def uio_moved_def)
  next
    case run: False
    then obtain v vs where v: "uio_iov uio = v # vs"
      using ok by (cases "uio_iov uio") (auto simp: uio_ok_def)
    show ?thesis
    proof (cases "iov_len v = 0")
      case True
      then have "uiomove_loop cp off n uio mem = uiomove_loop cp off n (uio\<lparr>uio_iov := vs\<rparr>) mem"
        using run v by (simp add: uiomove_loop.simps [of _ _ n uio])
      moreover have "\<exists>uio' mem'. uiomove_loop cp off n (uio\<lparr>uio_iov := vs\<rparr>) mem = Some (cp, uio', mem') \<and>
          uio_moved m (uio\<lparr>uio_iov := vs\<rparr>) uio' \<and>
          mem_put (take m (iov_addrs (uio_iov (uio\<lparr>uio_iov := vs\<rparr>)))) (take m (drop off cp)) mem mem'"
        using ok rw sg le di m v True by (intro IH) (auto simp: uio_ok_def)
      ultimately show ?thesis
        using v True by (simp add: uio_moved_def)
    next
      case False
      define cnt where "cnt = min (iov_len v) n"
      define uio1 where "uio1 = uio\<lparr>uio_iov := v\<lparr>iov_base := iov_base v + cnt, iov_len := iov_len v - cnt\<rparr> # vs,
        uio_resid := uio_resid uio - int cnt, uio_offset := uio_offset uio + int cnt\<rparr>"
      define mem1 where "mem1 = copyout (take cnt (drop off cp)) (iov_base v) mem"
      have mv: "uio_moved cnt uio uio1"
        unfolding uio1_def by (rule uio_moved_step [OF ok v]) (simp add: cnt_def)
      have cnt: "cnt \<le> m" "cnt \<le> n" "0 < cnt"
        using m v run False by (auto simp: cnt_def)
      have sel: "(case (uio_segflg uio, uio_rw uio) of (UIO_NOCOPY, _) \<Rightarrow> (cp, mem)
           | (_, UIO_READ) \<Rightarrow> (cp, copyout (take cnt (drop off cp)) (iov_base v) mem)
           | (_, UIO_WRITE) \<Rightarrow> (buf_write off (copyin mem (iov_base v) cnt) cp, mem)) = (cp, mem1)"
        using rw sg by (cases "uio_segflg uio") (simp_all add: mem1_def)
      have step: "uiomove_loop cp off n uio mem = uiomove_loop cp (off + cnt) (n - cnt) uio1 mem1"
        using run v False sel unfolding uio1_def cnt_def
        by (simp add: uiomove_loop.simps [of _ _ n uio] Let_def)
      let ?as = "iov_addrs (uio_iov uio)"
      have as1: "iov_addrs (uio_iov uio1) = drop cnt ?as" and u1: "uio_ok uio1" "uio_rw uio1 = UIO_READ" "uio_segflg uio1 \<noteq> UIO_NOCOPY"
        using mv rw sg by (auto simp: uio_moved_def)
      have len1: "length (uio_iov uio1) = length (uio_iov uio)"
        by (simp add: uio1_def v)
      have "\<exists>uio' mem'. uiomove_loop cp (off + cnt) (n - cnt) uio1 mem1 = Some (cp, uio', mem') \<and>
          uio_moved (m - cnt) uio1 uio' \<and>
          mem_put (take (m - cnt) (iov_addrs (uio_iov uio1))) (take (m - cnt) (drop (off + cnt) cp)) mem1 mem'"
        using le di m cnt u1 by (intro IH) (auto simp: as1 len1 distinct_drop)
      then obtain uio' mem' where r: "uiomove_loop cp (off + cnt) (n - cnt) uio1 mem1 = Some (cp, uio', mem')"
        "uio_moved (m - cnt) uio1 uio'"
        "mem_put (take (m - cnt) (drop cnt ?as)) (take (m - cnt) (drop (off + cnt) cp)) mem1 mem'"
        unfolding as1 by blast
      have p1: "mem_put (take cnt ?as) (take cnt (drop off cp)) mem mem1"
      proof -
        have "take cnt ?as = [iov_base v ..< iov_base v + cnt]"
          using v by (simp add: cnt_def take_upt)
        then show ?thesis
          using le cnt by (simp add: mem1_def mem_put_copyout)
      qed
      have "set (take cnt ?as) \<inter> set (take (m - cnt) (drop cnt ?as)) = {}"
        using di by (metis append_take_drop_id distinct_append set_take_subset disjoint_iff subsetD)
      note mem_put_append [OF p1 r(3) this]
      moreover have "take cnt xs @ take (m - cnt) (drop cnt xs) = take m xs" for xs :: "'a list"
        using cnt(1) by (metis le_add_diff_inverse take_add)
      ultimately have "mem_put (take m ?as) (take m (drop off cp)) mem mem'"
        using cnt(1) by (metis add.commute drop_drop le_add_diff_inverse take_add)
      then show ?thesis
        using r step uio_moved_trans [OF mv r(2)] cnt(1) by auto
    qed
  qed
qed

lemma length_buf_write [simp]: "off + length bs \<le> length cp \<Longrightarrow> length (buf_write off bs cp) = length cp"
  by (simp add: buf_write_def)

lemma buf_write_append:
  assumes "off + length as + length bs \<le> length cp"
  shows "buf_write (off + length as) bs (buf_write off as cp) = buf_write off (as @ bs) cp"
  using assms by (simp add: buf_write_def) (simp add: ac_simps)

lemma buf_write_nil [simp]: "buf_write off [] cp = cp"
  by (simp add: buf_write_def)

lemma uiomove_loop_write:
  assumes "uio_ok uio" "uio_rw uio = UIO_WRITE" "uio_segflg uio \<noteq> UIO_NOCOPY" "off + n \<le> length cp"
    and "m = min n (length (iov_addrs (uio_iov uio)))"
  shows "\<exists>uio'. uiomove_loop cp off n uio mem
      = Some (buf_write off (map mem (take m (iov_addrs (uio_iov uio)))) cp, uio', mem) \<and> uio_moved m uio uio'"
  using assms
proof (induction "n + length (uio_iov uio)" arbitrary: cp off n uio m rule: less_induct)
  case less
  note IH = less(1) and ok = less(2) and rw = less(3) and sg = less(4) and le = less(5) and m = less(6)
  show ?case
  proof (cases "n = 0 \<or> uio_resid uio = 0")
    case True
    then have "m = 0"
      using ok m by (auto simp: uio_ok_def)
    then show ?thesis
      using ok True by (simp add: uiomove_loop.simps uio_moved_def)
  next
    case run: False
    then obtain v vs where v: "uio_iov uio = v # vs"
      using ok by (cases "uio_iov uio") (auto simp: uio_ok_def)
    show ?thesis
    proof (cases "iov_len v = 0")
      case True
      then have "uiomove_loop cp off n uio mem = uiomove_loop cp off n (uio\<lparr>uio_iov := vs\<rparr>) mem"
        using run v by (simp add: uiomove_loop.simps [of _ _ n uio])
      moreover have "\<exists>uio'. uiomove_loop cp off n (uio\<lparr>uio_iov := vs\<rparr>) mem
          = Some (buf_write off (map mem (take m (iov_addrs (uio_iov (uio\<lparr>uio_iov := vs\<rparr>))))) cp, uio', mem) \<and>
          uio_moved m (uio\<lparr>uio_iov := vs\<rparr>) uio'"
        using ok rw sg le m v True by (intro IH) (auto simp: uio_ok_def)
      ultimately show ?thesis
        using v True by (simp add: uio_moved_def)
    next
      case False
      define cnt where "cnt = min (iov_len v) n"
      define uio1 where "uio1 = uio\<lparr>uio_iov := v\<lparr>iov_base := iov_base v + cnt, iov_len := iov_len v - cnt\<rparr> # vs,
        uio_resid := uio_resid uio - int cnt, uio_offset := uio_offset uio + int cnt\<rparr>"
      let ?as = "iov_addrs (uio_iov uio)"
      define cp1 where "cp1 = buf_write off (copyin mem (iov_base v) cnt) cp"
      have mv: "uio_moved cnt uio uio1"
        unfolding uio1_def by (rule uio_moved_step [OF ok v]) (simp add: cnt_def)
      have cnt: "cnt \<le> m" "cnt \<le> n" "0 < cnt"
        using m v run False by (auto simp: cnt_def)
      have sel: "(case (uio_segflg uio, uio_rw uio) of (UIO_NOCOPY, _) \<Rightarrow> (cp, mem)
           | (_, UIO_READ) \<Rightarrow> (cp, copyout (take cnt (drop off cp)) (iov_base v) mem)
           | (_, UIO_WRITE) \<Rightarrow> (buf_write off (copyin mem (iov_base v) cnt) cp, mem)) = (cp1, mem)"
        using rw sg by (cases "uio_segflg uio") (simp_all add: cp1_def)
      have step: "uiomove_loop cp off n uio mem = uiomove_loop cp1 (off + cnt) (n - cnt) uio1 mem"
        using run v False sel unfolding uio1_def cnt_def
        by (simp add: uiomove_loop.simps [of _ _ n uio] Let_def)
      have as1: "iov_addrs (uio_iov uio1) = drop cnt ?as" and u1: "uio_ok uio1" "uio_rw uio1 = UIO_WRITE" "uio_segflg uio1 \<noteq> UIO_NOCOPY"
        using mv rw sg by (auto simp: uio_moved_def)
      have len1: "length (uio_iov uio1) = length (uio_iov uio)" "length cp1 = length cp"
        using le cnt by (simp_all add: uio1_def v cp1_def)
      have "\<exists>uio'. uiomove_loop cp1 (off + cnt) (n - cnt) uio1 mem
          = Some (buf_write (off + cnt) (map mem (take (m - cnt) (iov_addrs (uio_iov uio1)))) cp1, uio', mem) \<and>
          uio_moved (m - cnt) uio1 uio'"
        using le m cnt u1 by (intro IH) (auto simp: as1 len1)
      then obtain uio' where r: "uiomove_loop cp1 (off + cnt) (n - cnt) uio1 mem
          = Some (buf_write (off + cnt) (map mem (take (m - cnt) (drop cnt ?as))) cp1, uio', mem)"
        "uio_moved (m - cnt) uio1 uio'"
        unfolding as1 by blast
      have c: "copyin mem (iov_base v) cnt = map mem (take cnt ?as)"
        using v by (simp add: copyin_map cnt_def take_upt)
      have tk: "take m ?as = take cnt ?as @ take (m - cnt) (drop cnt ?as)" and lc: "length (take cnt ?as) = cnt"
        using cnt(1) m by (metis le_add_diff_inverse take_add, simp)
      have "buf_write (off + cnt) (map mem (take (m - cnt) (drop cnt ?as))) cp1
          = buf_write off (map mem (take m ?as)) cp"
        unfolding cp1_def c tk map_append
        using buf_write_append [of off "map mem (take cnt ?as)" "map mem (take (m - cnt) (drop cnt ?as))" cp] lc le m cnt(1,2)
        by simp
      then show ?thesis
        using r step uio_moved_trans [OF mv r(2)] cnt(1) by auto
    qed
  qed
qed

text \<open>
  C17: Moving \<open>n\<close> bytes of a kernel buffer to a uio whose residual count is the sum of
  its vector's lengths never runs past the vector.  It moves as many bytes as both sides
  have, in order, to the addresses the vector covers, changes no other byte of memory, and
  leaves a uio that covers the remaining addresses.
\<close>

theorem uiomove_read:
  assumes "uio_ok uio" "uio_rw uio = UIO_READ" "uio_segflg uio \<noteq> UIO_NOCOPY"
    and "0 \<le> n" "n \<le> int (length cp)" "distinct (iov_addrs (uio_iov uio))"
    and "m = min (nat n) (length (iov_addrs (uio_iov uio)))"
  shows "\<exists>uio' mem'. uiomove cp n uio mem = Some (cp, uio', mem') \<and> uio_moved m uio uio' \<and>
    map mem' (take m (iov_addrs (uio_iov uio))) = take m cp \<and>
    (\<forall>a. a \<notin> set (take m (iov_addrs (uio_iov uio))) \<longrightarrow> mem' a = mem a)"
  using uiomove_loop_read [of uio 0 "nat n" cp m mem] assms by (auto simp: uiomove_def mem_put_def)

definition uio2 :: "uio_rw \<Rightarrow> uio" where
  "uio2 rw = \<lparr>uio_iov = [\<lparr>iov_base = 100, iov_len = 2\<rparr>, \<lparr>iov_base = 50, iov_len = 0\<rparr>, \<lparr>iov_base = 200, iov_len = 3\<rparr>],
     uio_offset = 0, uio_resid = 5, uio_segflg = UIO_USERSPACE, uio_rw = rw\<rparr>"

lemma uio2_ok: "uio_ok (uio2 rw)" "iov_addrs (uio_iov (uio2 rw)) = [100, 101, 200, 201, 202]"
  "uio_segflg (uio2 rw) \<noteq> UIO_NOCOPY" "uio_rw (uio2 rw) = rw"
  by (simp_all add: uio2_def uio_ok_def upt_rec)

theorem uiomove_read_witness:
  "\<exists>uio' mem'. uiomove [1, 2, 3, 4] 4 (uio2 UIO_READ) (\<lambda>_. 0) = Some ([1, 2, 3, 4], uio', mem') \<and>
     map mem' [100, 101, 200, 201, 202] = [1, 2, 3, 4, 0]"
proof -
  obtain uio' mem' where "uiomove [1, 2, 3, 4] 4 (uio2 UIO_READ) (\<lambda>_. 0) = Some ([1, 2, 3, 4], uio', mem')"
    "map mem' [100, 101, 200, 201] = [1, 2, 3, 4]" "mem' 202 = 0"
    using uiomove_read [OF uio2_ok(1,4,3), of 4 "[1, 2, 3, 4]" 4 "\<lambda>_. 0"] by (auto simp: uio2_ok(2))
  then show ?thesis by simp
qed

text \<open>
  C18: What has been moved out to a vector can be moved back in: after \<open>n\<close> bytes of a
  buffer have gone to a vector that has room for them, moving \<open>n\<close> bytes from the same
  vector gives these bytes again.
\<close>

theorem uiomove_roundtrip:
  assumes "uio_ok uio" "uio_rw uio = UIO_READ" "uio_segflg uio \<noteq> UIO_NOCOPY"
    and "n \<le> length (iov_addrs (uio_iov uio))" "n \<le> length cp" "distinct (iov_addrs (uio_iov uio))"
    and "uiomove cp (int n) uio mem = Some (cp', uio', mem')" "n \<le> length cq"
  shows "\<exists>uio''. uiomove cq (int n) (uio\<lparr>uio_rw := UIO_WRITE\<rparr>) mem'
      = Some (take n cp @ drop n cq, uio'', mem')"
proof -
  have "map mem' (take n (iov_addrs (uio_iov uio))) = take n cp"
    using uiomove_loop_read [of uio 0 n cp n mem] assms by (auto simp: uiomove_def mem_put_def)
  moreover have "uio_ok (uio\<lparr>uio_rw := UIO_WRITE\<rparr>)"
    using assms(1) by (simp add: uio_ok_def)
  ultimately show ?thesis
    using uiomove_loop_write [of "uio\<lparr>uio_rw := UIO_WRITE\<rparr>" 0 n cq n mem'] assms
    by (auto simp: uiomove_def buf_write_def)
qed

theorem uiomove_roundtrip_witness:
  "\<exists>uio' mem' uio''. uiomove [1, 2, 3, 4] 4 (uio2 UIO_READ) (\<lambda>_. 0) = Some ([1, 2, 3, 4], uio', mem') \<and>
     uiomove [9, 9, 9, 9, 9] 4 ((uio2 UIO_READ)\<lparr>uio_rw := UIO_WRITE\<rparr>) mem' = Some ([1, 2, 3, 4, 9], uio'', mem')"
proof -
  obtain uio' mem' where "uiomove [1, 2, 3, 4] 4 (uio2 UIO_READ) (\<lambda>_. 0) = Some ([1, 2, 3, 4], uio', mem')"
    using uiomove_loop_read [of "uio2 UIO_READ" 0 4 "[1, 2, 3, 4]" 4 "\<lambda>_. 0"] by (auto simp: uiomove_def uio2_ok)
  then show ?thesis
    using uiomove_roundtrip [OF uio2_ok(1,4,3), of 4 "[1, 2, 3, 4]" "\<lambda>_. 0" "[1, 2, 3, 4]" uio' mem' "[9, 9, 9, 9, 9]"]
    by (auto simp: uio2_ok(2))
qed

section \<open>Building a uio\<close>

lemma uio_total_sum:
  "0 \<le> r \<Longrightarrow> r \<le> iosize_max c \<Longrightarrow>
   uio_total c vs r = (if r + int (length (iov_addrs vs)) \<le> iosize_max c then Some (r + int (length (iov_addrs vs))) else None)"
  by (induction vs arbitrary: r) auto

text \<open>
  C19: The uio of a system call is refused exactly when it has more than 1024 entries or the
  sum of its lengths exceeds the limit; else its residual count is that sum, without
  overflow, whatever the lengths are.
\<close>

theorem copyinuio_exact:
  "copyinuio c iovp n rw =
     (if n > UIO_MAXIOV \<or> int (length (iov_addrs (take n iovp))) > iosize_max c then Inl EINVAL
      else Inr \<lparr>uio_iov = take n iovp, uio_offset = -1, uio_resid = int (length (iov_addrs (take n iovp))),
                uio_segflg = UIO_USERSPACE, uio_rw = rw\<rparr>)"
  using uio_total_sum [of 0 c "take n iovp"] by (auto simp: copyinuio_def iosize_max_def)

lemma copyout_one: "copyout [c] a mem = mem(a := c)"
  by (auto simp: copyout_def fun_eq_iff)

text \<open>
  C20: Giving one character to the user is the same as moving a one-byte buffer to it.
\<close>

theorem ureadc_uiomove:
  assumes "uio_rw uio = UIO_READ" "uio_resid uio \<noteq> 0"
  shows "ureadc c uio mem = map_option snd (uiomove [c] 1 uio mem)"
  using assms
proof (induction c uio mem rule: ureadc.induct)
  case (1 c uio mem)
  show ?case
  proof (cases "uio_iov uio")
    case Nil
    then show ?thesis
      using 1(3) by (simp add: ureadc.simps [of c uio] uiomove_def uiomove_loop.simps [of _ _ _ uio])
  next
    case (Cons v vs)
    show ?thesis
    proof (cases "iov_len v = 0")
      case True
      then show ?thesis
        using 1 Cons by (simp add: ureadc.simps [of c uio] uiomove_def uiomove_loop.simps [of _ _ _ uio])
    next
      case False
      then have cnt: "min (iov_len v) (Suc 0) = Suc 0"
        by simp
      show ?thesis
        using 1(2,3) Cons False
        by (cases "uio_segflg uio")
          (simp_all add: ureadc.simps [of c uio] uiomove_def uiomove_loop.simps [of _ _ "Suc 0" uio]
            uiomove_loop.simps [of _ _ 0] cnt copyout_one subyte_def Let_def)
    qed
  qed
qed

theorem ureadc_uiomove_witness:
  "ureadc 7 (uio2 UIO_READ) (\<lambda>_. 0) = map_option snd (uiomove [7] 1 (uio2 UIO_READ) (\<lambda>_. 0))"
  by (rule ureadc_uiomove) (simp_all add: uio2_def)

end
