(* ===== verification/Eventfd.thy ===== *)
theory Eventfd
  imports Filters Uio
begin

text \<open>
  Eventfds: the file operations of \<^verbatim>\<open>sys/kern/sys_eventfd.c\<close> and their
  creation by \<^verbatim>\<open>sys/kern/sys_generic.c\<close>.  The object is the record
  \<open>eventfd\<close> of the filters; a read or write runs the knotes that watch it.
\<close>

abbreviation EFD_SEMAPHORE :: u32 where "EFD_SEMAPHORE \<equiv> 0x00000001"
abbreviation EFD_NONBLOCK :: u32 where "EFD_NONBLOCK \<equiv> 0x00000004"
abbreviation EFD_CLOEXEC :: u32 where "EFD_CLOEXEC \<equiv> 0x00100000"

abbreviation POLLIN :: u32 where "POLLIN \<equiv> 0x0001"
abbreviation POLLOUT :: u32 where "POLLOUT \<equiv> 0x0004"
abbreviation POLLRDNORM :: u32 where "POLLRDNORM \<equiv> 0x0040"
abbreviation POLLWRNORM :: u32 where "POLLWRNORM \<equiv> 0x0004"

definition efd_upd :: "nat \<Rightarrow> (eventfd \<Rightarrow> eventfd) \<Rightarrow> kworld \<Rightarrow> kworld" where
  "efd_upd e f = w_upd (\<lambda>w. w\<lparr>w_efd := (w_efd w)(e := f (w_efd w e))\<rparr>)"

text \<open>The object behind a file, \<^verbatim>\<open>fp->f_data\<close>.\<close>

definition fp_efd :: "kworld \<Rightarrow> nat \<Rightarrow> nat" where
  "fp_efd s fp = (case f_data (k_files s fp) of Some e \<Rightarrow> e | None \<Rightarrow> 0)"

definition eventfd_create_file :: "nat \<Rightarrow> nat \<Rightarrow> u32 \<Rightarrow> u32 \<Rightarrow> kworld \<Rightarrow> int \<times> kworld" where
  "eventfd_create_file e fp initval flags s =
     (let s1 = efd_upd e (\<lambda>_. \<lparr>efd_count = ucast initval, efd_flags = flags, efd_sel = False\<rparr>) s;
          s2 = knl_upd (Knl_efd e) (\<lambda>_. []) s1
      in (0, file_upd fp (\<lambda>f. f\<lparr>f_type := DTYPE_EVENTFD, f_data := Some e,
                                f_nonblock := fl flags EFD_NONBLOCK\<rparr>) s2))"

text \<open>
  After a change of the count: the knotes of the object are asked, and a polling thread is
  woken (\<^verbatim>\<open>selwakeup\<close>).
\<close>

definition efd_notify :: "nat \<Rightarrow> kworld \<Rightarrow> kworld" where
  "efd_notify e s =
     efd_upd e (\<lambda>efd. efd\<lparr>efd_sel := False\<rparr>) (knote_list kern_ops (Knl_efd e) 0 False s)"

text \<open>
  \<open>KSleep\<close> is the sleep on \<^verbatim>\<open>efd_count\<close>; \<open>None\<close> a vector that ends
  before its residual count.
\<close>

definition eventfd_read ::
    "nat \<Rightarrow> uio \<Rightarrow> memory \<Rightarrow> kworld \<Rightarrow> (kres \<times> uio \<times> memory \<times> kworld) option" where
  "eventfd_read fp uio mem s =
     (if uio_resid uio < 8 then Some (KRet EINVAL, uio, mem, s)
      else
        let e = fp_efd s fp; efd = w_efd (k_w s) e in
        if efd_count efd = 0 then
          if f_nonblock (k_files s fp) then Some (KRet EAGAIN, uio, mem, s)
          else Some (KSleep, uio, mem, s)
        else
          let (count, left) = (if fl (efd_flags efd) EFD_SEMAPHORE then (1, efd_count efd - 1)
                               else (efd_count efd, 0));
              s1 = efd_notify e (efd_upd e (\<lambda>efd. efd\<lparr>efd_count := left\<rparr>) s)
          in (case uiomove (le_bytes count) 8 uio mem of
                None \<Rightarrow> None
              | Some (_, uio1, mem1) \<Rightarrow> Some (KRet 0, uio1, mem1, s1)))"

text \<open>The same after a sleep that ended with \<open>error\<close>.\<close>

definition eventfd_read_wakeup ::
    "int \<Rightarrow> nat \<Rightarrow> uio \<Rightarrow> memory \<Rightarrow> kworld \<Rightarrow> (kres \<times> uio \<times> memory \<times> kworld) option" where
  "eventfd_read_wakeup error fp uio mem s =
     (if error \<noteq> 0 then Some (KRet error, uio, mem, s) else eventfd_read fp uio mem s)"

text \<open>
  From the label \<^verbatim>\<open>retry\<close>: \<open>count\<close> has been read.  When the write
  would block, the residual count goes back to what it was.
\<close>

definition eventfd_write_retry :: "nat \<Rightarrow> u64 \<Rightarrow> uio \<Rightarrow> kworld \<Rightarrow> kres \<times> uio \<times> kworld" where
  "eventfd_write_retry fp count uio s =
     (let e = fp_efd s fp; efd = w_efd (k_w s) e in
      if UINT64_MAX - efd_count efd \<le> count then
        if f_nonblock (k_files s fp) then (KRet EAGAIN, uio\<lparr>uio_resid := uio_resid uio + 8\<rparr>, s)
        else (KSleep, uio, s)
      else (KRet 0, uio, efd_notify e (efd_upd e (\<lambda>efd. efd\<lparr>efd_count := efd_count efd + count\<rparr>) s)))"

definition eventfd_write_wakeup :: "int \<Rightarrow> nat \<Rightarrow> u64 \<Rightarrow> uio \<Rightarrow> kworld \<Rightarrow> kres \<times> uio \<times> kworld" where
  "eventfd_write_wakeup error fp count uio s =
     (if error \<noteq> 0 then (KRet error, uio, s) else eventfd_write_retry fp count uio s)"

definition eventfd_write :: "nat \<Rightarrow> uio \<Rightarrow> memory \<Rightarrow> kworld \<Rightarrow> (kres \<times> uio \<times> kworld) option" where
  "eventfd_write fp uio mem s =
     (if uio_resid uio < 8 then Some (KRet EINVAL, uio, s)
      else case uiomove (replicate 8 0) 8 uio mem of
        None \<Rightarrow> None
      | Some (bs, uio1, _) \<Rightarrow>
          let count = le_word bs in
          if count = UINT64_MAX then Some (KRet EINVAL, uio1, s)
          else Some (eventfd_write_retry fp count uio1 s))"

definition eventfd_poll :: "nat \<Rightarrow> u32 \<Rightarrow> kworld \<Rightarrow> u32 \<times> kworld" where
  "eventfd_poll fp events s =
     (let e = fp_efd s fp; efd = w_efd (k_w s) e;
          r1 = (if fl events (POLLIN OR POLLRDNORM) \<and> efd_count efd > 0
                then events AND (POLLIN OR POLLRDNORM) else 0);
          r2 = (if fl events (POLLOUT OR POLLWRNORM) \<and> UINT64_MAX - 1 > efd_count efd
                then r1 OR (events AND (POLLOUT OR POLLWRNORM)) else r1)
      in (r2, if r2 = 0 then efd_upd e (\<lambda>efd. efd\<lparr>efd_sel := True\<rparr>) s else s))"

definition eventfd_close :: "nat \<Rightarrow> kworld \<Rightarrow> int \<times> kworld" where
  "eventfd_close fp s = (0, efd_upd (fp_efd s fp) (\<lambda>efd. efd\<lparr>efd_sel := False\<rparr>) s)"

text \<open>
  The system call.  \<open>newfp\<close> is the answer of \<^verbatim>\<open>falloc_noinstall\<close>,
  \<open>newfd\<close> that of \<^verbatim>\<open>finstall\<close>, \<open>e\<close> the address of the new object.
  A file that is not installed is closed by \<^verbatim>\<open>fdrop\<close>.
\<close>

datatype specialfd = SPECIALFD_EVENTFD | SPECIALFD_OTHER

definition kern_specialfd ::
    "int + nat \<Rightarrow> int + nat \<Rightarrow> nat \<Rightarrow> specialfd \<Rightarrow> u32 \<Rightarrow> u32 \<Rightarrow> kworld \<Rightarrow> int \<times> kworld" where
  "kern_specialfd newfp newfd e type initval flags s =
     (case newfp of
        Inl err \<Rightarrow> (err, s)
      | Inr fp \<Rightarrow>
          (case type of
             SPECIALFD_EVENTFD \<Rightarrow>
               (case eventfd_create_file e fp initval flags s of (_, s1) \<Rightarrow>
                  (case newfd of
                     Inl err \<Rightarrow> (err, snd (eventfd_close fp s1))
                   | Inr fd \<Rightarrow> (0, s1\<lparr>k_fdt := (k_fdt s1)(fd \<mapsto> fp), k_retval := int fd\<rparr>)))
           | SPECIALFD_OTHER \<Rightarrow> (EINVAL, s)))"

definition sys___specialfd ::
    "int + nat \<Rightarrow> int + nat \<Rightarrow> nat \<Rightarrow> specialfd \<Rightarrow> nat \<Rightarrow> u32 \<Rightarrow> u32 \<Rightarrow> kworld \<Rightarrow> int \<times> kworld" where
  "sys___specialfd newfp newfd e type len initval flags s =
     (case type of
        SPECIALFD_EVENTFD \<Rightarrow>
          if len \<noteq> 8 then (EINVAL, s)
          else if fl flags (NOT (EFD_CLOEXEC OR EFD_NONBLOCK OR EFD_SEMAPHORE)) then (EINVAL, s)
          else kern_specialfd newfp newfd e type initval flags s
      | SPECIALFD_OTHER \<Rightarrow> (EINVAL, s))"

end
