(* ===== verification/Descrip.thy ===== *)
theory Descrip
  imports Kqueue_Watch Filedesc_Props Eventfd
begin

text \<open>
  The system calls on descriptors: \<^verbatim>\<open>kern_close\<close>, \<^verbatim>\<open>kern_dup\<close>
  and the creation of files, from \<^verbatim>\<open>sys/kern/kern_descrip.c\<close>, over the table of
  \<open>Filedesc\<close> and the kernel state of \<open>Kqueue\<close>.  The map \<open>k_fdt\<close> that the event
  queue looks descriptors up in is the content of the table.  The process has one leader
  (\<^verbatim>\<open>p_fdtol\<close> is not set) and no POSIX message queues; advisory locks of vnodes
  are not in the model.
\<close>

section \<open>The program\<close>

record proc =
  p_fd :: filedesc
  p_kern :: kworld

definition proc_set :: "filedesc \<Rightarrow> kworld \<Rightarrow> proc" where
  "proc_set fdp s = \<lparr>p_fd = fdp, p_kern = s\<lparr>k_fdt := fdt fdp\<rparr>\<rparr>"

text \<open>
  The close routine of a file by its type; \<open>oclose\<close> is that of the types whose objects the
  event queue does not know.
\<close>

definition fo_close :: "(nat \<Rightarrow> world \<Rightarrow> int \<times> world) \<Rightarrow> nat \<Rightarrow> kworld \<Rightarrow> (int + dropres) \<times> kworld" where
  "fo_close oclose fp s =
     (case f_type (k_files s fp) of
        DTYPE_KQUEUE \<Rightarrow> kqueue_close kern_ops fp s
      | DTYPE_EVENTFD \<Rightarrow> (case eventfd_close fp s of (e, s1) \<Rightarrow> (Inl e, s1))
      | _ \<Rightarrow> (case oclose fp (k_w s) of (e, w) \<Rightarrow> (Inl e, s\<lparr>k_w := w\<rparr>)))"

text \<open>Giving back a reference; the last one closes the file.\<close>

definition fdrop_close :: "(nat \<Rightarrow> world \<Rightarrow> int \<times> world) \<Rightarrow> nat \<Rightarrow> kworld \<Rightarrow> (int + dropres) \<times> kworld" where
  "fdrop_close oclose fp s =
     (let s1 = fdrop fp s in
      if f_count (k_files s1 fp) = 0 then fo_close oclose fp s1 else (Inl 0, s1))"

definition closefp_impl ::
    "(nat \<Rightarrow> world \<Rightarrow> int \<times> world) \<Rightarrow> nat \<Rightarrow> nat \<Rightarrow> kworld \<Rightarrow> (int + dropres) \<times> kworld" where
  "closefp_impl oclose fd fp s =
     (case (if k_kqlist s \<noteq> [] then knote_fdclose kern_ops fd s else (Drop_done, s)) of
        (Drop_done, s1) \<Rightarrow>
          (case fdrop_close oclose fp s1 of
             (Inl e, s2) \<Rightarrow> (Inl (if e = ERESTART then EINTR else e), s2)
           | r \<Rightarrow> r)
      | (r, s1) \<Rightarrow> (Inr r, s1))"

definition kern_close ::
    "(nat \<Rightarrow> world \<Rightarrow> int \<times> world) \<Rightarrow> nat \<Rightarrow> proc \<Rightarrow> ((int + dropres) \<times> proc) option" where
  "kern_close oclose fd p =
     (case fget_locked (p_fd p) fd of
        None \<Rightarrow> Some (Inl EBADF, p)
      | Some fp \<Rightarrow>
          do {
            fdp1 \<leftarrow> fdfree fd (p_fd p);
            let (r, s1) = closefp_impl oclose fd fp (p_kern (proc_set fdp1 (p_kern p)));
            Some (r, proc_set fdp1 s1)
          })"

datatype dupmode = FDDUP_NORMAL | FDDUP_FCNTL | FDDUP_FIXED | FDDUP_MUSTREPLACE

abbreviation UF_EXCLOSE :: u8 where "UF_EXCLOSE \<equiv> 1"

text \<open>A reference is refused when the counter would reach \<open>2 ^ 31\<close>.\<close>

definition fhold :: "nat \<Rightarrow> kworld \<Rightarrow> bool \<times> kworld" where
  "fhold fp s =
     (if f_count (k_files s fp) + 1 \<ge> 2 ^ 31 then (False, s)
      else (True, file_upd fp (\<lambda>f. f\<lparr>f_count := f_count f + 1\<rparr>) s))"

text \<open>The part of \<^verbatim>\<open>kern_dup\<close> that finds the new descriptor: an error or the descriptor.\<close>

definition dup_target ::
    "u64 \<Rightarrow> nat \<Rightarrow> dupmode \<Rightarrow> nat \<Rightarrow> filedesc \<Rightarrow> ((int + nat) \<times> filedesc) option" where
  "dup_target ul maxfd mode new fdp =
     (case mode of
        FDDUP_MUSTREPLACE \<Rightarrow>
          Some (if fget_locked fdp new = None then Inl EBADF else Inr new, fdp)
      | FDDUP_FIXED \<Rightarrow>
          do {
            let fdp1 = (if new \<ge> fd_nfiles fdp then fdgrowtable_exp (new + 1) fdp else fdp);
            u \<leftarrow> fdisused fdp1 new;
            fdp2 \<leftarrow> (if u then Some fdp1 else fdused (int new) fdp1);
            Some (Inr new, fdp2)
          }
      | _ \<Rightarrow> fdalloc ul maxfd new fdp)"

definition dup_copy :: "nat \<Rightarrow> nat \<Rightarrow> bool \<Rightarrow> filedesc \<Rightarrow> filedesc option" where
  "dup_copy old new cloexec fdp =
     fde_set new (\<lambda>_. let e = fd_ofiles fdp ! old in
       e\<lparr>fde_flags := (if cloexec then fde_flags e OR UF_EXCLOSE else fde_flags e AND NOT UF_EXCLOSE)\<rparr>) fdp"

definition kern_dup ::
    "(nat \<Rightarrow> world \<Rightarrow> int \<times> world) \<Rightarrow> u64 \<Rightarrow> nat \<Rightarrow> dupmode \<Rightarrow> bool \<Rightarrow> int \<Rightarrow> int \<Rightarrow> proc \<Rightarrow>
     ((int + dropres) \<times> proc) option" where
  "kern_dup oclose ul maxfd mode cloexec old new p =
     (if old < 0 then Some (Inl EBADF, p)
      else if new < 0 \<or> new \<ge> int maxfd then Some (Inl (if mode = FDDUP_FCNTL then EINVAL else EBADF), p)
      else case fget_locked (p_fd p) (nat old) of
        None \<Rightarrow> Some (Inl EBADF, p)
      | Some oldfp \<Rightarrow>
          if (mode = FDDUP_FIXED \<or> mode = FDDUP_MUSTREPLACE) \<and> old = new then
            do {
              fdp1 \<leftarrow> (if cloexec then fde_set (nat new) (\<lambda>e. e\<lparr>fde_flags := fde_flags e OR UF_EXCLOSE\<rparr>) (p_fd p)
                       else Some (p_fd p));
              Some (Inl 0, proc_set fdp1 ((p_kern p)\<lparr>k_retval := new\<rparr>))
            }
          else case fhold oldfp (p_kern p) of
            (False, s1) \<Rightarrow> Some (Inl EBADF, p)
          | (True, s1) \<Rightarrow>
              do {
                (r, fdp1) \<leftarrow> dup_target ul maxfd mode (nat new) (p_fd p);
                case r of
                  Inl e \<Rightarrow> Some (Inl e, proc_set fdp1 (fdrop oldfp s1))
                | Inr nfd \<Rightarrow>
                    do {
                      let delfp = fget_locked fdp1 nfd;
                      fdp2 \<leftarrow> dup_copy (nat old) nfd cloexec fdp1;
                      let s2 = p_kern (proc_set fdp2 (s1\<lparr>k_retval := int nfd\<rparr>));
                      case delfp of
                        None \<Rightarrow> Some (Inl 0, proc_set fdp2 s2)
                      | Some fp \<Rightarrow>
                          let (r1, s3) = closefp_impl oclose nfd fp s2
                          in Some (case r1 of Inl _ \<Rightarrow> Inl 0 | _ \<Rightarrow> r1, proc_set fdp2 s3)
                    }
              })"

text \<open>
  The creation of a kqueue and of an eventfd with the descriptor the table hands out.  \<open>fp\<close>
  is the address of the new file, \<open>q\<close> or \<open>e\<close> that of the new object.  A file is made
  with one reference, which becomes that of the table.
\<close>

definition proc_kqueue :: "u64 \<Rightarrow> nat \<Rightarrow> bool \<Rightarrow> nat \<Rightarrow> nat \<Rightarrow> proc \<Rightarrow> (int \<times> proc) option" where
  "proc_kqueue ul maxfd limok fp q p =
     (if \<not> limok then Some (ENOMEM, p)
      else do {
        (r, fdp1) \<leftarrow> finstall_refed ul maxfd fp False (p_fd p);
        let (e, s1) = kern_kqueue True (case r of Inl err \<Rightarrow> Inl err | Inr fd \<Rightarrow> Inr (fd, fp)) q (p_kern p);
        Some (e, proc_set fdp1 s1)
      })"

definition falloc_noinstall :: "nat \<Rightarrow> kworld \<Rightarrow> kworld" where
  "falloc_noinstall fp s =
     s\<lparr>k_files := (k_files s)(fp := \<lparr>f_type = DTYPE_OTHER, f_data = None, f_nonblock = False, f_count = 1\<rparr>)\<rparr>"

definition proc_eventfd :: "u64 \<Rightarrow> nat \<Rightarrow> nat \<Rightarrow> nat \<Rightarrow> u32 \<Rightarrow> u32 \<Rightarrow> proc \<Rightarrow> (int \<times> proc) option" where
  "proc_eventfd ul maxfd fp e initval flags p =
     do {
       (r, fdp1) \<leftarrow> finstall_refed ul maxfd fp (fl flags EFD_CLOEXEC) (p_fd p);
       let (err, s1) = kern_specialfd (Inr fp) r e SPECIALFD_EVENTFD initval flags (falloc_noinstall fp (p_kern p));
       Some (err, proc_set fdp1 s1)
     }"

end
