(* ===== verification/Kqueue_Live.thy ===== *)
theory Kqueue_Live
  imports Filters_Ok Kqueue_Copy
begin

text \<open>
  Events are not lost: a knote whose filter fires while it is enabled ends up in the pending
  queue, whether it is asked at registration or from the list of its object, and a scan
  reports the first pending knote that still fires.
\<close>

section \<open>At registration\<close>

lemma done_ev_add_active:
  assumes "f_event (ops (kn_fop (kn_of s (q, k)))) (q, k) 0 s = (True, s1)"
    and "KN_DISABLED \<notin> kn_status (kn_of s (q, k))" "kq_notes (kqs s1 q) k = Some kn"
  shows "has_st KN_ACTIVE (kqs (kqueue_done_ev_add ops (q, k) s) q) k"
    and "\<exists>st n. kq_notes (kqs (kqueue_done_ev_add ops (q, k) s) q) k = Some (kn\<lparr>kn_status := st, kn_influx := n\<rparr>)"
proof -
  define s2 where "s2 = kq_upd q (kn_upd k (st_set {KN_ACTIVE})) s1"
  have "kqueue_done_ev_add ops (q, k) s = kq_upd q (kq_settle k) s2"
    by (simp only: kqueue_done_ev_add_def assms(1,2) if_True not_True_eq_False not_False_eq_True prod.case
        fst_conv snd_conv s2_def Let_def)
      (simp add: kq_upd_def kq_settle_def kn_of_def)
  moreover have "kq_notes (kqs s2 q) k = Some (st_set {KN_ACTIVE} kn)"
    by (simp add: s2_def assms(3))
  ultimately show "has_st KN_ACTIVE (kqs (kqueue_done_ev_add ops (q, k) s) q) k"
    "\<exists>st n. kq_notes (kqs (kqueue_done_ev_add ops (q, k) s) q) k = Some (kn\<lparr>kn_status := st, kn_influx := n\<rparr>)"
    by (auto simp: has_st_def kq_settle_notes st_set_def)
qed

lemma queued_pending:
  assumes "kq_alloc X kq" "has_st KN_ACTIVE kq k" "\<not> has_st KN_DISABLED kq k"
  shows "QNote k \<in> set (kq_head kq)"
  using assms by (auto simp: kq_alloc_def ready_ok_def queue_ok_def)

lemma user_update_pending:
  assumes "kq_inv (kqs s q)" "kq_notes (kqs s q) k = Some kn" "kn_fop kn = User_filtops"
    and "KN_DISABLED \<notin> kn_status kn" "kev = EV_SET ident filt 0 NOTE_TRIGGER d u"
    and "kqueue_reg_update kern_ops (q, k) User_filtops kev s = (kev', s')"
  shows "kq_inv (kqs s' q) \<and> kq_keep q s s' \<and> notes_but k (kqs s q) (kqs s' q) \<and>
    QNote k \<in> set (kq_head (kqs s' q)) \<and>
    (\<exists>kn'. kq_notes (kqs s' q) k = Some kn' \<and> kn_fop kn' = User_filtops \<and> kn_hookid kn' = 1 \<and>
      kn_flags kn' = kn_flags kn \<and> kn_id kn' = kn_id kn \<and> kn_filter kn' = kn_filter kn \<and>
      KN_DISABLED \<notin> kn_status kn')"
proof -
  have fl: "\<not> fl (ke_flags kev) m" for m
    by (simp add: assms(5) EV_SET_def fl_def)
  have ok: "kq_alloc {} (kqs s' q)" "\<not> has_st KN_DISABLED (kqs s' q) k" "kq_keep q s s'" "notes_but k (kqs s q) (kqs s' q)"
    using kf.reg_update_ok [OF _ assms(2) _ assms(6) fl, of "{}"] assms(1,4) fl
    by (auto simp: kq_alloc_empty has_st_def)
  define s4 where "s4 = kq_upd q (kq_update_prep kev k) s"
  obtain kev1 s5 where t: "filt_usertouch EVENT_REGISTER (q, k) kev s4 = (kev1, s5)"
    by fastforce
  have res: "s' = kqueue_done_ev_add kern_ops (q, k) s5"
    using assms(6) t kqueue_reg_update_prep [OF fl, of kern_ops q k User_filtops s]
    by (simp add: s4_def [symmetric] Let_def)
  obtain kn4 where n4: "kq_notes (kqs s4 q) k = Some kn4" "KN_DISABLED \<notin> kn_status kn4" "kn_fop kn4 = User_filtops"
    "kn_flags kn4 = kn_flags kn" "kn_id kn4 = kn_id kn" "kn_filter kn4 = kn_filter kn"
    using assms(2-4) fl by (auto simp: s4_def kq_update_prep_def Let_def st_set_def kn_enter_flux_def)
  then obtain kn5 where n5: "kq_notes (kqs s5 q) k = Some kn5" "KN_DISABLED \<notin> kn_status kn5"
    "kn_fop kn5 = User_filtops" "kn_hookid kn5 = 1"
    "kn_flags kn5 = kn_flags kn" "kn_id kn5 = kn_id kn" "kn_filter kn5 = kn_filter kn"
    using t fl by (auto simp: filt_usertouch_def Let_def kn_mod_def assms(5) EV_SET_def fl_def)
  have ev: "f_event (kern_ops (kn_fop (kn_of s5 (q, k)))) (q, k) 0 s5 = (True, s5)"
    "KN_DISABLED \<notin> kn_status (kn_of s5 (q, k))"
    using n5 by (auto simp: kn_of_def filt_user_def)
  note act = done_ev_add_active [where ops = kern_ops, OF ev n5(1), folded res]
  have "QNote k \<in> set (kq_head (kqs s' q))"
    using ok queued_pending [OF ok(1) act(1)] by simp
  then show ?thesis
    using ok act(2) n5 by (auto simp: kq_alloc_empty has_st_def)
qed

lemma find_unique:
  assumes "kq_inv kq" "uniq_ok {} kq" "kq_notes kq k = Some kn" "kn_id kn = ke_ident kev"
    and "kn_filter kn = ke_filter kev" "f_isfd (kn_fop kn) = f_isfd fops" "\<not> find_skips fops kev"
  shows "kq_find fops kq kev = Some k"
proof -
  have ix: "index_ok {} kq"
    using assms(1) by (simp add: kq_inv_def)
  obtain j where j: "kq_find fops kq kev = Some j"
    using kq_find_None [OF ix _ assms(7,3) _ assms(6,4)] assms(5) by (cases "kq_find fops kq kev") auto
  then obtain a where "kq_notes kq j = Some a" "kn_key a = (ke_ident kev, ke_filter kev, f_isfd fops)"
    using kq_find_Some [OF ix j] by (auto simp: kn_key_def)
  then have "j = k"
    using assms(2-5) by (auto simp: uniq_ok_def kn_key_def)
  then show ?thesis
    using j by simp
qed

lemma register_update_run:
  assumes "kq_inv (kqs s q)" "uniq_ok {} (kqs s q)" "kq_notes (kqs s q) k = Some kn"
    and "kn_key kn = (ke_ident kev, ke_filter kev, False)" "\<not> fl (ke_flags kev) EV_ADD"
    and "\<not> (fl (ke_flags kev) EV_ENABLE \<and> fl (ke_flags kev) EV_DISABLE)" "ke_filter kev \<noteq> EVFILT_PROC"
    and "kqueue_fo_find (ke_filter kev) s = (Some fops, s1)" "\<not> f_isfd fops"
    and "kqueue_reg_update ops (q, k) fops kev s1 = (kev', s2)"
  shows "kqueue_register ops q kev waitok s = (KRet 0, kev', kqueue_fo_release (ke_filter kev) s2)"
proof -
  have s1: "kqs s1 q = kqs s q"
    using kqueue_fo_find_kqs [OF assms(8)] by simp
  have "kq_find fops (kqs s q) kev = Some k"
    using assms by (intro find_unique [OF assms(1-3)]) (auto simp: kn_key_def find_skips_def)
  then have "kq_find_hash (kqs s q) kev = Some k"
    by (simp add: kq_find_def assms(9))
  moreover have "\<not> kn_in_flux (kn_of s1 (q, k))"
    using assms(1,3) s1 by (auto simp: kq_inv_def calm_def kn_in_flux_def kn_of_def)
  moreover have "kq_upd q (\<lambda>_. kqs s q) s1 = s1"
    using s1 by (simp add: kq_upd_def fun_upd_idem)
  ultimately have "kqueue_findkn fops q waitok kev s1 = Found None (Some k) s1"
    using assms(5,9) s1 by (simp add: kqueue_findkn.simps [of fops] kqueue_flux_check_def)
  moreover have "kq_upd q (\<lambda>_. kqs s1 q) s1 = s1" "kq_upd q (knote_free None) s2 = s2"
    by (simp_all add: kq_upd_def fun_upd_idem knote_free_def)
  ultimately show ?thesis
    using assms(5,6,8,10) by (auto simp: kqueue_register_def fdrop_opt_def)
qed

section \<open>In a scan\<close>

lemma loop_first:
  assumes "copy_total cops lg" "0 < count" "kq_head (kqs s q) = QNote k # rest"
    and "\<not> kn_in_flux (kn_of s (q, k))" "KN_DISABLED \<notin> kn_status (kn_of s (q, k))"
    and "fst (kqueue_scan_note ops (q, k) (kq_upd q (\<lambda>kq. kq\<lparr>kq_head := rest\<rparr>) s)) \<noteq> None"
    and "kqueue_scan_loop (Suc fuel) ops cops q m count influx keva u s = (out, count', keva', u', s')"
  shows "count' < count"
proof -
  obtain kev s2 where n: "kqueue_scan_note ops (q, k) (kq_upd q (\<lambda>kq. kq\<lparr>kq_head := rest\<rparr>) s) = (Some kev, s2)"
    using assms(6) by (cases "kqueue_scan_note ops (q, k) (kq_upd q (\<lambda>kq. kq\<lparr>kq_head := rest\<rparr>) s)") auto
  have d: "KN_DISABLED \<notin> kn_status (kn_of (kq_upd q (\<lambda>kq. kq\<lparr>kq_head := rest\<rparr>) s) (q, k))"
    using assms(5) by (simp add: kn_of_def kn_at_def)
  have le: "c \<le> count - 1"
    if "kqueue_scan_loop fuel ops cops q m (count - 1) i kv v t = (out, c, kw, w, t')" for i kv v t c kw w t'
    using scan_loop_wrote [OF assms(1), of "count - 1" kv v fuel ops q m i t] that assms(2)
    by (simp add: loop_wrote_def)
  show ?thesis
  proof (cases "length (keva @ [kev]) = KQ_NEVENTS")
    case True
    obtain e u1 where c: "k_copyout cops (keva @ [kev]) u = (e, u1)"
      by fastforce
    then have "e = 0"
      using copy_totalD(1) [OF assms(1)] by blast
    then have "kqueue_scan_loop fuel ops cops q m (count - 1) False [] u1 (kq_upd q KQ_FLUX_WAKEUP s2)
        = (out, count', keva', u', s')"
      using assms(2-5,7) n d c True by (simp add: Let_def)
    then show ?thesis
      using le by fastforce
  next
    case False
    then have "\<exists>i. kqueue_scan_loop fuel ops cops q m (count - 1) i (keva @ [kev]) u s2
        = (out, count', keva', u', s')"
      using assms(2-5,7) n d by (simp add: Let_def) (rule exI)
    then show ?thesis
      using le by fastforce
  qed
qed

lemma copy_total_log: "copy_total cops lg \<Longrightarrow> copy_log cops lg"
  by (simp add: copy_log_def) (metis copy_totalD(1))

lemma scan_progress:
  assumes "copy_total cops lg" "kq_inv (kqs s q)" "marks (kqs s q) = []" "kq_head (kqs s q) = QNote k # rest"
    and "KN_DISABLED \<notin> kn_status (kn_of s (q, k))" "0 < maxevents"
    and "kqueue_scan_deadline clk tsp = Inr d"
    and "fst (kqueue_scan_note kern_ops (q, k) (kq_upd q (\<lambda>kq. kq\<lparr>kq_head := rest @ [QMark td]\<rparr>) s)) \<noteq> None"
    and "kqueue_scan kern_ops cops clk td q maxevents tsp u s = (r, u', s')"
  shows "r = Scan_ret 0 \<and> 1 \<le> k_retval s'"
proof -
  define s1 where "s1 = kq_upd q (\<lambda>kq. kq\<lparr>kq_head := kq_head kq @ [QMark td]\<rparr>) s"
  obtain out count keva u1 s2 where lp: "kqueue_scan_loop (length (kq_head (kqs s1 q)) + 1) kern_ops cops q td
      maxevents False [] u s1 = (out, count, keva, u1, s2)"
    by (metis prod_cases5)
  have "kq_notes (kqs s q) k \<noteq> None"
    using assms(2,4) by (auto simp: kq_inv_def queue_ok_def has_st_def split: option.splits)
  then have fx: "\<not> kn_in_flux (kn_of s (q, k))"
    using assms(2) by (auto simp: kn_in_flux_def kn_of_def kq_inv_def calm_def)
  have "kq_upd q (\<lambda>kq. kq\<lparr>kq_head := rest @ [QMark td]\<rparr>) s1 = kq_upd q (\<lambda>kq. kq\<lparr>kq_head := rest @ [QMark td]\<rparr>) s"
    by (simp add: s1_def kq_upd_def)
  then have lt: "count < maxevents"
    using lp assms(4-6,8) fx
    by (intro loop_first [OF assms(1,6), of s1 q k "rest @ [QMark td]"]) (auto simp: s1_def kn_of_def kn_at_def)
  have "kq_count (kqs s q) \<noteq> 0"
    using assms(2,4) by (auto simp: kq_inv_def queue_ok_def)
  then have unf: "kqueue_scan_retry 2 kern_ops cops q td maxevents asbt u s =
      (case (out, count, keva, u1, s2) of
          (Sc_marker, count, keva, u1, s2) \<Rightarrow>
            if count = maxevents then kqueue_scan_retry 1 kern_ops cops q td maxevents asbt u1 s2
            else (Scan_ret 0, count, keva, u1, kq_upd q KQ_FLUX_WAKEUP s2)
        | (Sc_end e, count, keva, u1, s2) \<Rightarrow>
            (Scan_ret e, count, keva, u1,
             kq_upd q (\<lambda>kq. KQ_FLUX_WAKEUP (kq\<lparr>kq_head := remove1 (QMark td) (kq_head kq)\<rparr>)) s2)
        | (Sc_sleep, count, keva, u1, s2) \<Rightarrow> (Scan_sleep, count, keva, u1, s2)
        | (_, count, keva, u1, s2) \<Rightarrow> (Scan_fault, count, keva, u1, s2))" for asbt
    using kqueue_scan_retry.simps(2) [of 1 kern_ops cops q td maxevents asbt u s]
    by (simp only: Suc_1 Let_def if_False s1_def [symmetric] lp)
  have "loop_wrote lg maxevents [] u (out, count, keva, u1, s2)"
    using scan_loop_wrote [OF assms(1), of maxevents "[]" u] assms(6) lp by (metis less_imp_le)
  then have e: "out = Sc_end e \<Longrightarrow> e = 0" for e
    by (simp add: loop_wrote_def)
  have "out = Sc_marker \<or> (\<exists>e. out = Sc_end e)"
  proof -
    have hd: "kq_head (kqs s q) = map QNote (pending (kqs s q))"
      by (rule head_no_marks [OF assms(3)])
    have hd1: "kq_head (kqs s1 q) = map QNote (pending (kqs s q)) @ QMark td # map QNote []"
      using hd by (simp add: s1_def)
    have "distinct (kq_head (kqs s q))"
      using assms(2) by (simp add: kq_inv_def queue_ok_def)
    then have "kq_inv (kqs s1 q)"
      using kq_inv_mark [OF assms(2), of "kq_head (kqs s q) @ [QMark td]"] hd by (auto simp: s1_def)
    then have "scan_post q td lg (pending (kqs s q)) [] maxevents [] u s1 (out, count, keva, u1, s2)"
      unfolding lp [symmetric]
      by (rule kf.scan_loop_ok [OF copy_total_log [OF assms(1)] _ hd1]) (use assms(6) hd1 in auto)
    then show ?thesis
      by (auto simp: scan_post_def)
  qed
  then show ?thesis
    using assms(6,7,9) e lt copy_totalD(1) [OF assms(1)]
    by (cases d) (auto simp: kqueue_scan_def unf Let_def split: if_splits prod.splits)
qed

lemma scan_note_user:
  assumes "kq_notes (kqs s q) k = Some kn" "kn_fop kn = User_filtops" "kn_hookid kn \<noteq> 0"
    and "\<not> fl (kn_flags kn) EV_DROP"
  shows "fst (kqueue_scan_note kern_ops (q, k) s) \<noteq> None"
  using assms
  by (simp add: kqueue_scan_note_def kn_of_def Let_def filt_user_def kn_enter_flux_def st_set_def split: prod.split)

lemma head_single:
  assumes "queue_ok a" "queue_ok b" "kq_head a = []" "marks b = []" "notes_but k a b" "QNote k \<in> set (kq_head b)"
  shows "kq_head b = [QNote k]"
proof -
  have all: "e = QNote k" if "e \<in> set (kq_head b)" for e
  proof (cases e)
    case (QNote j)
    then have "has_st KN_QUEUED b j"
      using queue_okD(2) [OF assms(2), of j] that by simp
    moreover have "\<not> has_st KN_QUEUED a j"
      using queue_okD(2) [OF assms(1), of j] assms(3) by simp
    ultimately have "j = k"
      using assms(5) unfolding has_st_def notes_but_def by metis
    then show ?thesis
      by (simp add: QNote)
  next
    case (QMark m)
    then have "e \<in> set (marks b)"
      using that by (simp add: marks_def)
    then show ?thesis
      by (simp add: assms(4))
  qed
  have "set (kq_head b) = {QNote k}"
    using all assms(6) by blast
  moreover obtain x where "kq_head b = [x]"
    using calculation distinct_card [OF queue_okD(1) [OF assms(2)]]
    by (metis One_nat_def card_1_singleton_iff is_singletonI is_singleton_altdef length_0_conv length_Suc_conv)
  ultimately show ?thesis
    by simp
qed

lemma fo_release_kqs [simp]: "kqs (kqueue_fo_release filt s) = kqs s"
  by (simp add: kqueue_fo_release_def filt_upd_def)

lemma user_trigger_run:
  assumes "kq_inv (kqs s q)" "uniq_ok {} (kqs s q)" "kq_notes (kqs s q) k = Some kn" "kn_fop kn = User_filtops"
    and "kn_filter kn = EVFILT_USER" "KN_DISABLED \<notin> kn_status kn"
    and "fst (kqueue_fo_find EVFILT_USER s) = Some User_filtops"
  shows "\<exists>kev' s'. kqueue_register kern_ops q (EV_SET (kn_id kn) EVFILT_USER 0 NOTE_TRIGGER d u) waitok s = (KRet 0, kev', s') \<and>
    kq_inv (kqs s' q) \<and> marks (kqs s' q) = marks (kqs s q) \<and> notes_but k (kqs s q) (kqs s' q) \<and>
    QNote k \<in> set (kq_head (kqs s' q)) \<and>
    (\<exists>kn'. kq_notes (kqs s' q) k = Some kn' \<and> kn_fop kn' = User_filtops \<and> kn_hookid kn' = 1 \<and>
      kn_flags kn' = kn_flags kn \<and> kn_id kn' = kn_id kn \<and> kn_filter kn' = kn_filter kn \<and>
      KN_DISABLED \<notin> kn_status kn')"
proof -
  define kev where "kev = EV_SET (kn_id kn) EVFILT_USER 0 NOTE_TRIGGER d u"
  have kev: "ke_ident kev = kn_id kn" "ke_filter kev = EVFILT_USER" "ke_flags kev = 0"
    by (simp_all add: kev_def EV_SET_def)
  obtain s1 where fo: "kqueue_fo_find (ke_filter kev) s = (Some User_filtops, s1)"
    using assms(7) kev by (metis prod.collapse)
  have s1: "kqs s1 = kqs s"
    using kqueue_fo_find_kqs [OF fo] by simp
  obtain kev' s2 where up: "kqueue_reg_update kern_ops (q, k) User_filtops kev s1 = (kev', s2)"
    by fastforce
  note pend = user_update_pending [OF _ _ assms(4,6) kev_def up, unfolded s1, OF assms(1,3)]
  have "kqueue_register kern_ops q kev waitok s = (KRet 0, kev', kqueue_fo_release (ke_filter kev) s2)"
    by (rule register_update_run [OF assms(1-3) _ _ _ _ fo _ up]) (simp_all add: kn_key_def assms(4,5) kev fl_def)
  then show ?thesis
    using pend s1 unfolding kev_def [symmetric] by (auto simp: kq_keep_def)
qed

end
