(* ===== verification/Kqueue_Props.thy ===== *)
theory Kqueue_Props
  imports Kqueue_Live Boot
begin

text \<open>
  What the event queue guarantees with the kernel's own filters.
\<close>

definition user_add :: kevent where
  "user_add = EV_SET 7 EVFILT_USER (EV_ADD OR EV_CLEAR) 0 0 0"

definition user_del :: kevent where
  "user_del = EV_SET 7 EVFILT_USER EV_DELETE 0 0 0"

definition user_one :: kworld where
  "user_one = snd (snd (kqueue_register kern_ops 0 user_add True boot))"

definition clk0 :: sbclock where
  "clk0 = \<lparr>sbinuptime = 0, getsbinuptime = 0, sbt_timethreshold = 0, tc_tick_sbt = 0, tc_precexp = 0\<rparr>"

definition uap0 :: kevent_args where
  "uap0 = \<lparr>ka_fd = 3, ka_changelist = [user_add], ka_nchanges = 1, ka_eventlist = [], ka_nevents = 4,
     ka_timeout = Some (0, 0)\<rparr>"

abbreviation kevent_copyops :: "kevent_args copyops" where
  "kevent_copyops \<equiv> \<lparr>k_copyout = kevent_copyout, k_copyin = kevent_copyin\<rparr>"

lemmas kq_eval =
  user_add_def boot_def kern0_def kern_kqueue_def EV_SET_def Let_def fl_def
  kqueue_register_def kqueue_fo_find_def kqueue_fo_release_def filt_out_of_range_def sysfilt_ops_def
  knote_alloc_def knote_free_def kqueue_findkn.simps kqueue_expand_def kqueue_flux_check_def kq_find_hash_def
  kqueue_reg_add_def kqueue_new_knote_def knote_attach_def kqueue_done_ev_add_def kq_upd_def
  kqueue_init_def kn_upd_def kn_of_def kn_at_def zero_knote_def kn_enter_flux_def kn_leave_flux_def
  kn_klist_def kn_klist_upd_def KN_HASH_def filt_userattach_def filt_user_def kn_mod_def fdrop_opt_def
  KQ_FLUX_WAKEUP_def st_clr_def st_set_def

section \<open>The first states\<close>

lemma kq_inv_init: "kq_inv kqueue_init" "uniq_ok {} kqueue_init" "marks kqueue_init = []"
  by (simp_all add: kq_inv_def queue_ok_def index_ok_def ready_ok_def fresh_ok_def calm_def uniq_ok_def
      marks_def has_st_def kqueue_init_def)

lemma kq_notes_init [simp]: "kq_notes kqueue_init = Map.empty"
  by (simp add: kqueue_init_def)

lemma boot_init: "kqs boot = (\<lambda>_. kqueue_init)"
  by (simp add: boot_def kern0_def kern_kqueue_def fun_eq_iff)

lemma boot_inv: "kern_inv boot"
  by (simp add: kern_inv_def boot_init kq_inv_init)

lemma user_one_ret: "\<exists>kev. kqueue_register kern_ops 0 user_add True boot = (KRet 0, kev, user_one)"
  unfolding user_one_def by (simp add: kq_eval)

lemma user_one_inv: "kq_inv (kqs user_one 0)" "marks (kqs user_one 0) = []" "kern_inv user_one"
proof -
  obtain kev where r: "kqueue_register kern_ops 0 user_add True boot = (KRet 0, kev, user_one)"
    using user_one_ret by blast
  then have "kq_inv (kqs user_one 0) \<and> kq_keep 0 boot user_one"
    by (rule kf.register_inv [rotated]) (simp add: boot_init kq_inv_init)
  then have r: "kq_inv (kqs user_one 0)" "kq_env 0 boot user_one" "marks (kqs user_one 0) = marks (kqs boot 0)"
    using kq_keep_env by blast+
  then show "kq_inv (kqs user_one 0)" "marks (kqs user_one 0) = []"
    by (simp_all add: boot_init kq_inv_init)
  show "kern_inv user_one"
    using r(1,2) boot_inv by (rule kern_invI)
qed

lemma user_one_note: "map_option kn_id (kq_notes (kqs user_one 0) 0) = Some 7"
  by (simp add: user_one_def kq_eval)

lemma user_one_kn:
  "case kq_notes (kqs user_one 0) 0 of None \<Rightarrow> False
   | Some kn \<Rightarrow> kn_fop kn = User_filtops \<and> kn_filter kn = EVFILT_USER \<and>
     KN_DISABLED \<notin> kn_status kn \<and> \<not> fl (kn_flags kn) EV_DROP \<and> kn_id kn = 7"
  by (simp add: user_one_def kq_eval)

lemma user_one_queue: "kq_head (kqs user_one 0) = []"
  by (simp add: user_one_def kq_eval)

lemma user_one_fo: "fst (kqueue_fo_find EVFILT_USER user_one) = Some User_filtops"
  by (simp add: user_one_def kq_eval)

lemma kevent_copy_log: "copy_log kevent_copyops ka_eventlist"
  by (auto simp: copy_log_def kevent_copyout_def split: if_splits)

lemma user_one_uniq: "uniq_ok {} (kqs user_one 0)"
proof -
  obtain kev where "kqueue_register kern_ops 0 user_add True boot = (KRet 0, kev, user_one)"
    using user_one_ret by blast
  then show ?thesis
    by (rule kf.register_uniq [rotated 2])
      (simp_all add: boot_init kq_inv_init user_add_def EV_SET_def find_skips_def)
qed

section \<open>Registration\<close>

text \<open>
  C1: A change registered on a kqueue in order leaves it in order (every knote is in the one
  list its key selects, every queued knote is active, none is in flux, the pending queue has
  each queued knote once and the counter is its length), touches no other kqueue, and has one
  of three outcomes: an error or a sleep that leaves all knotes as they were; the deletion or
  the update of one knote with the key of the change, disabled and enabled as the change
  says; or one new knote, which no other knote of the kqueue shares the key with.
\<close>

theorem kqueue_register_outcome:
  assumes "kq_inv (kqs s q)" "kqueue_register kern_ops q kev waitok s = (r, kev', s')"
  shows "kq_inv (kqs s' q) \<and> kq_keep q s s' \<and>
    (reg_none (kqs s q) (kqs s' q) r \<or>
     (\<exists>fops. fst (kqueue_fo_find (ke_filter kev) s) = Some fops \<and>
        (reg_changed fops kev (kqs s q) (kqs s' q) r \<or> reg_added fops kev (kqs s q) (kqs s' q) r)))"
  using assms by (rule kf.register_outcome)

theorem kqueue_register_outcome_witness:
  "kq_inv (kqs user_one 0) \<and> kq_keep 0 boot user_one \<and> \<not> reg_none (kqs boot 0) (kqs user_one 0) (KRet 0)"
  using kqueue_register_outcome [of boot 0 user_add True "KRet 0" _ user_one] user_one_ret
  by (auto simp: boot_init kq_inv_init reg_none_def)



text \<open>
  C15: What has been added can be found: after a change with \<open>EV_ADD\<close> and without
  \<open>EV_DELETE\<close> succeeds, the lookup of the same identifier and filter gives a knote of
  the kqueue that watches them.
\<close>

theorem register_add_found:
  assumes "kq_inv (kqs s q)" "kqueue_register kern_ops q kev waitok s = (KRet 0, kev', s')"
    and "\<not> fl (ke_flags kev) EV_DELETE" "fst (kqueue_fo_find (ke_filter kev) s) = Some fops"
    and "\<not> (ke_filter kev = EVFILT_PROC \<and> fl (ke_flags kev) (EV_FLAG1 OR EV_FLAG2))"
  shows "\<exists>k kn. kq_find fops (kqs s' q) kev = Some k \<and> kq_notes (kqs s' q) k = Some kn \<and>
    kn_id kn = ke_ident kev \<and> kn_filter kn = ke_filter kev"
proof -
  note oc = kf.register_outcome [OF assms(1,2)]
  have inv: "index_ok {} (kqs s' q)"
    using oc by (simp add: kq_inv_def)
  obtain k kn where kn: "kq_notes (kqs s' q) k = Some kn" "kn_key kn = (ke_ident kev, ke_filter kev, f_isfd fops)"
    using oc assms(3,4) by (auto simp: reg_none_def reg_changed_def reg_added_def)
  then have "kq_find fops (kqs s' q) kev \<noteq> None"
    using kq_find_None [OF inv _ _ kn(1)] assms(5) by (auto simp: kn_key_def find_skips_def)
  then show ?thesis
    using kq_find_Some [OF inv] by fastforce
qed

theorem register_add_found_witness:
  "\<exists>k kn. kq_find User_filtops (kqs user_one 0) user_add = Some k \<and> kq_notes (kqs user_one 0) k = Some kn \<and> kn_id kn = 7"
proof -
  obtain kev where "kqueue_register kern_ops 0 user_add True boot = (KRet 0, kev, user_one)"
    using user_one_ret by blast
  from register_add_found [OF _ this, of User_filtops] show ?thesis
    by (auto simp: boot_init kq_inv_init user_add_def EV_SET_def fl_def kqueue_fo_find_def boot_def kern0_def
        kern_kqueue_def filt_out_of_range_def sysfilt_ops_def)
qed

text \<open>
  C16: What has been deleted is gone: after a change with \<open>EV_DELETE\<close> and without
  \<open>EV_ADD\<close> succeeds, no knote of the kqueue watches this identifier with this filter.
\<close>

theorem register_delete_gone:
  assumes "kq_inv (kqs s q)" "uniq_ok {} (kqs s q)"
    and "kqueue_register kern_ops q kev waitok s = (KRet 0, kev', s')"
    and "fl (ke_flags kev) EV_DELETE" "\<not> fl (ke_flags kev) EV_ADD"
  shows "kn_gone (\<lambda>kn. kn_id kn = ke_ident kev \<and> kn_filter kn = ke_filter kev) (kqs s' q)"
proof -
  obtain k a where k: "kq_notes (kqs s q) k = Some a" "kn_id a = ke_ident kev" "kn_filter a = ke_filter kev"
    "kq_notes (kqs s' q) = (kq_notes (kqs s q))(k := None)"
    using kf.register_outcome [OF assms(1,3)] assms(4,5)
    by (auto simp: reg_none_def reg_changed_def reg_added_def kn_key_def)
  have "j = k" if "kq_notes (kqs s q) j = Some kn" "kn_id kn = ke_ident kev" "kn_filter kn = ke_filter kev" for j kn
    using assms(2) k(1-3) that unfolding uniq_ok_def by simp
  then show ?thesis
    using k(4) by (auto simp: kn_gone_def split: if_splits)
qed

theorem register_delete_gone_witness:
  "\<exists>kev' s'. kqueue_register kern_ops 0 user_del True user_one = (KRet 0, kev', s') \<and>
     kn_gone (\<lambda>kn. kn_id kn = 7 \<and> kn_filter kn = EVFILT_USER) (kqs s' 0)"
proof -
  obtain kn where kn: "kq_notes (kqs user_one 0) 0 = Some kn" "kn_fop kn = User_filtops" "kn_filter kn = EVFILT_USER"
     "kn_id kn = 7"
    using user_one_kn by (auto split: option.splits)
  obtain s1 where "kqueue_fo_find (ke_filter user_del) user_one = (Some User_filtops, s1)"
    using user_one_fo by (cases "kqueue_fo_find EVFILT_USER user_one") (simp add: user_del_def EV_SET_def)
  then obtain kev' s' where r: "kqueue_register kern_ops 0 user_del True user_one = (KRet 0, kev', s')"
    using register_update_run [OF user_one_inv(1) user_one_uniq kn(1), of user_del User_filtops s1 kern_ops]
    by (cases "kqueue_reg_update kern_ops (0, 0) User_filtops user_del s1")
      (simp add: kn_key_def kn(2-) user_del_def EV_SET_def fl_def)
  then show ?thesis
    using register_delete_gone [OF user_one_inv(1) user_one_uniq r] by (simp add: user_del_def EV_SET_def fl_def)
qed

section \<open>Scanning and the system call\<close>

text \<open>
  C3: A scan of a kqueue in order with the copy routines of the system call never reads past
  the queue and never runs for ever.  It leaves the kqueue in order with no marker behind;
  it sleeps only when the caller is willing to wait and the queue is empty; and when it
  succeeds, the number it returns is the number of events it has copied out, at most
  \<open>maxevents\<close>, each the event of an enabled knote that was pending, in queue order.
\<close>

theorem kqueue_scan_correct:
  assumes "kq_inv (kqs s q)" "marks (kqs s q) = []" "0 \<le> maxevents"
    and "kqueue_scan kern_ops kevent_copyops clk td q maxevents tsp u s = (r, u', s')"
  shows "kq_inv (kqs s' q) \<and> marks (kqs s' q) = [] \<and> kq_env q s s' \<and> r \<noteq> Scan_fault \<and>
    (r = Scan_sleep \<longrightarrow> tsp \<noteq> Some (0, 0) \<and> ka_eventlist u' = ka_eventlist u \<and> kq_head (kqs s' q) = []) \<and>
    (r = Scan_ret 0 \<longrightarrow> (\<exists>evs. ka_eventlist u' = ka_eventlist u @ evs \<and> k_retval s' = int (length evs) \<and>
       int (length evs) \<le> maxevents \<and>
       subseq (map kev_key evs) (queue_keys (kqs s q) (pending (kqs s q)))))"
  using kevent_copy_log assms by (rule kf.scan_ok)

theorem kqueue_scan_correct_witness:
  "\<exists>r u' s'. kqueue_scan kern_ops kevent_copyops clk0 0 0 4 (Some (0, 0)) uap0 user_one = (r, u', s') \<and>
     r \<noteq> Scan_fault \<and> r \<noteq> Scan_sleep \<and> kq_inv (kqs s' 0)"
  using kqueue_scan_correct [of user_one 0 4 clk0 0 "Some (0, 0)" uap0]
    user_one_inv by (metis prod_cases3 zero_le_numeral)



text \<open>
  C11: A call of \<open>kevent\<close> with a list of \<open>nevents\<close> entries writes no more than that many, error
  reports included, whatever the kqueue holds and the filters do, and leaves what was
  written before as it was.
\<close>

theorem sys_kevent_bound:
  assumes "0 \<le> ka_nevents uap" "sys_kevent ops clk td uap s = (r, uap', s')"
  shows "\<exists>evs. ka_eventlist uap' = ka_eventlist uap @ evs \<and> int (length evs) \<le> ka_nevents uap"
  using kern_kevent_adds [OF kevent_copy_total assms(1)] assms(2)
  by (auto simp: sys_kevent_def kern_kevent_generic_def adds_def)

theorem sys_kevent_bound_witness:
  "\<exists>r uap' s'. sys_kevent kern_ops clk0 0 uap0 boot = (r, uap', s') \<and> length (ka_eventlist uap') \<le> 4"
proof -
  obtain r uap' s' where r: "sys_kevent kern_ops clk0 0 uap0 boot = (r, uap', s')"
    by (metis prod_cases3)
  then show ?thesis
    using sys_kevent_bound [OF _ r] by (auto simp: uap0_def)
qed

text \<open>
  C12: A user event is delivered.  When a change with \<open>NOTE_TRIGGER\<close> is registered for an
  enabled user knote of a kqueue with nothing pending, the next scan that wants events
  returns without a sleep, with exactly this one event.
\<close>

theorem user_event_delivered:
  assumes "kq_inv (kqs s q)" "uniq_ok {} (kqs s q)" "kq_head (kqs s q) = []"
    and "kq_notes (kqs s q) k = Some kn" "kn_fop kn = User_filtops" "kn_filter kn = EVFILT_USER"
    and "KN_DISABLED \<notin> kn_status kn" "\<not> fl (kn_flags kn) EV_DROP"
    and "fst (kqueue_fo_find EVFILT_USER s) = Some User_filtops" "0 < n"
    and "kqueue_register kern_ops q (EV_SET (kn_id kn) EVFILT_USER 0 NOTE_TRIGGER d u) waitok s = (r, kev', s1)"
    and "kqueue_scan kern_ops kevent_copyops clk td q n (Some (0, 0)) uap s1 = (r2, uap', s2)"
  shows "r = KRet 0 \<and> r2 = Scan_ret 0 \<and> k_retval s2 = 1 \<and>
    (\<exists>e. ka_eventlist uap' = ka_eventlist uap @ [e] \<and> kev_key e = (kn_id kn, EVFILT_USER))"
proof -
  have rg: "r = KRet 0" "kq_inv (kqs s1 q)" "marks (kqs s1 q) = []" "notes_but k (kqs s q) (kqs s1 q)"
    "QNote k \<in> set (kq_head (kqs s1 q))"
    and "\<exists>kn'. kq_notes (kqs s1 q) k = Some kn' \<and> kn_fop kn' = User_filtops \<and> kn_hookid kn' = 1 \<and>
      kn_flags kn' = kn_flags kn \<and> kn_id kn' = kn_id kn \<and> kn_filter kn' = kn_filter kn \<and>
      KN_DISABLED \<notin> kn_status kn'"
    using user_trigger_run [OF assms(1,2,4-7,9), of d u waitok] assms(3,11) by (auto simp: marks_def)
  then obtain kn' where kn': "kq_notes (kqs s1 q) k = Some kn'" "kn_fop kn' = User_filtops" "kn_hookid kn' = 1"
    "kn_flags kn' = kn_flags kn" "kn_id kn' = kn_id kn" "kn_filter kn' = kn_filter kn" "KN_DISABLED \<notin> kn_status kn'"
    by blast
  have hd: "kq_head (kqs s1 q) = [QNote k]"
    using assms(1,3) rg by (intro head_single [of "kqs s q"]) (auto simp: kq_inv_def)
  have sn: "fst (kqueue_scan_note kern_ops (q, k) (kq_upd q (\<lambda>kq. kq\<lparr>kq_head := [] @ [QMark td]\<rparr>) s1)) \<noteq> None"
    using kn' assms(8) by (intro scan_note_user [where kn = kn']) simp_all
  have pg: "r2 = Scan_ret 0 \<and> 1 \<le> k_retval s2"
    by (rule scan_progress [OF kevent_copy_total rg(2,3) hd _ assms(10) _ sn assms(12)])
      (simp_all add: kn_of_def kn' kqueue_scan_deadline_def)
  have "queue_keys (kqs s1 q) (pending (kqs s1 q)) = [(kn_id kn, EVFILT_USER)]"
    using kn' assms(6) by (simp add: pending_def hd queue_keys_def kev_key_def)
  then obtain evs where evs: "ka_eventlist uap' = ka_eventlist uap @ evs" "k_retval s2 = int (length evs)"
    "subseq (map kev_key evs) [(kn_id kn, EVFILT_USER)]"
    using kf.scan_ok [OF kevent_copy_log rg(2,3) _ assms(12)] assms(10) pg by auto
  then have "length evs = 1"
    using pg list_emb_length [OF evs(3)] by auto
  then obtain e where "evs = [e]"
    by (auto simp: length_Suc_conv)
  then show ?thesis
    using evs pg rg(1) by (auto split: if_splits)
qed

theorem user_event_delivered_witness:
  "\<exists>r kev s1 r2 uap' s2 e.
     kqueue_register kern_ops 0 (EV_SET 7 EVFILT_USER 0 NOTE_TRIGGER 0 0) True user_one = (r, kev, s1) \<and>
     kqueue_scan kern_ops kevent_copyops clk0 0 0 4 (Some (0, 0)) uap0 s1 = (r2, uap', s2) \<and>
     r2 = Scan_ret 0 \<and> ka_eventlist uap' = [e] \<and> kev_key e = (7, EVFILT_USER)"
proof -
  obtain kn where kn: "kq_notes (kqs user_one 0) 0 = Some kn" "kn_fop kn = User_filtops" "kn_filter kn = EVFILT_USER"
     "KN_DISABLED \<notin> kn_status kn" "\<not> fl (kn_flags kn) EV_DROP" "kn_id kn = 7"
    using user_one_kn by (auto split: option.splits)
  obtain r kev s1 where r: "kqueue_register kern_ops 0 (EV_SET 7 EVFILT_USER 0 NOTE_TRIGGER 0 0) True user_one = (r, kev, s1)"
    by (metis prod_cases3)
  obtain r2 uap' s2 where r2: "kqueue_scan kern_ops kevent_copyops clk0 0 0 4 (Some (0, 0)) uap0 s1 = (r2, uap', s2)"
    by (metis prod_cases3)
  have "uniq_ok {} (kqs user_one 0)"
    using user_one_uniq .
  from user_event_delivered [OF user_one_inv(1) this user_one_queue kn(1-5) user_one_fo _ r [folded kn(6)] r2]
  show ?thesis
    using r r2 by (auto simp: uap0_def kn(6))
qed

section \<open>Removal\<close>

text \<open>
  C5: Closing a descriptor ends without a sleep and removes from every kqueue of the process
  the knotes that watch this descriptor, and only those.
\<close>

theorem knote_fdclose_correct:
  assumes "kern_inv s" "knote_fdclose kern_ops fd s = (r, s')"
  shows "r = Drop_done \<and> kern_inv s' \<and> (\<forall>q. fd_removed fd (kqs s q) (kqs s' q)) \<and>
    (\<forall>q \<in> set (k_kqlist s). kn_gone (\<lambda>kn. f_isfd (kn_fop kn) \<and> unat (kn_id kn) = fd) (kqs s' q))"
  using kf.fdclose_from_ok [OF assms(1) assms(2) [unfolded knote_fdclose_def]] .

theorem knote_fdclose_correct_witness:
  "\<exists>s'. knote_fdclose kern_ops 5 user_one = (Drop_done, s') \<and> kern_inv s'"
  using knote_fdclose_correct [OF user_one_inv(3), of 5] by (metis prod.exhaust)



text \<open>
  C10: The walk over the knotes of an object, which asks the filter of each and queues the
  ones that fire, keeps all kqueues in order when the object's list has no freed knote.
\<close>

theorem knote_list_correct:
  assumes "kern_inv s" "\<forall>p \<in> set (knl_get l s). live s p"
  shows "kern_inv (knote_list kern_ops l hint nokqlock s)"
  using assms by (rule kf.knote_list_ok)

theorem knote_list_correct_witness:
  "kern_inv (knote_list kern_ops (Knl_kq 0) 0 False (user_one\<lparr>kqs := (kqs user_one)(0 := (kqs user_one 0)\<lparr>kq_si_note := [(0, 0)]\<rparr>)\<rparr>))"
  using user_one_inv(3) user_one_note
  by (intro knote_list_correct) (auto simp: kern_inv_def live_def knl_get_def)

end
