(* ===== verification/Descrip_Props.thy ===== *)
theory Descrip_Props
  imports Descrip Kqueue_Props
begin

text \<open>
  Descriptors and kqueues together: in every state the system calls reach, the descriptor table,
  the kqueues and the view the kqueues have of the table are in order, and no kqueue has a knote
  for a descriptor that is not open.  A descriptor that is allocated anew therefore never brings
  up events of the file that had it before.
\<close>

section \<open>Closing\<close>

definition kern_ok :: "kworld \<Rightarrow> bool" where
  "kern_ok s \<longleftrightarrow> kern_inv s \<and> (\<forall>q. marks (kqs s q) = [])"

text \<open>As \<open>watch_ok\<close>, but for the descriptor \<open>fd\<close> that is being closed.\<close>

definition watch_but :: "nat \<Rightarrow> kworld \<Rightarrow> bool" where
  "watch_but fd s \<longleftrightarrow>
     (\<forall>q \<in> set (k_kqlist s). \<forall>k i f. kq_keys (kqs s q) k = Some (i, f, True) \<longrightarrow> unat i \<noteq> fd \<longrightarrow> k_fdt s (unat i) \<noteq> None)"

lemma watch_ok_but: "watch_ok s \<Longrightarrow> watch_but fd s"
  unfolding watch_ok_keys watch_but_def by blast

lemma still_ok: "still s s' \<Longrightarrow> kern_inv s' \<Longrightarrow> kern_ok s \<Longrightarrow> kern_ok s'"
  by (simp add: still_def kern_ok_def)

lemma fdclose_watch:
  assumes "kern_ok s" "watch_but fd s" "knote_fdclose kern_ops fd s = (r, s')"
  shows "r = Drop_done" "kern_ok s'" "watch_ok s'" "still s s'"
proof -
  have inv: "kern_inv s"
    using assms(1) by (simp add: kern_ok_def)
  note ok = kf.fdclose_from_ok [OF inv assms(3) [unfolded knote_fdclose_def]]
  show st: "still s s'"
    by (rule kf.fdclose_from_still [OF inv assms(3) [unfolded knote_fdclose_def]])
  show "r = Drop_done" "kern_ok s'"
    using ok still_ok [OF st _ assms(1)] by simp_all
  have k: "k_fdt s' = k_fdt s" "k_kqlist s' = k_kqlist s"
    using st by (simp_all add: still_def)
  show "watch_ok s'"
    unfolding watch_ok_def k
  proof (intro ballI allI impI)
    fix q k kn assume q: "q \<in> set (k_kqlist s)" and kn: "kq_notes (kqs s' q) k = Some kn" "f_isfd (kn_fop kn)"
    have "kq_keys (kqs s' q) k = Some (kn_id kn, kn_filter kn, True)"
      using kn by (simp add: kq_keys_def kn_key_def)
    then have "kq_keys (kqs s q) k = Some (kn_id kn, kn_filter kn, True)"
      using map_le_Some [where a = "kq_keys (kqs s' q)" and b = "kq_keys (kqs s q)" and k = k] st
      by (simp add: still_def keys_sub_def)
    moreover have "unat (kn_id kn) \<noteq> fd"
      using ok q kn by (auto simp: kn_gone_def)
    ultimately show "k_fdt s (unat (kn_id kn)) \<noteq> None"
      using assms(2) q unfolding watch_but_def by blast
  qed
qed

lemma kq_inv_refcnt: "kq_inv (kq\<lparr>kq_refcnt := n\<rparr>) = kq_inv kq"
  by (simp add: kq_inv_def queue_ok_def index_ok_def ready_ok_def fresh_ok_def calm_def has_st_def kn_klist_def)

lemma kqueue_acquire_ok:
  assumes "kqueue_acquire fp s = (x, s')" "kern_ok s"
  shows "kern_ok s'" "still s s'"
proof -
  consider "s' = s" | q where "s' = kq_upd q (\<lambda>kq. kq\<lparr>kq_refcnt := kq_refcnt kq + 1\<rparr>) s"
    using assms(1) by (auto simp: kqueue_acquire_def split: option.splits if_splits)
  then have "kern_ok s' \<and> still s s'"
  proof cases
    case 2
    have "still s s'"
      unfolding 2 by (rule still_upd) simp_all
    moreover have "kern_inv s'"
      using assms(2) by (auto simp: kern_ok_def kern_inv_def 2 kq_inv_refcnt kq_upd_def)
    ultimately show ?thesis
      using still_ok assms(2) by blast
  qed (use assms(2) in simp)
  then show "kern_ok s'" "still s s'"
    by simp_all
qed

lemma kqueue_close_ok:
  assumes "kqueue_close kern_ops fp s = (r, s')" "kern_ok s" "watch_ok s"
  shows "kern_ok s' \<and> watch_ok s' \<and> k_fdt s' = k_fdt s \<and> k_retval s' = k_retval s \<and> r \<noteq> Inr Drop_fuel"
proof -
  obtain x s1 where a: "kqueue_acquire fp s = (x, s1)"
    by fastforce
  note acq = kqueue_acquire_ok [OF a assms(2)]
  show ?thesis
  proof (cases x)
    case (Inl e)
    then show ?thesis
      using assms(1,3) a acq still_watch by (auto simp: kqueue_close_def still_def)
  next
    case (Inr q)
    obtain d s2 where d: "kqueue_drain kern_ops q s1 = (d, s2)"
      by fastforce
    have q1: "kq_inv (kqs s1 q)"
      using acq(1) by (simp add: kern_ok_def kern_inv_def)
    note dr = kf.drain_ok [OF q1 d] and st = still_trans [OF acq(2) kf.drain_still [OF q1 d]]
    have inv2: "kern_inv s2"
      unfolding kern_inv_def
    proof
      fix p show "kq_inv (kqs s2 p)"
        using dr acq(1) other_step_inv [of "kqs s1 p" "kqs s2 p"] by (cases "p = q") (auto simp: kern_ok_def kern_inv_def)
    qed
    have ok2: "kern_ok s2" "watch_ok s2" "k_fdt s2 = k_fdt s" "k_retval s2 = k_retval s"
      using still_ok [OF st inv2 assms(2)] still_watch [OF st assms(3)] st by (simp_all add: still_def)
    show ?thesis
    proof (cases "d = Drop_done")
      case True
      define s3 where "s3 = kq_upd q (\<lambda>_. kqueue_init) (s2\<lparr>k_kqlist := remove1 q (k_kqlist s2)\<rparr>)"
      have s': "s' = file_upd fp (\<lambda>f. f\<lparr>f_data := None\<rparr>) s3" "r = Inl 0"
        using assms(1) a Inr d True by (simp_all add: kqueue_close_def s3_def)
      have kq: "kqs s3 p = (if p = q then kqueue_init else kqs s2 p)" for p
        by (simp add: s3_def kq_upd_def)
      have "kern_ok s3"
        using ok2(1) by (simp add: kern_ok_def kern_inv_def kq kq_inv_init)
      moreover have "watch_ok s3"
        unfolding watch_ok_def
      proof (intro ballI allI impI)
        fix p k kn assume p: "p \<in> set (k_kqlist s3)" "kq_notes (kqs s3 p) k = Some kn" "f_isfd (kn_fop kn)"
        have "p \<in> set (k_kqlist s2)"
          using p(1) set_remove1_subset by (fastforce simp: s3_def)
        moreover have "p \<noteq> q"
          using p(2) by (auto simp: kq kqueue_init_def)
        ultimately show "k_fdt s3 (unat (kn_id kn)) \<noteq> None"
          using ok2(2) p(2,3) unfolding watch_ok_def by (simp add: kq) (simp add: s3_def)
      qed
      ultimately show ?thesis
        using ok2(3,4) by (simp add: s' kern_ok_def kern_inv_def watch_ok_def) (simp add: s3_def)
    next
      case False
      then have "s' = s2" "r = Inr d"
        using assms(1) a Inr d by (cases d; simp add: kqueue_close_def)+
      then show ?thesis
        using ok2 dr by simp
    qed
  qed
qed

lemma kern_ok_kqs: "kqs s' = kqs s \<Longrightarrow> kern_ok s' = kern_ok s"
  by (simp add: kern_ok_def kern_inv_def)

lemma watch_ok_kqs: "kqs s' = kqs s \<Longrightarrow> k_fdt s' = k_fdt s \<Longrightarrow> k_kqlist s' = k_kqlist s \<Longrightarrow> watch_ok s' = watch_ok s"
  by (simp add: watch_ok_def)

lemma fdrop_close_ok:
  assumes "fdrop_close oclose fp s = (r, s')" "kern_ok s" "watch_ok s"
  shows "kern_ok s' \<and> watch_ok s' \<and> k_fdt s' = k_fdt s \<and> k_retval s' = k_retval s \<and> r \<noteq> Inr Drop_fuel"
proof -
  define s1 where "s1 = fdrop fp s"
  have s1: "kqs s1 = kqs s" "k_fdt s1 = k_fdt s" "k_kqlist s1 = k_kqlist s" "k_retval s1 = k_retval s"
    by (simp_all add: s1_def fdrop_def)
  have ok1: "kern_ok s1" "watch_ok s1"
    using assms(2,3) by (simp_all add: kern_ok_kqs [OF s1(1)] watch_ok_kqs [OF s1(1-3)])
  have same: ?thesis if "kqs s' = kqs s1" "k_fdt s' = k_fdt s1" "k_kqlist s' = k_kqlist s1" "k_retval s' = k_retval s1" "r \<noteq> Inr Drop_fuel"
    using ok1 that(2,4,5) s1(2,4) by (simp add: kern_ok_kqs [OF that(1)] watch_ok_kqs [OF that(1-3)])
  show ?thesis
  proof (cases "f_count (k_files s1 fp) = 0")
    case True
    then have c: "fo_close oclose fp s1 = (r, s')"
      using assms(1) by (simp add: fdrop_close_def s1_def Let_def)
    show ?thesis
    proof (cases "f_type (k_files s1 fp) = DTYPE_KQUEUE")
      case True
      then have "kqueue_close kern_ops fp s1 = (r, s')"
        using c by (simp add: fo_close_def)
      then show ?thesis
        using kqueue_close_ok ok1 s1(2,4) by fastforce
    next
      case False
      then show ?thesis
        using c by (intro same)
          (auto simp: fo_close_def eventfd_close_def efd_upd_def w_upd_def split: dtype.splits prod.splits)
    qed
  next
    case False
    then show ?thesis
      using assms(1) by (intro same) (auto simp: fdrop_close_def s1_def Let_def)
  qed
qed

lemma closefp_ok:
  assumes "closefp_impl oclose fd fp s = (r, s')" "kern_ok s" "watch_but fd s"
  shows "kern_ok s' \<and> watch_ok s' \<and> k_fdt s' = k_fdt s \<and> k_retval s' = k_retval s \<and> r \<noteq> Inr Drop_fuel"
proof -
  obtain d s1 where d: "(if k_kqlist s \<noteq> [] then knote_fdclose kern_ops fd s else (Drop_done, s)) = (d, s1)"
    by fastforce
  have 1: "d = Drop_done \<and> kern_ok s1 \<and> watch_ok s1 \<and> k_fdt s1 = k_fdt s \<and> k_retval s1 = k_retval s"
  proof (cases "k_kqlist s = []")
    case True
    then show ?thesis
      using d assms(2) by (simp add: watch_ok_def)
  next
    case False
    then have "knote_fdclose kern_ops fd s = (d, s1)"
      using d by simp
    from fdclose_watch [OF assms(2,3) this] show ?thesis
      by (simp add: still_def)
  qed
  obtain x s2 where x: "fdrop_close oclose fp s1 = (x, s2)"
    by fastforce
  have "s' = s2" "r \<noteq> Inr Drop_fuel \<longleftrightarrow> x \<noteq> Inr Drop_fuel"
    using assms(1) 1 d x unfolding closefp_impl_def d by (cases x; auto)+
  then show ?thesis
    using fdrop_close_ok [OF x] 1 by simp
qed

section \<open>The system calls\<close>

definition proc_inv :: "proc \<Rightarrow> bool" where
  "proc_inv p \<longleftrightarrow>
     fd_inv (p_fd p) \<and> k_fdt (p_kern p) = fdt (p_fd p) \<and> kern_ok (p_kern p) \<and> watch_ok (p_kern p)"

lemma proc_set_simps [simp]:
  "p_fd (proc_set fdp s) = fdp" "kqs (p_kern (proc_set fdp s)) = kqs s" "k_fdt (p_kern (proc_set fdp s)) = fdt fdp"
  "k_kqlist (p_kern (proc_set fdp s)) = k_kqlist s" "k_retval (p_kern (proc_set fdp s)) = k_retval s"
  by (simp_all add: proc_set_def)

lemma proc_invI:
  "fd_inv fdp \<Longrightarrow> k_fdt s = fdt fdp \<Longrightarrow> kern_ok s \<Longrightarrow> watch_ok s \<Longrightarrow> proc_inv (proc_set fdp s)"
  by (simp add: proc_inv_def kern_ok_def kern_inv_def watch_ok_def)

text \<open>No kqueue of the process has a knote for the descriptor.\<close>

definition unwatched :: "nat \<Rightarrow> proc \<Rightarrow> bool" where
  "unwatched fd p \<longleftrightarrow>
     (\<forall>q \<in> set (k_kqlist (p_kern p)). kn_gone (\<lambda>kn. f_isfd (kn_fop kn) \<and> unat (kn_id kn) = fd) (kqs (p_kern p) q))"

lemma closed_unwatched: "proc_inv p \<Longrightarrow> fdt (p_fd p) fd = None \<Longrightarrow> unwatched fd p"
  unfolding unwatched_def proc_inv_def watch_ok_def kn_gone_def by metis

definition close_post :: "nat \<Rightarrow> proc \<Rightarrow> int + dropres \<Rightarrow> proc \<Rightarrow> bool" where
  "close_post fd p r p' \<longleftrightarrow>
     proc_inv p' \<and> r \<noteq> Inr Drop_fuel \<and>
     (if fdt (p_fd p) fd = None then r = Inl EBADF \<and> p' = p
      else used (p_fd p') = used (p_fd p) - {fd} \<and> fdt (p_fd p') = (fdt (p_fd p))(fd := None) \<and> unwatched fd p')"

lemma kern_close_ok:
  assumes inv: "proc_inv p"
  shows "\<exists>r p'. kern_close oclose fd p = Some (r, p') \<and> close_post fd p r p'"
proof (cases "fdt (p_fd p) fd")
  case None
  then show ?thesis
    using inv by (simp add: kern_close_def fget_locked_fdt close_post_def)
next
  case (Some fp)
  note i = inv [unfolded proc_inv_def]
  have fd: "fd < fd_nfiles (p_fd p)"
    using Some by (simp add: fdt_def split: if_splits)
  obtain fdp1 where f: "fdfree fd (p_fd p) = Some fdp1" "used fdp1 = used (p_fd p) - {fd}"
    "fdt fdp1 = (fdt (p_fd p))(fd := None)" "fd_inv fdp1"
    using fdfree_ok [OF _ fd] i by blast
  define s where "s = p_kern (proc_set fdp1 (p_kern p))"
  obtain r s1 where c: "closefp_impl oclose fd fp s = (r, s1)"
    by fastforce
  have ok: "kern_ok s"
    using i by (simp add: s_def kern_ok_def kern_inv_def)
  have but: "watch_but fd s"
    using i unfolding watch_ok_keys watch_but_def s_def proc_set_simps f(3) by (metis fun_upd_other)
  note cl = closefp_ok [OF c ok but]
  define p' where "p' = proc_set fdp1 s1"
  have inv': "proc_inv p'"
    using cl f(4) unfolding p'_def by (intro proc_invI) (simp_all add: s_def)
  moreover have "kern_close oclose fd p = Some (r, p')"
    using Some c f(1) by (simp add: kern_close_def fget_locked_fdt s_def p'_def)
  moreover have "unwatched fd p'"
    by (rule closed_unwatched [OF inv']) (simp add: p'_def f(3))
  ultimately show ?thesis
    using Some cl f(2,3) by (auto simp: close_post_def p'_def)
qed

text \<open>
  C36: Closing a descriptor.  If it is not open the call fails with EBADF and changes nothing.
  Otherwise exactly this descriptor becomes free, no kqueue of the process watches it any more,
  and descriptor table, kqueues and the view the kqueues have of the table stay in order,
  whatever the close routine of the file does to its own object.
\<close>

theorem kern_close_correct:
  assumes "proc_inv p"
  shows "\<exists>r p'. kern_close oclose fd p = Some (r, p') \<and> close_post fd p r p'"
  using assms by (rule kern_close_ok)

section \<open>Duplicating a descriptor\<close>

lemma fdisused_ok: "fd_inv fdp \<Longrightarrow> fd < fd_nfiles fdp \<Longrightarrow> fdisused fdp fd = Some (fd \<in> used fdp)"
  using NDSLOTS_bound(1) [of fd "fd_nfiles fdp"] fd_invD(2) [of fdp]
  by (simp add: fdisused_def map_get_def NDSLOT_def fl_NDBIT used_def bits_set_def)

lemma dup_target_ok:
  assumes inv: "fd_inv fdp"
  shows "\<exists>r fdp'. dup_target (- 1) maxfd mode new fdp = Some (r, fdp') \<and> fd_inv fdp' \<and> fdt fdp' = fdt fdp \<and>
    (case r of Inl e \<Rightarrow> e \<noteq> 0 \<and> used fdp' = used fdp
     | Inr nfd \<Rightarrow> nfd < fd_nfiles fdp' \<and> used fdp' = insert nfd (used fdp) \<and>
         (if mode = FDDUP_FIXED \<or> mode = FDDUP_MUSTREPLACE then nfd = new else nfd = lowest_free (used fdp) new))"
proof -
  have "\<exists>r fdp'. fdalloc (- 1) maxfd new fdp = Some (r, fdp') \<and> fd_inv fdp' \<and> fdt fdp' = fdt fdp \<and>
    (case r of Inl e \<Rightarrow> e \<noteq> 0 \<and> used fdp' = used fdp
     | Inr nfd \<Rightarrow> nfd < fd_nfiles fdp' \<and> used fdp' = insert nfd (used fdp) \<and> nfd = lowest_free (used fdp) new)"
    by (rule fdalloc_ok [OF inv, where minfd = new and maxfd = maxfd]) (auto simp: inv)
  then obtain r fdp' where a: "fdalloc (- 1) maxfd new fdp = Some (r, fdp')" "fd_inv fdp'" "fdt fdp' = fdt fdp"
    "case r of Inl e \<Rightarrow> e \<noteq> 0 \<and> used fdp' = used fdp
     | Inr nfd \<Rightarrow> nfd < fd_nfiles fdp' \<and> used fdp' = insert nfd (used fdp) \<and> nfd = lowest_free (used fdp) new"
    by blast
  show ?thesis
  proof (cases mode)
    case FDDUP_NORMAL
    then show ?thesis
      using a by (intro exI [of _ r] exI [of _ fdp']) (cases r; simp add: dup_target_def)
  next
    case FDDUP_FCNTL
    then show ?thesis
      using a by (intro exI [of _ r] exI [of _ fdp']) (cases r; simp add: dup_target_def)
  next
    case FDDUP_FIXED
    define fdp1 where "fdp1 = (if new \<ge> fd_nfiles fdp then fdgrowtable_exp (new + 1) fdp else fdp)"
    have 1: "fd_inv fdp1" "used fdp1 = used fdp" "fdt fdp1 = fdt fdp" "new < fd_nfiles fdp1"
      using fdgrowtable_exp_ok [OF inv, of "new + 1"] inv by (auto simp: fdp1_def)
    note us = fdisused_ok [OF 1(1,4)]
    show ?thesis
    proof (cases "new \<in> used fdp")
      case True
      then show ?thesis
        using 1 us by (auto simp: FDDUP_FIXED dup_target_def fdp1_def [symmetric] Let_def)
    next
      case False
      obtain fdp2 where 2: "fdused (int new) fdp1 = Some fdp2" "used fdp2 = insert new (used fdp1)"
        "fd_ofiles fdp2 = fd_ofiles fdp1" "fd_inv fdp2"
        using fdused_ok [OF 1(1,4)] by blast
      have "dup_target (- 1) maxfd mode new fdp = Some (Inr new, fdp2)"
        using False 1(2) us 2(1) by (simp add: FDDUP_FIXED dup_target_def fdp1_def [symmetric] Let_def)
      then show ?thesis
        using 1 2 fdt_cong [OF 2(3)] by (simp add: FDDUP_FIXED fd_nfiles_def)
    qed
  next
    case FDDUP_MUSTREPLACE
    show ?thesis
    proof (cases "fdt fdp new")
      case (Some fp)
      then have "new < fd_nfiles fdp" "new \<in> used fdp"
        using fdt_used [OF inv Some] by (auto simp: fdt_def split: if_splits)
      then show ?thesis
        using Some inv by (auto simp: FDDUP_MUSTREPLACE dup_target_def fget_locked_fdt)
    qed (use inv in \<open>simp add: FDDUP_MUSTREPLACE dup_target_def fget_locked_fdt\<close>)
  qed
qed

lemma dup_copy_ok:
  assumes inv: "fd_inv fdp" and fd: "nfd < fd_nfiles fdp" "nfd \<in> used fdp" and old: "fdt fdp old = Some fp"
  obtains fdp' where "dup_copy old nfd cloexec fdp = Some fdp'" "used fdp' = used fdp"
    "fdt fdp' = (fdt fdp)(nfd \<mapsto> fp)" "fd_inv fdp'"
proof -
  define e where "e = (let e = fd_ofiles fdp ! old in
       e\<lparr>fde_flags := (if cloexec then fde_flags e OR UF_EXCLOSE else fde_flags e AND NOT UF_EXCLOSE)\<rparr>)"
  have e: "fde_file e = Some fp"
    using old by (auto simp: e_def Let_def fdt_def split: if_splits)
  define fdp' where "fdp' = fdp\<lparr>fd_ofiles := (fd_ofiles fdp)[nfd := e]\<rparr>"
  have f: "fde_file (fd_ofiles fdp' ! n) = (if n = nfd then Some fp else fde_file (fd_ofiles fdp ! n))" if "n < fd_nfiles fdp" for n
    using that e by (simp add: fdp'_def fd_nfiles_def nth_list_update)
  have n: "fd_nfiles fdp' = fd_nfiles fdp" "used fdp' = used fdp"
    by (simp_all add: fdp'_def fd_nfiles_def used_def)
  have "fd_inv fdp'"
    using fd_invD [OF inv] f fd(2) by (simp add: fd_inv_def n) (simp add: fdp'_def)
  moreover have "fdt fdp' = (fdt fdp)(nfd \<mapsto> fp)"
    using f fd(1) by (auto simp: fdt_def n)
  moreover have "dup_copy old nfd cloexec fdp = Some fdp'"
    using fd(1) by (simp add: dup_copy_def fde_set_def fd_nfiles_def fdp'_def e_def)
  ultimately show thesis
    using n(2) by (intro that)
qed

lemma fde_flags_ok:
  assumes inv: "fd_inv fdp" and fd: "fd < fd_nfiles fdp"
  obtains fdp' where "fde_set fd (\<lambda>e. e\<lparr>fde_flags := g (fde_flags e)\<rparr>) fdp = Some fdp'" "used fdp' = used fdp"
    "fdt fdp' = fdt fdp" "fd_inv fdp'"
proof -
  define fdp' where "fdp' = fdp\<lparr>fd_ofiles := (fd_ofiles fdp)[fd := (fd_ofiles fdp ! fd)\<lparr>fde_flags := g (fde_flags (fd_ofiles fdp ! fd))\<rparr>]\<rparr>"
  have f: "fde_file (fd_ofiles fdp' ! n) = fde_file (fd_ofiles fdp ! n)" if "n < fd_nfiles fdp" for n
    using that by (cases "n = fd") (simp_all add: fdp'_def fd_nfiles_def)
  have n: "fd_nfiles fdp' = fd_nfiles fdp" "used fdp' = used fdp"
    by (simp_all add: fdp'_def fd_nfiles_def used_def)
  have "fd_inv fdp'"
    using fd_invD [OF inv] f by (simp add: fd_inv_def n) (simp add: fdp'_def)
  moreover have "fdt fdp' = fdt fdp"
    using f by (auto simp: fdt_def n)
  moreover have "fde_set fd (\<lambda>e. e\<lparr>fde_flags := g (fde_flags e)\<rparr>) fdp = Some fdp'"
    using fd by (simp add: fde_set_def fd_nfiles_def fdp'_def)
  ultimately show thesis
    using n(2) by (intro that)
qed

definition dup_post :: "dupmode \<Rightarrow> int \<Rightarrow> int \<Rightarrow> proc \<Rightarrow> int + dropres \<Rightarrow> proc \<Rightarrow> bool" where
  "dup_post mode old new p r p' \<longleftrightarrow>
     proc_inv p' \<and> r \<noteq> Inr Drop_fuel \<and>
     (\<forall>e. r = Inl e \<longrightarrow> e \<noteq> 0 \<longrightarrow> fdt (p_fd p') = fdt (p_fd p) \<and> used (p_fd p') = used (p_fd p)) \<and>
     (r = Inl 0 \<longrightarrow> (\<exists>nfd fp. k_retval (p_kern p') = int nfd \<and> fdt (p_fd p) (nat old) = Some fp \<and>
        fdt (p_fd p') = (fdt (p_fd p))(nfd \<mapsto> fp) \<and> used (p_fd p') = insert nfd (used (p_fd p)) \<and>
        (if mode = FDDUP_FIXED \<or> mode = FDDUP_MUSTREPLACE then nfd = nat new
         else nfd = lowest_free (used (p_fd p)) (nat new))))"

lemma kern_ok_upd: "kern_ok (s\<lparr>k_retval := v\<rparr>) = kern_ok s" "watch_ok (s\<lparr>k_retval := v\<rparr>) = watch_ok s"
  "kern_ok (file_upd i f s) = kern_ok s" "watch_ok (file_upd i f s) = watch_ok s"
  by (simp_all add: kern_ok_def kern_inv_def watch_ok_def)

text \<open>The last part of the call: the table has the copy, and the file it replaced, if any, is closed.\<close>

lemma dup_finish:
  assumes "fd_inv fdp2" "kern_ok s" "watch_ok s" "fdt fdp2 = (k_fdt s)(nfd \<mapsto> fp)"
    and "s2 = p_kern (proc_set fdp2 (s\<lparr>k_retval := int nfd\<rparr>))"
  shows "proc_inv (proc_set fdp2 s2)" "k_retval s2 = int nfd"
    and "closefp_impl oclose nfd fp' s2 = (r1, s3) \<Longrightarrow> proc_inv (proc_set fdp2 s3) \<and> k_retval s3 = int nfd \<and> r1 \<noteq> Inr Drop_fuel"
proof -
  have 2: "kqs s2 = kqs s" "k_fdt s2 = fdt fdp2" "k_kqlist s2 = k_kqlist s"
    by (simp_all add: assms(5))
  show r: "k_retval s2 = int nfd"
    by (simp add: assms(5))
  have ok: "kern_ok s2"
    using assms(2) by (simp add: kern_ok_kqs [OF 2(1)])
  have w: "watch_ok s2"
    using assms(3) unfolding watch_ok_def 2 assms(4) by (metis fun_upd_apply option.distinct(1))
  show "proc_inv (proc_set fdp2 s2)"
    using assms(1) 2(2) ok w by (rule proc_invI)
  assume "closefp_impl oclose nfd fp' s2 = (r1, s3)"
  from closefp_ok [OF this ok watch_ok_but [OF w]] show "proc_inv (proc_set fdp2 s3) \<and> k_retval s3 = int nfd \<and> r1 \<noteq> Inr Drop_fuel"
    using assms(1) 2(2) r by (auto intro: proc_invI)
qed

lemma kern_dup_refused:
  assumes "old < 0 \<or> new < 0 \<or> int maxfd \<le> new \<or> fdt (p_fd p) (nat old) = None"
  shows "\<exists>e. e \<noteq> 0 \<and> kern_dup oclose (- 1) maxfd mode cloexec old new p = Some (Inl e, p)"
  using assms by (cases "mode = FDDUP_FCNTL") (auto simp: kern_dup_def fget_locked_fdt)

lemma kern_dup_move:
  assumes inv: "proc_inv p" and go: "0 \<le> old" "0 \<le> new" "new < int maxfd" "fdt (p_fd p) (nat old) = Some oldfp"
    and look: "fget_locked (p_fd p) (nat old) = Some oldfp"
    and ne: "((mode = FDDUP_FIXED \<or> mode = FDDUP_MUSTREPLACE) \<and> old = new) = False"
  shows "\<exists>r p'. kern_dup oclose (- 1) maxfd mode cloexec old new p = Some (r, p') \<and> dup_post mode old new p r p'"
proof (cases "f_count (k_files (p_kern p) oldfp) + 1 \<ge> 2 ^ 31")
  case True
  then have "kern_dup oclose (- 1) maxfd mode cloexec old new p = Some (Inl EBADF, p)"
    unfolding kern_dup_def ne using go look by (simp add: fhold_def)
  then show ?thesis
    using inv by (auto simp: dup_post_def)
next
  case False
  note i = inv [unfolded proc_inv_def]
  define s1 where "s1 = file_upd oldfp (\<lambda>f. f\<lparr>f_count := f_count f + 1\<rparr>) (p_kern p)"
  have hold: "fhold oldfp (p_kern p) = (True, s1)"
    using False by (simp add: fhold_def s1_def)
  have s1: "kern_ok s1" "watch_ok s1" "k_fdt s1 = fdt (p_fd p)"
    using i by (simp_all add: s1_def kern_ok_upd)
  obtain r fdp1 where t: "dup_target (- 1) maxfd mode (nat new) (p_fd p) = Some (r, fdp1)" "fd_inv fdp1" "fdt fdp1 = fdt (p_fd p)"
    "case r of Inl e \<Rightarrow> e \<noteq> 0 \<and> used fdp1 = used (p_fd p)
     | Inr nfd \<Rightarrow> nfd < fd_nfiles fdp1 \<and> used fdp1 = insert nfd (used (p_fd p)) \<and>
         (if mode = FDDUP_FIXED \<or> mode = FDDUP_MUSTREPLACE then nfd = nat new else nfd = lowest_free (used (p_fd p)) (nat new))"
    using dup_target_ok [of "p_fd p" maxfd mode "nat new"] i by blast
  show ?thesis
  proof (cases r)
    case (Inl e)
    have "kern_dup oclose (- 1) maxfd mode cloexec old new p = Some (Inl e, proc_set fdp1 (fdrop oldfp s1))"
      unfolding kern_dup_def ne using go look hold t(1) Inl by simp
    moreover have "proc_inv (proc_set fdp1 (fdrop oldfp s1))"
      using s1 t(2,3) by (intro proc_invI) (simp_all add: fdrop_def kern_ok_upd)
    ultimately show ?thesis
      using t(3,4) Inl by (auto simp: dup_post_def)
  next
    case (Inr nfd)
    then have nfd: "nfd < fd_nfiles fdp1" "nfd \<in> used fdp1" "used fdp1 = insert nfd (used (p_fd p))"
      using t(4) by auto
    obtain fdp2 where c: "dup_copy (nat old) nfd cloexec fdp1 = Some fdp2" "used fdp2 = used fdp1"
      "fdt fdp2 = (fdt fdp1)(nfd \<mapsto> oldfp)" "fd_inv fdp2"
      using dup_copy_ok [OF t(2) nfd(1,2)] go(4) t(3) by metis
    define s2 where "s2 = p_kern (proc_set fdp2 (s1\<lparr>k_retval := int nfd\<rparr>))"
    note fin = dup_finish [OF c(4) s1(1,2) c(3) [unfolded t(3) s1(3) [symmetric]] s2_def]
    have post: "dup_post mode old new p x (proc_set fdp2 s3)"
      if "proc_inv (proc_set fdp2 s3)" "k_retval s3 = int nfd" "x = Inl 0 \<or> x = Inr Drop_done \<or> x = Inr Drop_sleep" for x s3
      unfolding dup_post_def
      using that go(4) t(3,4) c(2,3) nfd(3) Inr by (auto intro!: exI [of _ nfd])
    show ?thesis
    proof (cases "fdt fdp1 nfd")
      case None
      then have "kern_dup oclose (- 1) maxfd mode cloexec old new p = Some (Inl 0, proc_set fdp2 s2)"
        unfolding kern_dup_def ne using go look hold t(1) Inr c(1) by (simp add: fget_locked_fdt s2_def)
      then show ?thesis
        using post [of s2 "Inl 0"] fin(1,2) by blast
    next
      case (Some fp')
      obtain r1 s3 where cl: "closefp_impl oclose nfd fp' s2 = (r1, s3)"
        by fastforce
      have "kern_dup oclose (- 1) maxfd mode cloexec old new p =
          Some (case r1 of Inl _ \<Rightarrow> Inl 0 | _ \<Rightarrow> r1, proc_set fdp2 s3)"
        unfolding kern_dup_def ne using go look hold t(1) Inr c(1) Some cl by (simp add: fget_locked_fdt s2_def)
      moreover have "(case r1 of Inl _ \<Rightarrow> Inl 0 | _ \<Rightarrow> r1) \<in> {Inl 0, Inr Drop_done, Inr Drop_sleep}"
        using fin(3) [OF cl] by (cases r1) (auto intro: dropres.exhaust)
      ultimately show ?thesis
        using post [of s3] fin(3) [OF cl] by blast
    qed
  qed
qed

lemma kern_dup_ok:
  assumes inv: "proc_inv p"
  shows "\<exists>r p'. kern_dup oclose (- 1) maxfd mode cloexec old new p = Some (r, p') \<and> dup_post mode old new p r p'"
proof -
  note i = inv [unfolded proc_inv_def]
  have fail: "dup_post mode old new p (Inl e) p" if "e \<noteq> 0" for e
    using inv that by (simp add: dup_post_def)
  consider (bad) e where "e \<noteq> 0" "kern_dup oclose (- 1) maxfd mode cloexec old new p = Some (Inl e, p)"
    | (go) oldfp where "0 \<le> old" "0 \<le> new" "new < int maxfd" "fdt (p_fd p) (nat old) = Some oldfp"
    using kern_dup_refused [where old = old and new = new and maxfd = maxfd and p = p and oclose = oclose and mode = mode and cloexec = cloexec] by (metis not_le option.exhaust)
  then show ?thesis
  proof cases
    case bad
    then show ?thesis
      using fail by blast
  next
    case go
    have look: "fget_locked (p_fd p) (nat old) = Some oldfp"
      using go(4) by (simp add: fget_locked_fdt)
    have old: "nat old < fd_nfiles (p_fd p)" "nat old \<in> used (p_fd p)"
      using go(4) fdt_used [OF _ go(4)] i by (auto simp: fdt_def split: if_splits)
    show ?thesis
    proof (cases "(mode = FDDUP_FIXED \<or> mode = FDDUP_MUSTREPLACE) \<and> old = new")
      case True
      obtain fdp0 where f0: "fde_set (nat new) (\<lambda>e. e\<lparr>fde_flags := fde_flags e OR UF_EXCLOSE\<rparr>) (p_fd p) = Some fdp0"
        "used fdp0 = used (p_fd p)" "fdt fdp0 = fdt (p_fd p)" "fd_inv fdp0"
        by (rule fde_flags_ok [where fdp = "p_fd p" and fd = "nat new" and g = "\<lambda>x. x OR UF_EXCLOSE"])
          (use i old(1) True in auto)
      define fdp1 where "fdp1 = (if cloexec then fdp0 else p_fd p)"
      have f: "(if cloexec then fde_set (nat new) (\<lambda>e. e\<lparr>fde_flags := fde_flags e OR UF_EXCLOSE\<rparr>) (p_fd p)
          else Some (p_fd p)) = Some fdp1" "used fdp1 = used (p_fd p)" "fdt fdp1 = fdt (p_fd p)" "fd_inv fdp1"
        using f0 i by (simp_all add: fdp1_def)
      have run: "kern_dup oclose (- 1) maxfd mode cloexec old new p = Some (Inl 0, proc_set fdp1 ((p_kern p)\<lparr>k_retval := new\<rparr>))"
        using go True look f(1) by (simp add: kern_dup_def)
      have "proc_inv (proc_set fdp1 ((p_kern p)\<lparr>k_retval := new\<rparr>))"
        using i f(3,4) by (intro proc_invI) (simp_all add: kern_ok_upd)
      then have "dup_post mode old new p (Inl 0) (proc_set fdp1 ((p_kern p)\<lparr>k_retval := new\<rparr>))"
        using go True f(2,3) old(2) unfolding dup_post_def
        by (intro conjI impI exI [of _ "nat new"] exI [of _ oldfp]) (auto simp: fun_upd_idem insert_absorb)
      then show ?thesis
        using run by blast
    next
      case False
      show ?thesis
        using False by (intro kern_dup_move [OF inv go look]) simp
    qed
  qed
qed


section \<open>Creating files\<close>

lemma finstall_ok:
  assumes "fd_inv fdp"
  shows "\<exists>r fdp'. finstall_refed (- 1) maxfd fp cl fdp = Some (r, fdp') \<and> fd_inv fdp' \<and>
    (case r of Inl e \<Rightarrow> fdt fdp' = fdt fdp | Inr fd \<Rightarrow> fdt fdp' = (fdt fdp)(fd \<mapsto> fp))"
proof -
  obtain r fdp' where "finstall_refed (- 1) maxfd fp cl fdp = Some (r, fdp')"
    "fd_spec maxfd (Fd_install fp cl) (fd_abs fdp) = (r, fd_abs fdp')" "fd_inv fdp'"
    using fd_step_refines [OF assms, of maxfd "Fd_install fp cl"] by auto
  then show ?thesis
    by (auto simp: fd_abs_def alloc_spec_def Let_def split: if_splits)
qed

lemma kern_kqueue_ok:
  assumes "kern_kqueue True (Inr (fd, fp)) q s = (e, s')" "kern_ok s" "watch_ok s"
  shows "kern_ok s'" "watch_ok s'" "k_fdt s' = (k_fdt s)(fd \<mapsto> fp)"
proof -
  have s': "kqs s' = (kqs s)(q := kqueue_init)" "k_kqlist s' = q # k_kqlist s" "k_fdt s' = (k_fdt s)(fd \<mapsto> fp)"
    using assms(1) by (auto simp: kern_kqueue_def)
  show "k_fdt s' = (k_fdt s)(fd \<mapsto> fp)" "kern_ok s'"
    using assms(2) s' by (simp_all add: kern_ok_def kern_inv_def kq_inv_init)
  show "watch_ok s'"
    unfolding watch_ok_def s'
  proof (intro ballI allI impI)
    fix p k kn assume p: "p \<in> set (q # k_kqlist s)" "kq_notes (((kqs s)(q := kqueue_init)) p) k = Some kn" "f_isfd (kn_fop kn)"
    then have "p \<noteq> q" "p \<in> set (k_kqlist s)" "kq_notes (kqs s p) k = Some kn"
      by (auto simp: kqueue_init_def split: if_splits)
    then show "((k_fdt s)(fd \<mapsto> fp)) (unat (kn_id kn)) \<noteq> None"
      using assms(3) p(3) unfolding watch_ok_def by (metis fun_upd_apply option.distinct(1))
  qed
qed

lemma fdalloc_fresh:
  assumes "fd_inv fdp" "fdalloc (- 1) limit minfd fdp = Some (Inr fd, fdp')"
  shows "fd \<notin> used fdp"
  by (rule fdalloc_ok [OF assms(1), where minfd = minfd and maxfd = limit])
    (use assms(2) lowest_free_props(2) [OF finite_used [OF assms(1)]] in auto)

lemma proc_kqueue_ok:
  assumes "proc_inv p" "proc_kqueue (- 1) maxfd limok fp q p = Some (e, p')"
  shows "proc_inv p'"
proof -
  note i = assms(1) [unfolded proc_inv_def]
  obtain r fdp' where f: "finstall_refed (- 1) maxfd fp False (p_fd p) = Some (r, fdp')" "fd_inv fdp'"
    "case r of Inl e \<Rightarrow> fdt fdp' = fdt (p_fd p) | Inr fd \<Rightarrow> fdt fdp' = (fdt (p_fd p))(fd \<mapsto> fp)"
    using finstall_ok i by metis
  show ?thesis
  proof (cases r)
    case (Inl err)
    then show ?thesis
      using assms f i by (auto simp: proc_kqueue_def kern_kqueue_def intro: proc_invI split: if_splits)
  next
    case (Inr fd)
    obtain e1 s1 where k: "kern_kqueue True (Inr (fd, fp)) q (p_kern p) = (e1, s1)"
      by fastforce
    have "proc_inv (proc_set fdp' s1)"
      using kern_kqueue_ok [OF k] i f(2,3) Inr by (intro proc_invI) simp_all
    then show ?thesis
      using assms f(1) Inr k by (auto simp: proc_kqueue_def split: if_splits)
  qed
qed

lemma proc_eventfd_ok:
  assumes "proc_inv p" "proc_eventfd (- 1) maxfd fp e initval flags p = Some (err, p')"
  shows "proc_inv p'"
proof -
  note i = assms(1) [unfolded proc_inv_def]
  obtain r fdp' where f: "finstall_refed (- 1) maxfd fp (fl flags EFD_CLOEXEC) (p_fd p) = Some (r, fdp')" "fd_inv fdp'"
    "case r of Inl e \<Rightarrow> fdt fdp' = fdt (p_fd p) | Inr fd \<Rightarrow> fdt fdp' = (fdt (p_fd p))(fd \<mapsto> fp)"
    using finstall_ok i by metis
  obtain e1 s1 where k: "kern_specialfd (Inr fp) r e SPECIALFD_EVENTFD initval flags (falloc_noinstall fp (p_kern p)) = (e1, s1)"
    by fastforce
  have s1: "kqs s1 = kqs (p_kern p)" "k_kqlist s1 = k_kqlist (p_kern p)" "k_fdt s1 = fdt fdp'"
    using k f(3) i by (cases r; auto simp: kern_specialfd_def eventfd_create_file_def eventfd_close_def efd_upd_def w_upd_def
        falloc_noinstall_def knl_upd_def Let_def)+
  have "watch_ok s1"
    using i f(3) unfolding watch_ok_def s1 by (cases r) auto
  then have "proc_inv (proc_set fdp' s1)"
    using i f(2) s1 by (intro proc_invI) (simp_all add: kern_ok_def kern_inv_def)
  then show ?thesis
    using assms(2) f(1) k by (auto simp: proc_eventfd_def)
qed

section \<open>Reachable states\<close>

text \<open>
  The steps of a process: it makes a kqueue or an eventfd, closes or duplicates a descriptor,
  registers a change on one of its kqueues, or collects events.
\<close>

inductive proc_step :: "(nat \<Rightarrow> world \<Rightarrow> int \<times> world) \<Rightarrow> nat \<Rightarrow> proc \<Rightarrow> proc \<Rightarrow> bool" for oclose maxfd where
  kqueue: "proc_kqueue (- 1) maxfd limok fp q p = Some (e, p') \<Longrightarrow> proc_step oclose maxfd p p'"
| eventfd: "proc_eventfd (- 1) maxfd fp e initval flags p = Some (err, p') \<Longrightarrow> proc_step oclose maxfd p p'"
| close: "kern_close oclose fd p = Some (r, p') \<Longrightarrow> proc_step oclose maxfd p p'"
| dup: "kern_dup oclose (- 1) maxfd mode cloexec old new p = Some (r, p') \<Longrightarrow> proc_step oclose maxfd p p'"
| register: "q \<in> set (k_kqlist (p_kern p)) \<Longrightarrow> kqueue_register kern_ops q kev waitok (p_kern p) = (x, kev', s') \<Longrightarrow>
    proc_step oclose maxfd p (p\<lparr>p_kern := s'\<rparr>)"
| scan: "q \<in> set (k_kqlist (p_kern p)) \<Longrightarrow> 0 \<le> maxevents \<Longrightarrow>
    kqueue_scan kern_ops kevent_copyops clk td q maxevents tsp u (p_kern p) = (x, u', s') \<Longrightarrow>
    proc_step oclose maxfd p (p\<lparr>p_kern := s'\<rparr>)"

lemma proc_inv_kern:
  assumes "proc_inv p" "kq_inv (kqs s' q)" "kq_env q (p_kern p) s'" "marks (kqs s' q) = []" "watch_ok s'"
  shows "proc_inv (p\<lparr>p_kern := s'\<rparr>)"
proof -
  have "kern_inv s'"
    using kern_invI [OF assms(2,3)] assms(1) by (simp add: proc_inv_def kern_ok_def)
  moreover have "marks (kqs s' p') = []" for p'
    using assms by (cases "p' = q") (auto simp: kq_env_def proc_inv_def kern_ok_def other_step_def)
  ultimately show ?thesis
    using assms by (simp add: proc_inv_def kern_ok_def kq_env_def)
qed

lemma proc_step_inv: "proc_step oclose maxfd p p' \<Longrightarrow> proc_inv p \<Longrightarrow> proc_inv p'"
proof (induction rule: proc_step.induct)
  case (close fd p r p')
  then show ?case
    using kern_close_ok [of p oclose fd] by (auto simp: close_post_def)
next
  case (dup mode cloexec old new p r p')
  then show ?case
    using kern_dup_ok [of p oclose maxfd mode cloexec old new] by (auto simp: dup_post_def)
next
  case (register q p kev waitok x kev' s')
  then have q: "kq_inv (kqs (p_kern p) q)" "marks (kqs (p_kern p) q) = []" "watch_ok (p_kern p)"
    by (simp_all add: proc_inv_def kern_ok_def kern_inv_def)
  have "kq_inv (kqs s' q)" "kq_keep q (p_kern p) s'" "watch_ok s'"
    using kf.register_outcome [OF q(1) register(2)] kf.watch_register [OF q(1,3) register(2)] by simp_all
  then show ?case
    using kq_keep_env [of q "p_kern p" s'] q(2) by (intro proc_inv_kern [OF register(3), where q = q]) auto
next
  case (scan q p maxevents clk td tsp u x u' s')
  then have q: "kq_inv (kqs (p_kern p) q)" "marks (kqs (p_kern p) q) = []" "watch_ok (p_kern p)"
    by (simp_all add: proc_inv_def kern_ok_def kern_inv_def)
  show ?case
    using kf.scan_ok [OF kevent_copy_log q(1,2) scan(2,3)] kf.watch_scan [OF kevent_copy_log q(1,2) scan(2) q(3) scan(3)]
    by (intro proc_inv_kern [OF scan(4), where q = q]) simp_all
qed (auto intro: proc_kqueue_ok proc_eventfd_ok)

definition proc0 :: proc where
  "proc0 = \<lparr>p_fd = fdinit, p_kern = kern0\<rparr>"

lemma proc0_inv: "proc_inv proc0"
  by (simp add: proc_inv_def proc0_def fdinit_inv kern0_def kern_ok_def kern_inv_def watch_ok_def kq_inv_init)

lemma proc_reach_inv: "(proc_step oclose maxfd)\<^sup>*\<^sup>* proc0 p \<Longrightarrow> proc_inv p"
  by (induction rule: rtranclp_induct) (auto intro: proc0_inv proc_step_inv)

text \<open>
  C8: In every state that a process reaches by making, duplicating, closing and watching
  descriptors in any order, the descriptor table and the kqueues are in order, and a descriptor
  that the table hands out next is watched by no kqueue, so no event of a file that was closed
  is reported for the file that gets its descriptor.
\<close>

theorem fresh_descriptor_unwatched:
  assumes "(proc_step oclose maxfd)\<^sup>*\<^sup>* proc0 p"
    and "fdalloc (- 1) limit minfd (p_fd p) = Some (Inr fd, fdp')"
  shows "proc_inv p \<and> unwatched fd p"
proof -
  note inv = proc_reach_inv [OF assms(1)]
  then have "fd_inv (p_fd p)"
    by (simp add: proc_inv_def)
  then have "fd \<notin> used (p_fd p)"
    using assms(2) by (rule fdalloc_fresh)
  then have "fdt (p_fd p) fd = None"
    using fdt_used [OF \<open>fd_inv (p_fd p)\<close>] by (cases "fdt (p_fd p) fd") auto
  then show ?thesis
    using inv closed_unwatched by blast
qed

text \<open>A process that has made one kqueue; it got descriptor 0.\<close>

lemma lowest_free_empty: "lowest_free {} 0 = 0"
  by (rule lowest_freeI) auto

lemma proc_one:
  obtains p where "proc_kqueue (- 1) 100 True 0 0 proc0 = Some (0, p)" "proc_inv p" "fdt (p_fd p) = [0 \<mapsto> 0]" "used (p_fd p) = {0}"
proof -
  obtain r fdp where f: "finstall_refed (- 1) 100 0 False fdinit = Some (r, fdp)"
    "fd_spec 100 (Fd_install 0 False) (fd_abs fdinit) = (r, fd_abs fdp)"
    using fd_step_refines [OF fdinit_inv(1), of 100 "Fd_install 0 False"] by auto
  have r: "r = Inr 0" "fdt fdp = [0 \<mapsto> 0]" "used fdp = {0}"
    using f(2) by (auto simp: fd_abs_def fdinit_inv alloc_spec_def lowest_free_empty)
  define s1 where "s1 = snd (kern_kqueue True (Inr (0, 0)) 0 kern0)"
  have "proc_kqueue (- 1) 100 True 0 0 proc0 = Some (0, proc_set fdp s1)"
    using f(1) r(1) by (simp add: proc_kqueue_def proc0_def s1_def kern_kqueue_def)
  then show thesis
    using that proc_kqueue_ok [OF proc0_inv] r(2,3) by simp
qed

theorem kern_close_correct_witness:
  "\<exists>p r p'. proc_kqueue (- 1) 100 True 0 0 proc0 = Some (0, p) \<and> fdt (p_fd p) 0 = Some 0 \<and>
     kern_close (\<lambda>_ w. (0, w)) 0 p = Some (r, p') \<and> close_post 0 p r p'"
proof -
  obtain p where p: "proc_kqueue (- 1) 100 True 0 0 proc0 = Some (0, p)" "proc_inv p" "fdt (p_fd p) = [0 \<mapsto> 0]"
    by (rule proc_one)
  then show ?thesis
    using kern_close_correct [OF p(2), of "\<lambda>_ w. (0, w)" 0] by auto
qed


theorem fresh_descriptor_unwatched_witness:
  "\<exists>p fdp'. (proc_step (\<lambda>_ w. (0, w)) 100)\<^sup>*\<^sup>* proc0 p \<and> fdalloc (- 1) 100 0 (p_fd p) = Some (Inr 1, fdp') \<and> unwatched 1 p"
proof -
  obtain p where p: "proc_kqueue (- 1) 100 True 0 0 proc0 = Some (0, p)" "proc_inv p" "used (p_fd p) = {0}"
    by (rule proc_one)
  have reach: "(proc_step (\<lambda>_ w. (0, w)) 100)\<^sup>*\<^sup>* proc0 p"
    using p(1) by (intro r_into_rtranclp proc_step.kqueue)
  have "lowest_free {0} 0 = 1"
    by (rule lowest_freeI) auto
  then obtain fdp' where a: "fdalloc (- 1) 100 0 (p_fd p) = Some (Inr 1, fdp')"
    using fdalloc_refines [of "p_fd p" 100 0] p(2,3) by (auto simp: proc_inv_def alloc_spec_def fd_abs_def)
  show ?thesis
    using reach a fresh_descriptor_unwatched [OF reach a] by blast
qed

end
