(* ===== verification/Epoll.thy ===== *)
theory Epoll
  imports Filters
begin

text \<open>
  The epoll interface of \<^verbatim>\<open>epoll/vos_epoll.c\<close>, which is built on the
  kqueue wrappers of \<^verbatim>\<open>compat/syscall_wrapper.c\<close>.
\<close>

abbreviation SO_EPOLLIN :: u32 where "SO_EPOLLIN \<equiv> 0x001"
abbreviation SO_EPOLLOUT :: u32 where "SO_EPOLLOUT \<equiv> 0x004"
abbreviation SO_EPOLLERR :: u32 where "SO_EPOLLERR \<equiv> 0x008"
abbreviation SO_EPOLLHUP :: u32 where "SO_EPOLLHUP \<equiv> 0x010"
abbreviation SO_EPOLLONESHOT :: u32 where "SO_EPOLLONESHOT \<equiv> 0x40000000"
abbreviation SO_EPOLLET :: u32 where "SO_EPOLLET \<equiv> 0x80000000"

abbreviation SO_EPOLL_CTL_ADD :: int where "SO_EPOLL_CTL_ADD \<equiv> 1"
abbreviation SO_EPOLL_CTL_DEL :: int where "SO_EPOLL_CTL_DEL \<equiv> 2"
abbreviation SO_EPOLL_CTL_MOD :: int where "SO_EPOLL_CTL_MOD \<equiv> 3"

section \<open>The kqueue wrappers\<close>

text \<open>
  How a wrapper ends: with a value, with -1 and the error number given to
  \<^verbatim>\<open>ff_os_errno\<close>, or not before an event (\<open>FF_sleep\<close>).
\<close>

datatype ffret = FF_ret int | FF_errno int | FF_sleep | FF_fault

definition ff_kqueue :: "bool \<Rightarrow> int + (nat \<times> nat) \<Rightarrow> nat \<Rightarrow> 'w kern \<Rightarrow> ffret \<times> 'w kern" where
  "ff_kqueue limok newfd q s =
     (case kern_kqueue limok newfd q s of
        (rc, s1) \<Rightarrow> if rc \<noteq> 0 then (FF_errno rc, s1) else (FF_ret (k_retval s1), s1))"

text \<open>
  The argument of the copy routines.  \<open>ska_eventlist\<close> is the caller's array,
  \<open>ska_next\<close> the index the pointer \<^verbatim>\<open>eventlist\<close> has reached and
  \<open>ska_do_each\<close> what is stored for an event in place of the old element; without a
  callback this is the event itself.  \<open>ska_sent\<close> is the history of the events stored.
  The fields no routine reads are left out.
\<close>

record 'e sys_kevent_args =
  ska_changelist :: "kevent list"
  ska_eventlist :: "nat \<Rightarrow> 'e"
  ska_next :: nat
  ska_do_each :: "kevent \<Rightarrow> 'e \<Rightarrow> 'e"
  ska_sent :: "kevent list"

definition ska_put :: "kevent \<Rightarrow> 'e sys_kevent_args \<Rightarrow> 'e sys_kevent_args" where
  "ska_put ke uap =
     uap\<lparr>ska_eventlist := (ska_eventlist uap)(ska_next uap := ska_do_each uap ke (ska_eventlist uap (ska_next uap))),
         ska_next := ska_next uap + 1, ska_sent := ska_sent uap @ [ke]\<rparr>"

definition ff_kevent_copyout :: "kevent list \<Rightarrow> 'e sys_kevent_args \<Rightarrow> int \<times> 'e sys_kevent_args" where
  "ff_kevent_copyout kevs uap = (0, fold ska_put kevs uap)"

definition ff_kevent_copyin :: "nat \<Rightarrow> 'e sys_kevent_args \<Rightarrow> int \<times> kevent list \<times> 'e sys_kevent_args" where
  "ff_kevent_copyin count uap =
     (0, take count (ska_changelist uap), uap\<lparr>ska_changelist := drop count (ska_changelist uap)\<rparr>)"

definition ff_kevent_do_each ::
    "'w fops \<Rightarrow> sbclock \<Rightarrow> nat \<Rightarrow> int \<Rightarrow> kevent list \<Rightarrow> int \<Rightarrow> (nat \<Rightarrow> 'e) \<Rightarrow> int \<Rightarrow> (int \<times> int) option \<Rightarrow>
     (kevent \<Rightarrow> 'e \<Rightarrow> 'e) \<Rightarrow> 'w kern \<Rightarrow> ffret \<times> (nat \<Rightarrow> 'e) \<times> 'w kern" where
  "ff_kevent_do_each ops clk td kq changelist nchanges eventlist nevents timeout do_each s =
     (let ska = \<lparr>ska_changelist = changelist, ska_eventlist = eventlist, ska_next = 0,
                 ska_do_each = do_each, ska_sent = []\<rparr>
      in case kern_kevent ops \<lparr>k_copyout = ff_kevent_copyout, k_copyin = ff_kevent_copyin\<rparr> clk td
                kq nchanges nevents timeout ska s of
           (Scan_ret rc, ska1, s1) \<Rightarrow>
             (if rc \<noteq> 0 then FF_errno rc else FF_ret (k_retval s1), ska_eventlist ska1, s1)
         | (Scan_sleep, ska1, s1) \<Rightarrow> (FF_sleep, ska_eventlist ska1, s1)
         | (Scan_fault, ska1, s1) \<Rightarrow> (FF_fault, ska_eventlist ska1, s1))"

definition ff_kevent ::
    "'w fops \<Rightarrow> sbclock \<Rightarrow> nat \<Rightarrow> int \<Rightarrow> kevent list \<Rightarrow> int \<Rightarrow> (nat \<Rightarrow> kevent) \<Rightarrow> int \<Rightarrow> (int \<times> int) option \<Rightarrow>
     'w kern \<Rightarrow> ffret \<times> (nat \<Rightarrow> kevent) \<times> 'w kern" where
  "ff_kevent ops clk td kq changelist nchanges eventlist nevents timeout s =
     ff_kevent_do_each ops clk td kq changelist nchanges eventlist nevents timeout (\<lambda>ke _. ke) s"

section \<open>Epoll\<close>

text \<open>
  \<open>ep_data\<close> are the eight bytes of the union \<^verbatim>\<open>vos_epoll_data\<close>; its
  member \<^verbatim>\<open>fd\<close> is the low half.
\<close>

record vos_epoll_event =
  ep_events :: u32
  ep_data :: u64

definition set_data_fd :: "u64 \<Rightarrow> u64 \<Rightarrow> u64" where
  "set_data_fd ident d = (d AND NOT 0xffffffff) OR (ident AND 0xffffffff)"

definition vos_epoll_create :: "bool \<Rightarrow> int + (nat \<times> nat) \<Rightarrow> nat \<Rightarrow> 'w kern \<Rightarrow> ffret \<times> 'w kern" where
  "vos_epoll_create = ff_kqueue"

text \<open>The two changes of a call; \<open>event\<close> is not read for a deletion.\<close>

definition epoll_changes :: "int \<Rightarrow> int \<Rightarrow> vos_epoll_event option \<Rightarrow> kevent list" where
  "epoll_changes op fd event =
     (case event of
        None \<Rightarrow> [EV_SET (word_of_int fd) EVFILT_READ EV_DELETE 0 0 0,
                 EV_SET (word_of_int fd) EVFILT_WRITE EV_DELETE 0 0 0]
      | Some ev \<Rightarrow>
          if op = SO_EPOLL_CTL_DEL
          then [EV_SET (word_of_int fd) EVFILT_READ EV_DELETE 0 0 0,
                EV_SET (word_of_int fd) EVFILT_WRITE EV_DELETE 0 0 0]
          else
            let flags = (if fl (ep_events ev) SO_EPOLLET then EV_CLEAR else 0) OR
                        (if fl (ep_events ev) SO_EPOLLONESHOT then EV_ONESHOT else 0) OR
                        (if op = SO_EPOLL_CTL_ADD then EV_ADD else 0);
                read_flags = (if fl (ep_events ev) SO_EPOLLIN
                              then ((flags OR EV_DISABLE) AND NOT EV_DISABLE) OR EV_ENABLE
                              else flags OR EV_DISABLE);
                write_flags = (if fl (ep_events ev) SO_EPOLLOUT
                               then ((flags OR EV_DISABLE) AND NOT EV_DISABLE) OR EV_ENABLE
                               else flags OR EV_DISABLE)
            in [EV_SET (word_of_int fd) EVFILT_READ read_flags 0 0 (ep_data ev),
                EV_SET (word_of_int fd) EVFILT_WRITE write_flags 0 0 (ep_data ev)])"

definition vos_epoll_ctl ::
    "'w fops \<Rightarrow> sbclock \<Rightarrow> nat \<Rightarrow> int \<Rightarrow> int \<Rightarrow> int \<Rightarrow> vos_epoll_event option \<Rightarrow> 'w kern \<Rightarrow> ffret \<times> 'w kern" where
  "vos_epoll_ctl ops clk td epfd op fd event s =
     (if (event = None \<and> op \<noteq> SO_EPOLL_CTL_DEL) \<or>
         (op \<noteq> SO_EPOLL_CTL_ADD \<and> op \<noteq> SO_EPOLL_CTL_MOD \<and> op \<noteq> SO_EPOLL_CTL_DEL)
      then (FF_ret (-1), s)
      else case ff_kevent ops clk td epfd (epoll_changes op fd event) 2 (\<lambda>_. EV_SET 0 0 0 0 0 0) 0 None s of
             (r, _, s1) \<Rightarrow> (r, s1))"

definition vos_event_to_epoll :: "kevent \<Rightarrow> vos_epoll_event \<Rightarrow> vos_epoll_event" where
  "vos_event_to_epoll kev ev =
     (let e1 = (if ke_filter kev = EVFILT_READ
                then if ke_data kev \<noteq> 0 \<or> \<not> fl (ke_flags kev) EV_EOF then SO_EPOLLIN else 0
                else if ke_filter kev = EVFILT_WRITE then SO_EPOLLOUT else 0);
          e2 = (if fl (ke_flags kev) EV_ERROR then e1 OR SO_EPOLLERR else e1);
          e3 = (if fl (ke_flags kev) EV_EOF then
                  let h1 = e2 OR SO_EPOLLHUP;
                      h2 = (if ke_fflags kev \<noteq> 0 then h1 OR SO_EPOLLERR else h1)
                  in if ke_filter kev = EVFILT_READ then h2 OR SO_EPOLLIN
                     else if ke_filter kev = EVFILT_WRITE then h2 OR SO_EPOLLERR else h2
                else e2)
      in ev\<lparr>ep_events := e3,
            ep_data := if ke_udata kev \<noteq> 0 then ke_udata kev
                       else set_data_fd (ke_ident kev) (ep_data ev)\<rparr>)"

definition vos_epoll_wait ::
    "'w fops \<Rightarrow> sbclock \<Rightarrow> nat \<Rightarrow> int \<Rightarrow> (nat \<Rightarrow> vos_epoll_event) option \<Rightarrow> int \<Rightarrow> int \<Rightarrow> 'w kern \<Rightarrow>
     ffret \<times> (nat \<Rightarrow> vos_epoll_event) option \<times> 'w kern" where
  "vos_epoll_wait ops clk td epfd events maxevents timeout s =
     (case events of
        None \<Rightarrow> (FF_ret (-1), None, s)
      | Some evs \<Rightarrow>
          if maxevents < 1 then (FF_ret (-1), events, s)
          else
            let ts = (if timeout = -1 then None
                      else Some (cdiv timeout 1000, cmod timeout 1000 * 1000 * 1000))
            in case ff_kevent_do_each ops clk td epfd [] 0 evs maxevents ts vos_event_to_epoll s of
                 (r, evs1, s1) \<Rightarrow> (r, Some evs1, s1))"

end
