(* ===== verification/Wrapper.thy ===== *)
theory Wrapper
  imports Epoll Uio
begin

text \<open>
  The translation of \<^verbatim>\<open>compat/syscall_wrapper.c\<close> between the Linux interface
  the applications are compiled for and the FreeBSD kernel: request numbers of
  \<^verbatim>\<open>ioctl\<close>, names of socket options, socket addresses, and the wrappers
  \<^verbatim>\<open>ff_*\<close> of the socket calls that apply it.  The kernel entry points the
  wrappers call are arguments of the definitions.
\<close>

section \<open>Tables\<close>

text \<open>A \<^verbatim>\<open>switch\<close> whose cases return constants.\<close>

definition switch :: "('a \<times> 'b) list \<Rightarrow> 'b \<Rightarrow> 'a \<Rightarrow> 'b" where
  "switch cs dflt x = (case map_of cs x of Some y \<Rightarrow> y | None \<Rightarrow> dflt)"

text \<open>
  The encoding of \<^verbatim>\<open>sys/ioccom.h\<close>: direction in the top three bits, parameter
  length, command group, command.
\<close>

abbreviation IOCPARM_MASK :: u64 where "IOCPARM_MASK \<equiv> 0x1fff"
abbreviation IOC_VOID :: u64 where "IOC_VOID \<equiv> 0x20000000"
abbreviation IOC_OUT :: u64 where "IOC_OUT \<equiv> 0x40000000"
abbreviation IOC_IN :: u64 where "IOC_IN \<equiv> 0x80000000"
abbreviation IOC_DIRMASK :: u64 where "IOC_DIRMASK \<equiv> 0xe0000000"

definition IOC :: "u64 \<Rightarrow> u64 \<Rightarrow> u64 \<Rightarrow> u64 \<Rightarrow> u64" where
  "IOC inout grp num len = inout OR push_bit 16 (len AND IOCPARM_MASK) OR push_bit 8 grp OR num"

definition IOCPARM_LEN :: "u64 \<Rightarrow> u64" where
  "IOCPARM_LEN x = drop_bit 16 x AND IOCPARM_MASK"

definition IOCGROUP :: "u64 \<Rightarrow> u64" where
  "IOCGROUP x = drop_bit 8 x AND 0xff"

abbreviation IO :: "u64 \<Rightarrow> u64 \<Rightarrow> u64" where "IO g n \<equiv> IOC IOC_VOID g n 0"
abbreviation IOR :: "u64 \<Rightarrow> u64 \<Rightarrow> u64 \<Rightarrow> u64" where "IOR g n t \<equiv> IOC IOC_OUT g n t"
abbreviation IOW :: "u64 \<Rightarrow> u64 \<Rightarrow> u64 \<Rightarrow> u64" where "IOW g n t \<equiv> IOC IOC_IN g n t"
abbreviation IOWR :: "u64 \<Rightarrow> u64 \<Rightarrow> u64 \<Rightarrow> u64" where "IOWR g n t \<equiv> IOC (IOC_IN OR IOC_OUT) g n t"

text \<open>
  The cases of \<^verbatim>\<open>linux2freebsd_ioctl\<close>: the Linux request and the FreeBSD one,
  whose name is in the comment.  The third argument of the macros is the size of the parameter:
  1 for \<^verbatim>\<open>char\<close>, 4 for \<^verbatim>\<open>int\<close>, 8 for
  \<^verbatim>\<open>struct winsize\<close>, 16 for \<^verbatim>\<open>struct ifconf\<close> and 32 for
  \<^verbatim>\<open>struct ifreq\<close>.
\<close>

definition ioctl_cases :: "(u64 \<times> u64) list" where
  "ioctl_cases =
     [(0x540c, IO 0x74 13),      \<comment> \<open>TIOCEXCL\<close>
      (0x540d, IO 0x74 14),      \<comment> \<open>TIOCNXCL\<close>
      (0x540e, IO 0x74 97),      \<comment> \<open>TIOCSCTTY\<close>
      (0x540f, IOR 0x74 119 4),  \<comment> \<open>TIOCGPGRP\<close>
      (0x5410, IOW 0x74 118 4),  \<comment> \<open>TIOCSPGRP\<close>
      (0x5411, IOR 0x74 115 4),  \<comment> \<open>TIOCOUTQ\<close>
      (0x5412, IOW 0x74 114 1),  \<comment> \<open>TIOCSTI\<close>
      (0x5413, IOR 0x74 104 8),  \<comment> \<open>TIOCGWINSZ\<close>
      (0x5414, IOW 0x74 103 8),  \<comment> \<open>TIOCSWINSZ\<close>
      (0x5415, IOR 0x74 106 4),  \<comment> \<open>TIOCMGET\<close>
      (0x5416, IOW 0x74 108 4),  \<comment> \<open>TIOCMBIS\<close>
      (0x5417, IOW 0x74 107 4),  \<comment> \<open>TIOCMBIC\<close>
      (0x5418, IOW 0x74 109 4),  \<comment> \<open>TIOCMSET\<close>
      (0x541b, IOR 0x66 127 4),  \<comment> \<open>FIONREAD\<close>
      (0x541d, IOW 0x74 98 4),   \<comment> \<open>TIOCCONS\<close>
      (0x5420, IOW 0x74 112 4),  \<comment> \<open>TIOCPKT\<close>
      (0x5421, IOW 0x66 126 4),  \<comment> \<open>FIONBIO\<close>
      (0x5422, IO 0x74 113),     \<comment> \<open>TIOCNOTTY\<close>
      (0x5423, IOW 0x74 27 4),   \<comment> \<open>TIOCSETD\<close>
      (0x5424, IOR 0x74 26 4),   \<comment> \<open>TIOCGETD\<close>
      (0x5427, IO 0x74 123),     \<comment> \<open>TIOCSBRK\<close>
      (0x5428, IO 0x74 122),     \<comment> \<open>TIOCCBRK\<close>
      (0x5429, IOR 0x74 99 4),   \<comment> \<open>TIOCGSID\<close>
      (0x5450, IO 0x66 2),       \<comment> \<open>FIONCLEX\<close>
      (0x5451, IO 0x66 1),       \<comment> \<open>FIOCLEX\<close>
      (0x5452, IOW 0x66 125 4),  \<comment> \<open>FIOASYNC\<close>
      (0x0, 0),                  \<comment> \<open>TIOCPKT_DATA\<close>
      (0x1, 1),                  \<comment> \<open>TIOCPKT_FLUSHREAD\<close>
      (0x2, 2),                  \<comment> \<open>TIOCPKT_FLUSHWRITE\<close>
      (0x4, 4),                  \<comment> \<open>TIOCPKT_STOP\<close>
      (0x8, 8),                  \<comment> \<open>TIOCPKT_START\<close>
      (0x10, 16),                \<comment> \<open>TIOCPKT_NOSTOP\<close>
      (0x20, 32),                \<comment> \<open>TIOCPKT_DOSTOP\<close>
      (0x40, 64),                \<comment> \<open>TIOCPKT_IOCTL\<close>
      (0x8912, IOWR 0x69 36 16), \<comment> \<open>SIOCGIFCONF\<close>
      (0x8913, IOWR 0x69 17 32), \<comment> \<open>SIOCGIFFLAGS\<close>
      (0x8914, IOW 0x69 16 32),  \<comment> \<open>SIOCSIFFLAGS\<close>
      (0x8915, IOWR 0x69 33 32), \<comment> \<open>SIOCGIFADDR\<close>
      (0x8916, IOW 0x69 12 32),  \<comment> \<open>SIOCSIFADDR\<close>
      (0x8917, IOWR 0x69 34 32), \<comment> \<open>SIOCGIFDSTADDR\<close>
      (0x8918, IOW 0x69 14 32),  \<comment> \<open>SIOCSIFDSTADDR\<close>
      (0x8919, IOWR 0x69 35 32), \<comment> \<open>SIOCGIFBRDADDR\<close>
      (0x891a, IOW 0x69 19 32),  \<comment> \<open>SIOCSIFBRDADDR\<close>
      (0x891b, IOWR 0x69 37 32), \<comment> \<open>SIOCGIFNETMASK\<close>
      (0x891c, IOW 0x69 22 32),  \<comment> \<open>SIOCSIFNETMASK\<close>
      (0x891d, IOWR 0x69 23 32), \<comment> \<open>SIOCGIFMETRIC\<close>
      (0x891e, IOW 0x69 24 32),  \<comment> \<open>SIOCSIFMETRIC\<close>
      (0x8921, IOWR 0x69 51 32), \<comment> \<open>SIOCGIFMTU\<close>
      (0x8922, IOW 0x69 52 32),  \<comment> \<open>SIOCSIFMTU\<close>
      (0x8923, IOW 0x69 40 32),  \<comment> \<open>SIOCSIFNAME\<close>
      (0x8931, IOW 0x69 49 32),  \<comment> \<open>SIOCADDMULTI\<close>
      (0x8932, IOW 0x69 50 32),  \<comment> \<open>SIOCDELMULTI\<close>
      (0x8933, IOWR 0x69 32 32), \<comment> \<open>SIOCGIFINDEX\<close>
      (0x8936, IOW 0x69 25 32)\<comment> \<open>SIOCDIFADDR\<close>]"

definition linux2freebsd_ioctl :: "u64 \<Rightarrow> int" where
  "linux2freebsd_ioctl request = sint (switch ioctl_cases (-1) request)"

definition so_opt_cases :: "(int \<times> int) list" where
  "so_opt_cases =
     [(1, 1),      \<comment> \<open>SO_DEBUG\<close>
      (2, 4),      \<comment> \<open>SO_REUSEADDR\<close>
      (4, 4103),   \<comment> \<open>SO_ERROR\<close>
      (5, 16),     \<comment> \<open>SO_DONTROUTE\<close>
      (6, 32),     \<comment> \<open>SO_BROADCAST\<close>
      (7, 4097),   \<comment> \<open>SO_SNDBUF\<close>
      (8, 4098),   \<comment> \<open>SO_RCVBUF\<close>
      (9, 8),      \<comment> \<open>SO_KEEPALIVE\<close>
      (10, 256),   \<comment> \<open>SO_OOBINLINE\<close>
      (13, 128),   \<comment> \<open>SO_LINGER\<close>
      (15, 512),   \<comment> \<open>SO_REUSEPORT\<close>
      (18, 4100),  \<comment> \<open>SO_RCVLOWAT\<close>
      (19, 4099),  \<comment> \<open>SO_SNDLOWAT\<close>
      (20, 4102),  \<comment> \<open>SO_RCVTIMEO\<close>
      (21, 4101),  \<comment> \<open>SO_SNDTIMEO\<close>
      (30, 2),     \<comment> \<open>SO_ACCEPTCONN\<close>
      (38, 4118)\<comment> \<open>SO_PROTOCOL\<close>]"

definition so_opt_convert :: "int \<Rightarrow> int" where
  "so_opt_convert optname = switch so_opt_cases (-1) optname"

definition ip_opt_cases :: "(int \<times> int) list" where
  "ip_opt_cases =
     [(1, 3),    \<comment> \<open>IP_TOS\<close>
      (2, 4),    \<comment> \<open>IP_TTL\<close>
      (3, 2),    \<comment> \<open>IP_HDRINCL\<close>
      (4, 1),    \<comment> \<open>IP_OPTIONS\<close>
      (32, 9),   \<comment> \<open>IP_MULTICAST_IF\<close>
      (33, 10),  \<comment> \<open>IP_MULTICAST_TTL\<close>
      (34, 11),  \<comment> \<open>IP_MULTICAST_LOOP\<close>
      (35, 12),  \<comment> \<open>IP_ADD_MEMBERSHIP\<close>
      (36, 13)\<comment> \<open>IP_DROP_MEMBERSHIP\<close>]"

definition ip_opt_convert :: "int \<Rightarrow> int" where
  "ip_opt_convert optname = switch ip_opt_cases optname optname"

definition ip6_opt_cases :: "(int \<times> int) list" where
  "ip6_opt_cases =
     [(26, 27),  \<comment> \<open>IPV6_V6ONLY\<close>
      (49, 36)\<comment> \<open>IPV6_RECVPKTINFO\<close>]"

definition ip6_opt_convert :: "int \<Rightarrow> int" where
  "ip6_opt_convert optname = switch ip6_opt_cases optname optname"

definition tcp_opt_cases :: "(int \<times> int) list" where
  "tcp_opt_cases =
     [(1, 1),    \<comment> \<open>TCP_NODELAY\<close>
      (2, 2),    \<comment> \<open>TCP_MAXSEG\<close>
      (4, 256),  \<comment> \<open>TCP_KEEPIDLE\<close>
      (5, 512),  \<comment> \<open>TCP_KEEPINTVL\<close>
      (6, 1024), \<comment> \<open>TCP_KEEPCNT\<close>
      (11, 32),  \<comment> \<open>TCP_INFO\<close>
      (14, 16)\<comment> \<open>TCP_MD5SIG\<close>]"

definition tcp_opt_convert :: "int \<Rightarrow> int" where
  "tcp_opt_convert optname = switch tcp_opt_cases (-1) optname"

definition sctp_opt_cases :: "(int \<times> int) list" where
  "sctp_opt_cases =
     [(0, 1),    \<comment> \<open>SCTP_RTOINFO\<close>
      (1, 2),    \<comment> \<open>SCTP_ASSOCINFO\<close>
      (2, 3),    \<comment> \<open>SCTP_INITMSG\<close>
      (3, 4),    \<comment> \<open>SCTP_NODELAY\<close>
      (4, 5),    \<comment> \<open>SCTP_AUTOCLOSE\<close>
      (5, 6),    \<comment> \<open>SCTP_SET_PEER_PRIMARY_ADDR\<close>
      (6, 7),    \<comment> \<open>SCTP_PRIMARY_ADDR\<close>
      (7, 8),    \<comment> \<open>SCTP_ADAPTATION_LAYER\<close>
      (8, 9),    \<comment> \<open>SCTP_DISABLE_FRAGMENTS\<close>
      (9, 10),   \<comment> \<open>SCTP_PEER_ADDR_PARAMS\<close>
      (10, 11),  \<comment> \<open>SCTP_DEFAULT_SEND_PARAM\<close>
      (11, 12),  \<comment> \<open>SCTP_EVENTS\<close>
      (12, 13),  \<comment> \<open>SCTP_I_WANT_MAPPED_V4_ADDR\<close>
      (13, 14),  \<comment> \<open>SCTP_MAXSEG\<close>
      (14, 256), \<comment> \<open>SCTP_STATUS\<close>
      (15, 257), \<comment> \<open>SCTP_GET_PEER_ADDR_INFO\<close>
      (17, 26),  \<comment> \<open>SCTP_CONTEXT\<close>
      (16, 15),  \<comment> \<open>SCTP_DELAYED_SACK\<close>
      (18, 16),  \<comment> \<open>SCTP_FRAGMENT_INTERLEAVE\<close>
      (19, 17),  \<comment> \<open>SCTP_PARTIAL_DELIVERY_POINT\<close>
      (20, 25),  \<comment> \<open>SCTP_MAX_BURST\<close>
      (21, 18),  \<comment> \<open>SCTP_AUTH_CHUNK\<close>
      (22, 20),  \<comment> \<open>SCTP_HMAC_IDENT\<close>
      (23, 19),  \<comment> \<open>SCTP_AUTH_KEY\<close>
      (24, 21),  \<comment> \<open>SCTP_AUTH_ACTIVE_KEY\<close>
      (25, 22),  \<comment> \<open>SCTP_AUTH_DELETE_KEY\<close>
      (26, 258), \<comment> \<open>SCTP_PEER_AUTH_CHUNKS\<close>
      (27, 259), \<comment> \<open>SCTP_LOCAL_AUTH_CHUNKS\<close>
      (28, 260), \<comment> \<open>SCTP_GET_ASSOC_NUMBER\<close>
      (29, 261), \<comment> \<open>SCTP_GET_ASSOC_ID_LIST\<close>
      (30, 24),  \<comment> \<open>SCTP_AUTO_ASCONF\<close>
      (31, 35),  \<comment> \<open>SCTP_PEER_ADDR_THLDS\<close>
      (32, 31),  \<comment> \<open>SCTP_RECVRCVINFO\<close>
      (33, 32),  \<comment> \<open>SCTP_RECVNXTINFO\<close>
      (34, 33),  \<comment> \<open>SCTP_DEFAULT_SNDINFO\<close>
      (35, 29),  \<comment> \<open>SCTP_AUTH_DEACTIVATE_KEY\<close>
      (36, 28)\<comment> \<open>SCTP_REUSE_PORT\<close>]"

definition sctp_opt_convert :: "int \<Rightarrow> int" where
  "sctp_opt_convert optname = switch sctp_opt_cases (-1) optname"

abbreviation LINUX_SOL_SOCKET :: int where "LINUX_SOL_SOCKET \<equiv> 1"
abbreviation SOL_SOCKET :: int where "SOL_SOCKET \<equiv> 0xffff"
abbreviation IPPROTO_IP :: int where "IPPROTO_IP \<equiv> 0"
abbreviation IPPROTO_TCP :: int where "IPPROTO_TCP \<equiv> 6"
abbreviation IPPROTO_IPV6 :: int where "IPPROTO_IPV6 \<equiv> 41"
abbreviation IPPROTO_SCTP :: int where "IPPROTO_SCTP \<equiv> 132"

definition linux2freebsd_opt :: "int \<Rightarrow> int \<Rightarrow> int" where
  "linux2freebsd_opt level optname =
     (if level = SOL_SOCKET then so_opt_convert optname
      else if level = IPPROTO_IP then ip_opt_convert optname
      else if level = IPPROTO_IPV6 then ip6_opt_convert optname
      else if level = IPPROTO_TCP then tcp_opt_convert optname
      else if level = IPPROTO_SCTP then sctp_opt_convert optname
      else -1)"

section \<open>Socket addresses\<close>

text \<open>
  Both structures lie in memory, the null pointer is the address 0.  The Linux structure begins
  with a family of two bytes, the FreeBSD structure with a length and a family of one byte each;
  the rest starts at the third byte in both.
\<close>

abbreviation LINUX_AF_INET6 :: int where "LINUX_AF_INET6 \<equiv> 10"
abbreviation AF_INET6 :: int where "AF_INET6 \<equiv> 28"

definition ld16 :: "memory \<Rightarrow> nat \<Rightarrow> u16" where
  "ld16 mem a = ucast (mem a) OR push_bit 8 (ucast (mem (a + 1)))"

definition st16 :: "nat \<Rightarrow> u16 \<Rightarrow> memory \<Rightarrow> memory" where
  "st16 a w mem = mem(a := ucast w, a + 1 := ucast (drop_bit 8 w))"

text \<open>The ranges may overlap.\<close>

definition bcopy :: "nat \<Rightarrow> nat \<Rightarrow> nat \<Rightarrow> memory \<Rightarrow> memory" where
  "bcopy from to len mem = copyout (copyin mem from len) to mem"

definition linux2freebsd_sockaddr :: "nat \<Rightarrow> u32 \<Rightarrow> nat \<Rightarrow> memory \<Rightarrow> memory" where
  "linux2freebsd_sockaddr linux addrlen freebsd mem =
     (if linux = 0 then mem
      else
        let family = sint (ld16 mem linux);
            m1 = mem(freebsd + 1 := word_of_int (if family = LINUX_AF_INET6 then AF_INET6 else family));
            m2 = m1(freebsd := ucast addrlen)
        in bcopy (linux + 2) (freebsd + 2) (unat (ucast addrlen - 2 :: u64)) m2)"

definition freebsd2linux_sockaddr :: "nat \<Rightarrow> nat \<Rightarrow> memory \<Rightarrow> memory" where
  "freebsd2linux_sockaddr linux freebsd mem =
     (if linux = 0 then mem
      else
        let family = uint (mem (freebsd + 1));
            m1 = st16 linux (word_of_int (if family = AF_INET6 then LINUX_AF_INET6 else family)) mem
        in bcopy (freebsd + 2) (linux + 2) (unat (ucast (m1 freebsd) - 2 :: u64)) m1)"

section \<open>The wrappers\<close>

text \<open>
  What a call can see and change: \<^verbatim>\<open>td_retval[0]\<close> of the current thread, the
  memory and the rest of the kernel.  A kernel entry point takes this state to its error number
  and the state after it.
\<close>

record 's thread =
  td_retval :: int
  td_mem :: memory
  td_kern :: 's

type_synonym 's entry = "'s thread \<Rightarrow> int \<times> 's thread"

text \<open>A register value assigned to an \<^verbatim>\<open>int\<close>.\<close>

definition c_int :: "int \<Rightarrow> int" where
  "c_int x = sint (word_of_int x :: u32)"

text \<open>The common ends of the wrappers: -1 with the error number, 0, or the return value.\<close>

definition kern_done :: "int \<times> 's thread \<Rightarrow> ffret \<times> 's thread" where
  "kern_done r = (case r of (rc, t) \<Rightarrow> if rc \<noteq> 0 then (FF_errno rc, t) else (FF_ret 0, t))"

definition kern_value :: "int \<times> 's thread \<Rightarrow> ffret \<times> 's thread" where
  "kern_value r = (case r of (rc, t) \<Rightarrow> if rc \<noteq> 0 then (FF_errno rc, t) else (FF_ret (c_int (td_retval t)), t))"

definition mem_upd :: "(memory \<Rightarrow> memory) \<Rightarrow> 's thread \<Rightarrow> 's thread" where
  "mem_upd f t = t\<lparr>td_mem := f (td_mem t)\<rparr>"

definition ff_socket :: "(int \<Rightarrow> int \<Rightarrow> int \<Rightarrow> 's entry) \<Rightarrow> int \<Rightarrow> int \<Rightarrow> int \<Rightarrow> 's thread \<Rightarrow> ffret \<times> 's thread" where
  "ff_socket sys_socket domain type protocol t =
     kern_value (sys_socket (if domain = LINUX_AF_INET6 then AF_INET6 else domain) type protocol t)"

text \<open>\<open>optval\<close> and \<open>optlen\<close> are handed on as they are.\<close>

definition ff_getsockopt ::
    "(int \<Rightarrow> int \<Rightarrow> int \<Rightarrow> nat \<Rightarrow> nat \<Rightarrow> 's entry) \<Rightarrow> int \<Rightarrow> int \<Rightarrow> int \<Rightarrow> nat \<Rightarrow> nat \<Rightarrow> 's thread \<Rightarrow> ffret \<times> 's thread" where
  "ff_getsockopt kern_getsockopt s level optname optval optlen t =
     (let level1 = (if level = LINUX_SOL_SOCKET then SOL_SOCKET else level);
          optname1 = linux2freebsd_opt level1 optname
      in if optname1 < 0 then (FF_errno EINVAL, t)
         else kern_done (kern_getsockopt s level1 optname1 optval optlen t))"

definition ff_getsockopt_freebsd ::
    "(int \<Rightarrow> int \<Rightarrow> int \<Rightarrow> nat \<Rightarrow> nat \<Rightarrow> 's entry) \<Rightarrow> int \<Rightarrow> int \<Rightarrow> int \<Rightarrow> nat \<Rightarrow> nat \<Rightarrow> 's thread \<Rightarrow> ffret \<times> 's thread" where
  "ff_getsockopt_freebsd kern_getsockopt s level optname optval optlen t =
     kern_done (kern_getsockopt s level optname optval optlen t)"

definition ff_setsockopt ::
    "(int \<Rightarrow> int \<Rightarrow> int \<Rightarrow> nat \<Rightarrow> u32 \<Rightarrow> 's entry) \<Rightarrow> int \<Rightarrow> int \<Rightarrow> int \<Rightarrow> nat \<Rightarrow> u32 \<Rightarrow> 's thread \<Rightarrow> ffret \<times> 's thread" where
  "ff_setsockopt kern_setsockopt s level optname optval optlen t =
     (let level1 = (if level = LINUX_SOL_SOCKET then SOL_SOCKET else level);
          optname1 = linux2freebsd_opt level1 optname
      in if optname1 < 0 then (FF_errno EINVAL, t)
         else kern_done (kern_setsockopt s level1 optname1 optval optlen t))"

definition ff_setsockopt_freebsd ::
    "(int \<Rightarrow> int \<Rightarrow> int \<Rightarrow> nat \<Rightarrow> u32 \<Rightarrow> 's entry) \<Rightarrow> int \<Rightarrow> int \<Rightarrow> int \<Rightarrow> nat \<Rightarrow> u32 \<Rightarrow> 's thread \<Rightarrow> ffret \<times> 's thread" where
  "ff_setsockopt_freebsd kern_setsockopt s level optname optval optlen t =
     kern_done (kern_setsockopt s level optname optval optlen t)"

definition ff_ioctl ::
    "(int \<Rightarrow> u64 \<Rightarrow> nat \<Rightarrow> 's entry) \<Rightarrow> int \<Rightarrow> u64 \<Rightarrow> nat \<Rightarrow> 's thread \<Rightarrow> ffret \<times> 's thread" where
  "ff_ioctl kern_ioctl fd request argp t =
     (let req = linux2freebsd_ioctl request in
      if req < 0 then (FF_errno EINVAL, t) else kern_done (kern_ioctl fd (word_of_int req) argp t))"

definition ff_ioctl_freebsd ::
    "(int \<Rightarrow> u64 \<Rightarrow> nat \<Rightarrow> 's entry) \<Rightarrow> int \<Rightarrow> u64 \<Rightarrow> nat \<Rightarrow> 's thread \<Rightarrow> ffret \<times> 's thread" where
  "ff_ioctl_freebsd kern_ioctl fd request argp t = kern_done (kern_ioctl fd request argp t)"

text \<open>
  \<open>bsdaddr\<close> is the address of the local \<^verbatim>\<open>struct sockaddr_storage\<close>; what
  the frame held before is the content of an uninitialised variable.
\<close>

definition ff_bind :: "(int \<Rightarrow> nat \<Rightarrow> 's entry) \<Rightarrow> nat \<Rightarrow> int \<Rightarrow> nat \<Rightarrow> u32 \<Rightarrow> 's thread \<Rightarrow> ffret \<times> 's thread" where
  "ff_bind kern_bindat bsdaddr s addr addrlen t =
     kern_done (kern_bindat s bsdaddr (mem_upd (linux2freebsd_sockaddr addr addrlen bsdaddr) t))"

definition ff_connect :: "(int \<Rightarrow> nat \<Rightarrow> 's entry) \<Rightarrow> nat \<Rightarrow> int \<Rightarrow> nat \<Rightarrow> u32 \<Rightarrow> 's thread \<Rightarrow> ffret \<times> 's thread" where
  "ff_connect kern_connectat bsdaddr s name namelen t =
     kern_done (kern_connectat s bsdaddr (mem_upd (linux2freebsd_sockaddr name namelen bsdaddr) t))"

text \<open>The fields of the message header that the wrappers set.\<close>

record msghdr =
  msg_name :: nat
  msg_namelen :: u32
  msg_iov :: "iovec list"
  msg_control :: nat

definition ff_sendto ::
    "(int \<Rightarrow> msghdr \<Rightarrow> int \<Rightarrow> 's entry) \<Rightarrow> nat \<Rightarrow> int \<Rightarrow> nat \<Rightarrow> nat \<Rightarrow> int \<Rightarrow> nat \<Rightarrow> u32 \<Rightarrow> 's thread \<Rightarrow>
     ffret \<times> 's thread" where
  "ff_sendto sendit bsdaddr s buf len flags to tolen t =
     (let (pf, t1) = (if to \<noteq> 0 then (bsdaddr, mem_upd (linux2freebsd_sockaddr to tolen bsdaddr) t) else (0, t))
      in kern_value (sendit s \<lparr>msg_name = pf, msg_namelen = tolen,
           msg_iov = [\<lparr>iov_base = buf, iov_len = len\<rparr>], msg_control = 0\<rparr> flags t1))"

definition ff_send ::
    "(int \<Rightarrow> msghdr \<Rightarrow> int \<Rightarrow> 's entry) \<Rightarrow> nat \<Rightarrow> int \<Rightarrow> nat \<Rightarrow> nat \<Rightarrow> int \<Rightarrow> 's thread \<Rightarrow> ffret \<times> 's thread" where
  "ff_send sendit bsdaddr s buf len flags t = ff_sendto sendit bsdaddr s buf len flags 0 0 t"

text \<open>A 32-bit object in memory.\<close>

definition ld32 :: "memory \<Rightarrow> nat \<Rightarrow> u32" where
  "ld32 mem a = ucast (ld16 mem a) OR push_bit 16 (ucast (ld16 mem (a + 2)))"

definition st32 :: "nat \<Rightarrow> u32 \<Rightarrow> memory \<Rightarrow> memory" where
  "st32 a w mem = st16 (a + 2) (ucast (drop_bit 16 w)) (st16 a (ucast w) mem)"

text \<open>\<open>kern_recvit\<close> also returns the length of the address it has stored.\<close>

definition ff_recvfrom ::
    "(int \<Rightarrow> msghdr \<Rightarrow> int \<Rightarrow> 's thread \<Rightarrow> int \<times> u32 \<times> 's thread) \<Rightarrow> nat \<Rightarrow> int \<Rightarrow> nat \<Rightarrow> nat \<Rightarrow> int \<Rightarrow> nat \<Rightarrow> nat \<Rightarrow>
     's thread \<Rightarrow> ffret \<times> 's thread" where
  "ff_recvfrom kern_recvit bsdaddr s buf len flags from fromlen t =
     (case kern_recvit s \<lparr>msg_name = bsdaddr,
             msg_namelen = (if fromlen \<noteq> 0 then ld32 (td_mem t) fromlen else 0),
             msg_iov = [\<lparr>iov_base = buf, iov_len = len\<rparr>], msg_control = 0\<rparr> flags t of
        (rc, namelen, t1) \<Rightarrow>
          if rc \<noteq> 0 then (FF_errno rc, t1)
          else
            let t2 = (if fromlen \<noteq> 0 then mem_upd (st32 fromlen namelen) t1 else t1)
            in (FF_ret (c_int (td_retval t1)), mem_upd (freebsd2linux_sockaddr from bsdaddr) t2))"

text \<open>
  The kernel allocates the peer's address at \<open>pf\<close>, which stays null when it has none, and
  the file \<open>fp\<close>.  The length is read through \<open>pf\<close> without a test.
\<close>

definition ff_accept ::
    "(int \<Rightarrow> 's thread \<Rightarrow> int \<times> nat \<times> nat \<times> 's thread) \<Rightarrow> (nat \<Rightarrow> 's thread \<Rightarrow> 's thread) \<Rightarrow> (nat \<Rightarrow> 's thread \<Rightarrow> 's thread) \<Rightarrow>
     int \<Rightarrow> nat \<Rightarrow> nat \<Rightarrow> 's thread \<Rightarrow> ffret \<times> 's thread" where
  "ff_accept kern_accept fdrop_fp free s addr addrlen t =
     (case kern_accept s t of
        (rc, pf, fp, t1) \<Rightarrow>
          if rc \<noteq> 0 then (FF_errno rc, if pf \<noteq> 0 then free pf t1 else t1)
          else
            let t2 = fdrop_fp fp t1;
                t3 = (if addr \<noteq> 0 \<and> pf \<noteq> 0 then mem_upd (freebsd2linux_sockaddr addr pf) t2 else t2)
            in if addrlen \<noteq> 0 \<and> pf = 0 then (FF_fault, t3)
               else
                 let t4 = (if addrlen \<noteq> 0 then mem_upd (\<lambda>m. st32 addrlen (ucast (m pf)) m) t3 else t3)
                 in (FF_ret (c_int (td_retval t1)), if pf \<noteq> 0 then free pf t4 else t4))"

text \<open>The body \<^verbatim>\<open>ff_getpeername\<close> and \<^verbatim>\<open>ff_getsockname\<close> share.\<close>

definition ff_getname ::
    "(int \<Rightarrow> nat \<Rightarrow> 's thread \<Rightarrow> int \<times> nat \<times> 's thread) \<Rightarrow> (nat \<Rightarrow> 's thread \<Rightarrow> 's thread) \<Rightarrow>
     int \<Rightarrow> nat \<Rightarrow> nat \<Rightarrow> 's thread \<Rightarrow> ffret \<times> 's thread" where
  "ff_getname kern_getname free s name namelen t =
     (case kern_getname s namelen t of
        (rc, pf, t1) \<Rightarrow>
          if rc \<noteq> 0 then (FF_errno rc, if pf \<noteq> 0 then free pf t1 else t1)
          else
            let t2 = (if name \<noteq> 0 \<and> pf \<noteq> 0 then mem_upd (freebsd2linux_sockaddr name pf) t1 else t1)
            in (FF_ret 0, if pf \<noteq> 0 then free pf t2 else t2))"

end
