(* ===== verification/Wrapper_Props.thy ===== *)
theory Wrapper_Props
  imports Wrapper
begin

text \<open>
  What the translation promises: request and option numbers that reach the kernel are well formed
  and not mixed up, and an address survives the way into the kernel and back.
\<close>

section \<open>Switches\<close>

lemma switch_cases: "switch cs d x = d \<or> (x, switch cs d x) \<in> set cs"
  by (auto simp: switch_def dest: map_of_SomeD split: option.split)

lemma switch_inj:
  assumes "distinct (map snd cs)" "switch cs d x = switch cs d y" "switch cs d x \<noteq> d"
  shows "x = y"
proof -
  have "(x, switch cs d x) \<in> set cs" "(y, switch cs d x) \<in> set cs"
    using switch_cases [of cs d x] switch_cases [of cs d y] assms(2,3) by auto
  then show ?thesis
    using assms(1) by (metis eq_key_imp_eq_value distinct_map inj_onD prod.inject snd_conv)
qed

section \<open>Requests\<close>

text \<open>
  A FreeBSD request: 32 bits, a direction, a parameter exactly when the direction is not void, no
  longer than an interface request, and a group of terminals, files or interfaces.
\<close>

definition ioc_ok :: "u64 \<Rightarrow> bool" where
  "ioc_ok com \<longleftrightarrow> com < 2 ^ 32 \<and> fl com IOC_DIRMASK \<and>
     (com AND IOC_DIRMASK = IOC_VOID \<longleftrightarrow> IOCPARM_LEN com = 0) \<and> IOCPARM_LEN com \<le> 32 \<and>
     (IOCGROUP com = 0x74 \<or> IOCGROUP com = 0x66 \<or> IOCGROUP com = 0x69)"

lemma ioctl_cases_distinct: "distinct (map snd ioctl_cases)"
  by (simp add: ioctl_cases_def IOC_def)

lemma ioctl_cases_ok:
  "list_all (\<lambda>(r, com). uint com < 2 ^ 63 \<and>
     (if r \<le> 64 then com = r else ioc_ok com \<and> (IOCGROUP com = 0x69 \<longleftrightarrow> r \<ge> 0x8900))) ioctl_cases"
  by (simp add: ioctl_cases_def IOC_def ioc_ok_def IOCPARM_LEN_def IOCGROUP_def fl_def)

lemma ioctl_case:
  assumes "linux2freebsd_ioctl r \<noteq> -1"
  shows "\<exists>com. (r, com) \<in> set ioctl_cases \<and> linux2freebsd_ioctl r = uint com \<and>
    (if r \<le> 64 then com = r else ioc_ok com \<and> (IOCGROUP com = 0x69 \<longleftrightarrow> r \<ge> 0x8900))"
proof -
  let ?com = "switch ioctl_cases (-1) r"
  have "?com \<noteq> -1"
    using assms by (auto simp: linux2freebsd_ioctl_def)
  then have m: "(r, ?com) \<in> set ioctl_cases"
    using switch_cases [of ioctl_cases "-1" r] by simp
  then have ok: "uint ?com < 2 ^ 63 \<and> (if r \<le> 64 then ?com = r else ioc_ok ?com \<and> (IOCGROUP ?com = 0x69 \<longleftrightarrow> r \<ge> 0x8900))"
    using ioctl_cases_ok by (auto simp: list_all_iff)
  then have "sint ?com = uint ?com"
    by (simp add: sint_uint signed_take_bit_int_eq_self_iff order_trans [OF _ uint_ge_0])
  then show ?thesis
    using m ok unfolding linux2freebsd_ioctl_def by blast
qed

lemma ioctl_out:
  assumes "r \<notin> fst ` set ioctl_cases"
  shows "linux2freebsd_ioctl r = -1"
proof -
  have "map_of ioctl_cases r = None"
    using assms by (simp add: map_of_eq_None_iff)
  then show ?thesis
    by (simp add: linux2freebsd_ioctl_def switch_def)
qed

lemma ioctl_in:
  assumes "r \<in> fst ` set ioctl_cases"
  shows "switch ioctl_cases (-1) r \<noteq> -1"
proof -
  obtain com where com: "map_of ioctl_cases r = Some com"
    using assms by (metis domD dom_map_of_conv_image_fst)
  have "(case (r, com) of (r, com) \<Rightarrow> uint com < 2 ^ 63 \<and>
     (if r \<le> 64 then com = r else ioc_ok com \<and> (IOCGROUP com = 0x69 \<longleftrightarrow> r \<ge> 0x8900)))"
    using map_of_SomeD [OF com] ioctl_cases_ok unfolding list_all_iff by (rule bspec [rotated])
  then have "uint com < 2 ^ 63"
    by (simp only: prod.case)
  moreover have "uint (-1 :: u64) = 2 ^ 64 - 1"
    by (simp add: unsigned_minus_1_eq_mask mask_eq_exp_minus_1)
  ultimately have "com \<noteq> -1"
    by auto
  then show ?thesis
    by (simp add: switch_def com)
qed

text \<open>
  C38: The requests \<open>ff_ioctl\<close> lets through.  A request that is not in the table is
  refused with \<open>EINVAL\<close> and the kernel is not called.  Every other one reaches the kernel as
  a well-formed FreeBSD request, of the interface group exactly when the Linux request is one of
  the network interface; the only exceptions are the eight numbers up to 64, which are passed on
  unchanged.  Two different requests never become the same one.
\<close>

theorem ioctl_request_type:
  "(if r \<notin> fst ` set ioctl_cases then ff_ioctl kern_ioctl fd r argp t = (FF_errno EINVAL, t)
    else \<exists>com. ff_ioctl kern_ioctl fd r argp t = kern_done (kern_ioctl fd com argp t) \<and>
      (if r \<le> 64 then com = r else ioc_ok com \<and> (IOCGROUP com = 0x69 \<longleftrightarrow> r \<ge> 0x8900))) \<and>
   inj_on linux2freebsd_ioctl (fst ` set ioctl_cases)"
proof
  show "if r \<notin> fst ` set ioctl_cases then ff_ioctl kern_ioctl fd r argp t = (FF_errno EINVAL, t)
    else \<exists>com. ff_ioctl kern_ioctl fd r argp t = kern_done (kern_ioctl fd com argp t) \<and>
      (if r \<le> 64 then com = r else ioc_ok com \<and> (IOCGROUP com = 0x69 \<longleftrightarrow> r \<ge> 0x8900))"
  proof (cases "r \<in> fst ` set ioctl_cases")
    case True
    then have "linux2freebsd_ioctl r \<noteq> -1"
      using ioctl_in [of r] signed_word_eqI [of "switch ioctl_cases (-1) r" "-1"] by (auto simp: linux2freebsd_ioctl_def)
    then obtain com where com: "linux2freebsd_ioctl r = uint com"
      "if r \<le> 64 then com = r else ioc_ok com \<and> (IOCGROUP com = 0x69 \<longleftrightarrow> r \<ge> 0x8900)"
      using ioctl_case by blast
    then have "ff_ioctl kern_ioctl fd r argp t = kern_done (kern_ioctl fd com argp t)"
      by (simp add: ff_ioctl_def)
    then show ?thesis
      using True com(2) by (simp only: not_True_eq_False if_False) blast
  next
    case False
    then show ?thesis
      using ioctl_out by (simp add: ff_ioctl_def)
  qed
  show "inj_on linux2freebsd_ioctl (fst ` set ioctl_cases)"
  proof (rule inj_onI)
    fix a b
    assume "a \<in> fst ` set ioctl_cases" "b \<in> fst ` set ioctl_cases" "linux2freebsd_ioctl a = linux2freebsd_ioctl b"
    then have "switch ioctl_cases (-1) a = switch ioctl_cases (-1) b" "switch ioctl_cases (-1) a \<noteq> -1"
      using ioctl_in by (simp_all add: linux2freebsd_ioctl_def signed_word_eqI)
    then show "a = b"
      by (rule switch_inj [OF ioctl_cases_distinct])
  qed
qed

section \<open>Options\<close>

lemma opt_cases_distinct:
  "distinct (map snd so_opt_cases)" "distinct (map snd tcp_opt_cases)" "distinct (map snd sctp_opt_cases)"
  by code_simp+

text \<open>The FreeBSD level and option of a Linux option, if it has one.\<close>

definition sockopt_ref :: "int \<Rightarrow> int \<Rightarrow> (int \<times> int) option" where
  "sockopt_ref level a =
     (let l = (if level = LINUX_SOL_SOCKET then SOL_SOCKET else level); o1 = linux2freebsd_opt l a
      in if o1 < 0 then None else Some (l, o1))"

lemma sockopt_ref_inj:
  assumes "level \<in> {LINUX_SOL_SOCKET, IPPROTO_TCP, IPPROTO_SCTP}"
  shows "inj_on (sockopt_ref level) (dom (sockopt_ref level))"
proof (rule inj_onI)
  fix a b
  assume a: "a \<in> dom (sockopt_ref level)" and ab: "sockopt_ref level a = sockopt_ref level b"
  show "a = b"
    using assms a ab switch_inj [OF opt_cases_distinct(1), of "-1" a b] switch_inj [OF opt_cases_distinct(2), of "-1" a b]
      switch_inj [OF opt_cases_distinct(3), of "-1" a b]
    by (auto simp: sockopt_ref_def linux2freebsd_opt_def so_opt_convert_def tcp_opt_convert_def sctp_opt_convert_def
        Let_def split: if_splits)
qed

lemma sockopt_ref_calls:
  "ff_setsockopt kern_setsockopt s level a v n t =
     (case sockopt_ref level a of None \<Rightarrow> (FF_errno EINVAL, t) | Some (l, b) \<Rightarrow> kern_done (kern_setsockopt s l b v n t))"
  "ff_getsockopt kern_getsockopt s level a v n' t =
     (case sockopt_ref level a of None \<Rightarrow> (FF_errno EINVAL, t) | Some (l, b) \<Rightarrow> kern_done (kern_getsockopt s l b v n' t))"
  by (simp_all add: ff_setsockopt_def ff_getsockopt_def sockopt_ref_def Let_def)

text \<open>
  C39: Socket options are not mixed up.  For the socket, TCP and SCTP levels there is one
  injective assignment of FreeBSD options to Linux options such that \<open>ff_setsockopt\<close> and
  \<open>ff_getsockopt\<close> both call the kernel with the assigned option, and return
  \<open>EINVAL\<close> without calling it when there is none.  At the IP level this is not so: the Linux
  options 10 (\<open>IP_MTU_DISCOVER\<close>) and 33 (\<open>IP_MULTICAST_TTL\<close>) make the same call.
\<close>

theorem sockopt_not_mixed:
  assumes "level \<in> {LINUX_SOL_SOCKET, IPPROTO_TCP, IPPROTO_SCTP}"
  shows "(\<exists>f. inj_on f (dom f) \<and>
      (\<forall>kern_setsockopt s a v n t. ff_setsockopt kern_setsockopt s level a v n t =
         (case f a of None \<Rightarrow> (FF_errno EINVAL, t) | Some (l, b) \<Rightarrow> kern_done (kern_setsockopt s l b v n t))) \<and>
      (\<forall>kern_getsockopt s a v n t. ff_getsockopt kern_getsockopt s level a v n t =
         (case f a of None \<Rightarrow> (FF_errno EINVAL, t) | Some (l, b) \<Rightarrow> kern_done (kern_getsockopt s l b v n t)))) \<and>
    ff_setsockopt kern_setsockopt s IPPROTO_IP 10 v n t = ff_setsockopt kern_setsockopt s IPPROTO_IP 33 v n t"
proof
  show "\<exists>f. inj_on f (dom f) \<and>
      (\<forall>kern_setsockopt s a v n t. ff_setsockopt kern_setsockopt s level a v n t =
         (case f a of None \<Rightarrow> (FF_errno EINVAL, t) | Some (l, b) \<Rightarrow> kern_done (kern_setsockopt s l b v n t))) \<and>
      (\<forall>kern_getsockopt s a v n t. ff_getsockopt kern_getsockopt s level a v n t =
         (case f a of None \<Rightarrow> (FF_errno EINVAL, t) | Some (l, b) \<Rightarrow> kern_done (kern_getsockopt s l b v n t)))"
    using sockopt_ref_inj [OF assms] sockopt_ref_calls by (intro exI [of _ "sockopt_ref level"]) blast
  show "ff_setsockopt kern_setsockopt s IPPROTO_IP 10 v n t = ff_setsockopt kern_setsockopt s IPPROTO_IP 33 v n t"
    by (simp add: ff_setsockopt_def linux2freebsd_opt_def ip_opt_convert_def switch_def ip_opt_cases_def)
qed

text \<open>\<open>SO_REUSEADDR\<close> reaches the kernel as option 4 of level 0xffff.\<close>

theorem sockopt_not_mixed_witness:
  "\<exists>f :: int \<Rightarrow> (int \<times> int) option. inj_on f (dom f) \<and> f 2 = Some (SOL_SOCKET, 4) \<and>
     (\<forall>s v n t. ff_setsockopt (\<lambda>s l b v n t. (0, t\<lparr>td_kern := (l, b)\<rparr>)) s LINUX_SOL_SOCKET 2 v n t =
        (FF_ret 0, t\<lparr>td_kern := (SOL_SOCKET, 4)\<rparr>))"
proof -
  let ?set = "\<lambda>s l b v n t. (0, t\<lparr>td_kern := (l, b)\<rparr>) :: int \<times> (int \<times> int) thread"
  obtain f where f: "inj_on f (dom f)"
    "\<And>a s v n t. ff_setsockopt ?set s LINUX_SOL_SOCKET a v n t =
       (case f a of None \<Rightarrow> (FF_errno EINVAL, t) | Some (l, b) \<Rightarrow> kern_done (?set s l b v n t))"
    using sockopt_not_mixed [where level = LINUX_SOL_SOCKET and 'a = "int \<times> int"] by force
  have r: "ff_setsockopt ?set s LINUX_SOL_SOCKET 2 v n t = (FF_ret 0, t\<lparr>td_kern := (SOL_SOCKET, 4)\<rparr>)" for s v n t
    by (simp add: ff_setsockopt_def linux2freebsd_opt_def so_opt_convert_def switch_def so_opt_cases_def kern_done_def)
  then have "f 2 = Some (SOL_SOCKET, 4)"
    using f(2) [of 0 2 0 0 "\<lparr>td_retval = 0, td_mem = (\<lambda>_. 0), td_kern = (0, 0)\<rparr>"]
    by (auto simp: kern_done_def split: option.splits)
  then show ?thesis
    using f(1) r by blast
qed

section \<open>Addresses\<close>

lemma bcopy_at: "bcopy from to len mem a = (if to \<le> a \<and> a < to + len then mem (from + (a - to)) else mem a)"
  by (auto simp: bcopy_def copyout_def copyin_def nth_map_upt)

lemma unat_ucast_u64: "unat (ucast (x :: u32) :: u64) = unat x" "unat (ucast (y :: u8) :: u64) = unat y"
  using unsigned_less [of x, where 'a = nat] unsigned_less [of y, where 'a = nat]
  by (simp_all add: unsigned_ucast_eq take_bit_nat_eq_self_iff)

lemma addr_len:
  fixes x :: u64
  assumes "2 \<le> unat x"
  shows "unat (x - 2) = unat x - 2"
  using assms by (simp add: word_le_nat_alt unat_sub)

text \<open>Two ranges of the same length that have no byte in common.\<close>

definition apart :: "nat \<Rightarrow> nat \<Rightarrow> nat \<Rightarrow> bool" where
  "apart n a b \<longleftrightarrow> a + n \<le> b \<or> b + n \<le> a"

lemma ld16_byte: "mem (a + 1) = 0 \<Longrightarrow> ld16 mem a = ucast (mem a)"
  by (simp add: ld16_def)

lemma sint_ucast_byte: "sint (ucast (b :: u8) :: u16) = uint b"
  using unsigned_less [of b, where 'a = int]
  by (simp add: sint_uint unsigned_ucast_eq take_bit_int_eq_self signed_take_bit_int_eq_self_iff
      order_trans [OF _ uint_ge_0])

lemma to_freebsd_at:
  assumes "linux \<noteq> 0" "2 \<le> unat n" "linux = bsd \<or> apart (unat n) linux bsd" "mem (linux + 1) = 0"
    and "m = linux2freebsd_sockaddr linux n bsd mem"
  shows "m bsd = ucast n" "m (bsd + 1) = (if mem linux = 10 then 28 else mem linux)"
    and "2 \<le> i \<Longrightarrow> i < unat n \<Longrightarrow> m (bsd + i) = mem (linux + i)"
    and "a < bsd \<or> bsd + unat n \<le> a \<Longrightarrow> m a = mem a"
proof -
  define fam where "fam = (if mem linux = 10 then 28 else mem linux)"
  have "(word_of_int (if sint (ld16 mem linux) = 10 then 28 else sint (ld16 mem linux)) :: u8) = fam"
    using assms(4) by (auto simp: ld16_byte sint_ucast_byte fam_def simp flip: word_uint_eqI)
  moreover have "unat (ucast n - 2 :: u64) = unat n - 2"
    using addr_len [of "ucast n"] assms(2) by (simp add: unat_ucast_u64)
  ultimately have m: "m = bcopy (linux + 2) (bsd + 2) (unat n - 2) (mem(bsd + 1 := fam, bsd := ucast n))"
    using assms(1,5) by (simp add: linux2freebsd_sockaddr_def Let_def)
  show "m bsd = ucast n" "m (bsd + 1) = (if mem linux = 10 then 28 else mem linux)"
    and "a < bsd \<or> bsd + unat n \<le> a \<Longrightarrow> m a = mem a"
    using assms(2) by (auto simp: m bcopy_at fam_def)
  show "m (bsd + i) = mem (linux + i)" if i: "2 \<le> i" "i < unat n"
  proof -
    obtain j where "i = 2 + j"
      using le_Suc_ex [OF i(1)] by blast
    then show ?thesis
      using i assms(3) by (auto simp: m bcopy_at apart_def)
  qed
qed

lemma to_linux_at:
  assumes "linux \<noteq> 0" "2 \<le> unat (mem bsd)" "apart (unat (mem bsd)) linux bsd"
    and "m = freebsd2linux_sockaddr linux bsd mem"
  shows "m linux = (if mem (bsd + 1) = 28 then 10 else mem (bsd + 1))" "m (linux + 1) = 0"
    and "2 \<le> i \<Longrightarrow> i < unat (mem bsd) \<Longrightarrow> m (linux + i) = mem (bsd + i)"
    and "a < linux \<or> linux + unat (mem bsd) \<le> a \<Longrightarrow> m a = mem a"
proof -
  define fam where "fam = (if mem (bsd + 1) = 28 then 10 else mem (bsd + 1))"
  have f: "(word_of_int (if uint (mem (bsd + 1)) = 28 then 10 else uint (mem (bsd + 1))) :: u16) = ucast fam"
    by (auto simp: fam_def simp flip: word_uint_eqI)
  define m1 where "m1 = mem(linux := fam, linux + 1 := 0)"
  have "\<not> bit fam (8 + n)" for n
    using bit_imp_le_length [of fam "8 + n"] by auto
  then have "(ucast (ucast fam :: u16) :: u8) = fam" "(ucast (drop_bit 8 (ucast fam :: u16)) :: u8) = 0"
    by (auto intro!: bit_word_eqI simp: bit_simps)
  then have "st16 linux (ucast fam) mem = m1"
    by (simp add: st16_def m1_def)
  moreover have "m1 bsd = mem bsd"
    using assms(2,3) by (auto simp: m1_def apart_def)
  moreover have "unat (ucast (mem bsd) - 2 :: u64) = unat (mem bsd) - 2"
    using addr_len [of "ucast (mem bsd)"] assms(2) by (simp add: unat_ucast_u64)
  ultimately have m: "m = bcopy (bsd + 2) (linux + 2) (unat (mem bsd) - 2) m1"
    by (simp only: assms(1,4) f freebsd2linux_sockaddr_def Let_def if_False)
  show "m linux = (if mem (bsd + 1) = 28 then 10 else mem (bsd + 1))" "m (linux + 1) = 0"
    and "a < linux \<or> linux + unat (mem bsd) \<le> a \<Longrightarrow> m a = mem a"
    using assms(2) by (auto simp: m bcopy_at m1_def fam_def)
  show "m (linux + i) = mem (bsd + i)" if i: "2 \<le> i" "i < unat (mem bsd)"
  proof -
    obtain j where "i = 2 + j"
      using le_Suc_ex [OF i(1)] by blast
    then show ?thesis
      using i assms(3) by (auto simp: m bcopy_at m1_def apart_def)
  qed
qed

lemma sockaddr_there_and_back:
  assumes "linux \<noteq> 0" "out \<noteq> 0" "2 \<le> unat n" "unat n \<le> 255" "mem (linux + 1) = 0" "mem linux \<noteq> 28"
    and "linux = bsd \<or> apart (unat n) linux bsd" "apart (unat n) out bsd"
    and "m1 = linux2freebsd_sockaddr linux n bsd mem" "m2 = freebsd2linux_sockaddr out bsd m1"
  shows "copyin m2 out (unat n) = copyin mem linux (unat n)"
    and "unat (m1 bsd) = unat n \<and> m1 (bsd + 1) = (if mem linux = 10 then 28 else mem linux)"
    and "copyin m1 (bsd + 2) (unat n - 2) = copyin mem (linux + 2) (unat n - 2)"
    and "{a. m1 a \<noteq> mem a} \<subseteq> {bsd ..< bsd + unat n}" "{a. m2 a \<noteq> m1 a} \<subseteq> {out ..< out + unat n}"
proof -
  note m1 = to_freebsd_at [OF assms(1,3,7,5,9)]
  have len: "unat (m1 bsd) = unat n"
    using assms(4) by (simp add: m1(1) unsigned_ucast_eq take_bit_nat_eq_self_iff)
  then have l: "2 \<le> unat (m1 bsd)" "apart (unat (m1 bsd)) out bsd"
    using assms(3,8) by simp_all
  note m2 = to_linux_at [OF assms(2) l assms(10)]
  show "copyin m2 out (unat n) = copyin mem linux (unat n)"
  proof (rule nth_equalityI)
    fix i
    assume "i < length (copyin m2 out (unat n))"
    then have i: "i < unat n"
      by (simp add: copyin_def)
    consider "i = 0" | "i = 1" | "2 \<le> i"
      by linarith
    then have "m2 (out + i) = mem (linux + i)"
      using m2(1,2,3) m1(2,3) i len assms(5,6) by cases (auto split: if_splits)
    then show "copyin m2 out (unat n) ! i = copyin mem linux (unat n) ! i"
      using i by (simp add: copyin_def)
  qed (simp add: copyin_def)
  show "unat (m1 bsd) = unat n \<and> m1 (bsd + 1) = (if mem linux = 10 then 28 else mem linux)"
    using len m1(2) by simp
  show "copyin m1 (bsd + 2) (unat n - 2) = copyin mem (linux + 2) (unat n - 2)"
    using m1(3) [of "2 + _"] by (auto simp: copyin_def add.assoc)
  have "a \<in> {b ..< b + k}" if "a < b \<or> b + k \<le> a \<Longrightarrow> P" "\<not> P" for a b k :: nat and P
    using that by (cases "a < b \<or> b + k \<le> a") auto
  then show "{a. m1 a \<noteq> mem a} \<subseteq> {bsd ..< bsd + unat n}" "{a. m2 a \<noteq> m1 a} \<subseteq> {out ..< out + unat n}"
    using m1(4) m2(4) [unfolded len] by blast+
qed

text \<open>
  C40: A socket address on its way into the kernel and back.  For a length from 2 to 255 and a
  family below 256 that is not 28, the FreeBSD address has this length, the family translated and
  the remaining bytes; only the bytes of the address are written, as many as the caller says, and
  the source may be the target itself.  Translating it back to another place gives the bytes of
  the original address.
\<close>

theorem sockaddr_roundtrip:
  assumes "linux \<noteq> 0" "out \<noteq> 0" "2 \<le> unat n" "unat n \<le> 255" "mem (linux + 1) = 0" "mem linux \<noteq> 28"
    and "linux = bsd \<or> apart (unat n) linux bsd" "apart (unat n) out bsd"
    and "m1 = linux2freebsd_sockaddr linux n bsd mem" "m2 = freebsd2linux_sockaddr out bsd m1"
  shows "copyin m2 out (unat n) = copyin mem linux (unat n) \<and>
    unat (m1 bsd) = unat n \<and> m1 (bsd + 1) = (if mem linux = 10 then 28 else mem linux) \<and>
    copyin m1 (bsd + 2) (unat n - 2) = copyin mem (linux + 2) (unat n - 2) \<and>
    {a. m1 a \<noteq> mem a} \<subseteq> {bsd ..< bsd + unat n} \<and> {a. m2 a \<noteq> m1 a} \<subseteq> {out ..< out + unat n}"
  using sockaddr_there_and_back [OF assms] by simp

text \<open>An IPv6 address of 28 bytes, translated in place and back to another buffer.\<close>

theorem sockaddr_roundtrip_witness:
  "let mem = (\<lambda>a. if a = 101 then 0 else if a = 100 then 10 else word_of_nat a) :: memory;
       m1 = linux2freebsd_sockaddr 100 28 100 mem
   in m1 101 = 28 \<and> copyin (freebsd2linux_sockaddr 300 100 m1) 300 28 = copyin mem 100 28"
  using sockaddr_roundtrip [of 100 300 28 "\<lambda>a. if a = 101 then 0 else if a = 100 then 10 else word_of_nat a" 100]
  by (simp add: apart_def)

text \<open>
  The length is not compared with the 128 bytes of the local variable: \<open>ff_bind\<close> with a
  longer one writes behind it.
\<close>

lemma bind_overrun:
  assumes "addr \<noteq> 0" "128 < unat n" "apart (unat n) addr bsdaddr" "td_mem t (addr + 1) = 0"
  shows "\<exists>t'. ff_bind kern_bindat bsdaddr s addr n t = kern_done (kern_bindat s bsdaddr t') \<and>
    td_mem t' (bsdaddr + 128) = td_mem t (addr + 128)"
proof -
  have "2 \<le> unat n" "addr = bsdaddr \<or> apart (unat n) addr bsdaddr"
    using assms(2,3) by simp_all
  note at = to_freebsd_at(3) [where mem = "td_mem t", OF assms(1) this assms(4) refl, of 128]
  have "linux2freebsd_sockaddr addr n bsdaddr (td_mem t) (bsdaddr + 128) = td_mem t (addr + 128)"
    by (rule at [OF _ assms(2)]) simp
  then show ?thesis
    by (intro exI [of _ "mem_upd (linux2freebsd_sockaddr addr n bsdaddr) t"]) (simp add: ff_bind_def mem_upd_def)
qed

text \<open>
  An application that binds an address and asks for it again gets its own bytes, provided the
  kernel returns the address it was handed.
\<close>

lemma bind_getname:
  assumes "addr \<noteq> 0" "name \<noteq> 0" "2 \<le> unat n" "unat n \<le> 255" "td_mem t (addr + 1) = 0" "td_mem t addr \<noteq> 28"
    and "addr = bsdaddr \<or> apart (unat n) addr bsdaddr"
    and "kern_bindat s bsdaddr (mem_upd (linux2freebsd_sockaddr addr n bsdaddr) t) = (0, t1)"
    and "kern_getname s namelen t1 = (0, pf, t2)" "pf \<noteq> 0" "apart (unat n) name pf"
    and "copyin (td_mem t2) pf (unat n) = copyin (linux2freebsd_sockaddr addr n bsdaddr (td_mem t)) bsdaddr (unat n)"
    and "\<And>t. td_mem (free pf t) = td_mem t"
  shows "ff_bind kern_bindat bsdaddr s addr n t = (FF_ret 0, t1) \<and>
    (\<exists>t3. ff_getname kern_getname free s name namelen t1 = (FF_ret 0, t3) \<and>
      copyin (td_mem t3) name (unat n) = copyin (td_mem t) addr (unat n))"
proof
  show "ff_bind kern_bindat bsdaddr s addr n t = (FF_ret 0, t1)"
    by (simp add: ff_bind_def assms(8) kern_done_def)
  define m where "m = linux2freebsd_sockaddr addr n bsdaddr (td_mem t)"
  note to = to_freebsd_at [OF assms(1,3,7,5) m_def]
  have at: "td_mem t2 (pf + i) = m (bsdaddr + i)" if "i < unat n" for i
    using arg_cong [OF assms(12), of "\<lambda>bs. bs ! i"] that by (simp add: copyin_def m_def)
  have len: "unat (td_mem t2 pf) = unat n"
    using at [of 0] assms(3,4) by (simp add: to(1) unsigned_ucast_eq take_bit_nat_eq_self_iff)
  then have l: "2 \<le> unat (td_mem t2 pf)" "apart (unat (td_mem t2 pf)) name pf"
    using assms(3,11) by simp_all
  define m' where "m' = freebsd2linux_sockaddr name pf (td_mem t2)"
  note from_kern = to_linux_at [OF assms(2) l m'_def]
  have "m' (name + i) = td_mem t (addr + i)" if i: "i < unat n" for i
  proof -
    consider "i = 0" | "i = 1" | "2 \<le> i"
      by linarith
    then show ?thesis
      using from_kern(1-3) to(2,3) at [of 1] at [of i] i len assms(3,5,6) by cases (auto split: if_splits)
  qed
  then have "copyin m' name (unat n) = copyin (td_mem t) addr (unat n)"
    by (simp add: copyin_def)
  moreover have "ff_getname kern_getname free s name namelen t1 =
      (FF_ret 0, free pf (mem_upd (freebsd2linux_sockaddr name pf) t2))"
    using assms(2,9,10) by (simp add: ff_getname_def)
  ultimately show "\<exists>t3. ff_getname kern_getname free s name namelen t1 = (FF_ret 0, t3) \<and>
      copyin (td_mem t3) name (unat n) = copyin (td_mem t) addr (unat n)"
    by (simp add: assms(13) mem_upd_def m'_def)
qed

text \<open>An accepted connection without an address, whose length is asked for.\<close>

lemma accept_null:
  assumes "kern_accept s t = (0, 0, fp, t1)" "addrlen \<noteq> 0"
  shows "fst (ff_accept kern_accept fdrop_fp free s addr addrlen t) = FF_fault"
  using assms by (simp add: ff_accept_def Let_def)

end
