(* ===== verification/Rw.thy ===== *)
theory Rw
  imports Eventfd Epoll Wrapper
begin

text \<open>
  Reading and writing a descriptor: \<^verbatim>\<open>kern_readv\<close>, \<^verbatim>\<open>kern_writev\<close>
  and their common code in \<^verbatim>\<open>sys/kern/sys_generic.c\<close>, the lookup
  \<^verbatim>\<open>_fget\<close> of \<^verbatim>\<open>sys/kern/kern_descrip.c\<close>, and the wrappers
  \<^verbatim>\<open>ff_read\<close>, \<^verbatim>\<open>ff_readv\<close>, \<^verbatim>\<open>ff_write\<close> and
  \<^verbatim>\<open>ff_writev\<close> of \<^verbatim>\<open>compat/syscall_wrapper.c\<close>.  The routines of the
  file types that are not modelled, and the flags of such files, are arguments.
\<close>

abbreviation FREAD :: u32 where "FREAD \<equiv> 1"
abbreviation FWRITE :: u32 where "FWRITE \<equiv> 2"
abbreviation EPIPE :: int where "EPIPE \<equiv> 32"

section \<open>The lookup\<close>

text \<open>
  The flags of a file: a kqueue and an eventfd are opened for reading and writing.  A file whose
  operations are not set yet has no flag.
\<close>

definition file_flag :: "(nat \<Rightarrow> u32) \<Rightarrow> nat \<Rightarrow> kworld \<Rightarrow> u32" where
  "file_flag oflag fp s =
     (case f_type (k_files s fp) of
        DTYPE_KQUEUE \<Rightarrow> FREAD OR FWRITE
      | DTYPE_EVENTFD \<Rightarrow> FREAD OR FWRITE
      | _ \<Rightarrow> oflag fp)"

definition fget_flags :: "(nat \<Rightarrow> u32) \<Rightarrow> int \<Rightarrow> u32 \<Rightarrow> kworld \<Rightarrow> (int + nat) \<times> kworld" where
  "fget_flags oflag fd flags s =
     (if fd < 0 then (Inl EBADF, s)
      else case fget (nat fd) s of
        (Inl e, s1) \<Rightarrow> (Inl e, s1)
      | (Inr fp, s1) \<Rightarrow>
          if \<not> fl (file_flag oflag fp s1) flags then (Inl EBADF, fdrop fp s1) else (Inr fp, s1))"

section \<open>Reading\<close>

type_synonym rdfun = "nat \<Rightarrow> uio \<Rightarrow> memory \<Rightarrow> kworld \<Rightarrow> (kres \<times> uio \<times> memory \<times> kworld) option"
type_synonym wrfun = "nat \<Rightarrow> uio \<Rightarrow> memory \<Rightarrow> kworld \<Rightarrow> (kres \<times> uio \<times> kworld) option"

definition fo_read :: "rdfun \<Rightarrow> rdfun" where
  "fo_read oread fp uio mem s =
     (case f_type (k_files s fp) of
        DTYPE_EVENTFD \<Rightarrow> eventfd_read fp uio mem s
      | DTYPE_KQUEUE \<Rightarrow> Some (KRet EOPNOTSUPP, uio, mem, s)
      | _ \<Rightarrow> oread fp uio mem s)"

text \<open>An interrupted call that has moved something succeeds.\<close>

definition rw_error :: "int \<Rightarrow> int \<Rightarrow> uio \<Rightarrow> int" where
  "rw_error error cnt auio =
     (if uio_resid auio \<noteq> cnt \<and> (error = ERESTART \<or> error = EINTR \<or> error = EWOULDBLOCK) then 0 else error)"

definition dofileread :: "rdfun \<Rightarrow> nat \<Rightarrow> uio \<Rightarrow> int \<Rightarrow> memory \<Rightarrow> kworld \<Rightarrow> (kres \<times> uio \<times> memory \<times> kworld) option" where
  "dofileread oread fp auio offset mem s =
     (if uio_resid auio = 0 then Some (KRet 0, auio, mem, s\<lparr>k_retval := 0\<rparr>)
      else
        let cnt = uio_resid auio in
        case fo_read oread fp (auio\<lparr>uio_rw := UIO_READ, uio_offset := offset\<rparr>) mem s of
          None \<Rightarrow> None
        | Some (KSleep, r) \<Rightarrow> Some (KSleep, r)
        | Some (KRet error, auio1, mem1, s1) \<Rightarrow>
            Some (KRet (rw_error error cnt auio1), auio1, mem1, s1\<lparr>k_retval := cnt - uio_resid auio1\<rparr>))"

definition kern_readv ::
    "(nat \<Rightarrow> u32) \<Rightarrow> rdfun \<Rightarrow> int \<Rightarrow> uio \<Rightarrow> memory \<Rightarrow> kworld \<Rightarrow> (kres \<times> memory \<times> kworld) option" where
  "kern_readv oflag oread fd auio mem s =
     (case fget_flags oflag fd FREAD s of
        (Inl e, s1) \<Rightarrow> Some (KRet e, mem, s1)
      | (Inr fp, s1) \<Rightarrow>
          (case dofileread oread fp auio (-1) mem s1 of
             None \<Rightarrow> None
           | Some (KSleep, _, mem1, s2) \<Rightarrow> Some (KSleep, mem1, s2)
           | Some (KRet e, _, mem1, s2) \<Rightarrow> Some (KRet e, mem1, fdrop fp s2)))"

section \<open>Writing\<close>

definition fo_write :: "wrfun \<Rightarrow> wrfun" where
  "fo_write owrite fp uio mem s =
     (case f_type (k_files s fp) of
        DTYPE_EVENTFD \<Rightarrow> eventfd_write fp uio mem s
      | DTYPE_KQUEUE \<Rightarrow> Some (KRet EOPNOTSUPP, uio, s)
      | _ \<Rightarrow> owrite fp uio mem s)"

text \<open>\<open>sigpipe\<close> sends the signal to the thread.\<close>

definition dofilewrite ::
    "wrfun \<Rightarrow> (kworld \<Rightarrow> kworld) \<Rightarrow> nat \<Rightarrow> uio \<Rightarrow> int \<Rightarrow> memory \<Rightarrow> kworld \<Rightarrow> (kres \<times> uio \<times> kworld) option" where
  "dofilewrite owrite sigpipe fp auio offset mem s =
     (let cnt = uio_resid auio in
      case fo_write owrite fp (auio\<lparr>uio_rw := UIO_WRITE, uio_offset := offset\<rparr>) mem s of
        None \<Rightarrow> None
      | Some (KSleep, r) \<Rightarrow> Some (KSleep, r)
      | Some (KRet error, auio1, s1) \<Rightarrow>
          let error1 = rw_error error cnt auio1;
              s2 = (if f_type (k_files s1 fp) \<noteq> DTYPE_SOCKET \<and> error1 = EPIPE then sigpipe s1 else s1)
          in Some (KRet error1, auio1, s2\<lparr>k_retval := cnt - uio_resid auio1\<rparr>))"

definition kern_writev ::
    "(nat \<Rightarrow> u32) \<Rightarrow> wrfun \<Rightarrow> (kworld \<Rightarrow> kworld) \<Rightarrow> int \<Rightarrow> uio \<Rightarrow> memory \<Rightarrow> kworld \<Rightarrow> (kres \<times> kworld) option" where
  "kern_writev oflag owrite sigpipe fd auio mem s =
     (case fget_flags oflag fd FWRITE s of
        (Inl e, s1) \<Rightarrow> Some (KRet e, s1)
      | (Inr fp, s1) \<Rightarrow>
          (case dofilewrite owrite sigpipe fp auio (-1) mem s1 of
             None \<Rightarrow> None
           | Some (KSleep, _, s2) \<Rightarrow> Some (KSleep, s2)
           | Some (KRet e, _, s2) \<Rightarrow> Some (KRet e, fdrop fp s2)))"

section \<open>The wrappers\<close>

text \<open>
  The offset and the direction are set below before they are read; the values here are those of
  an uninitialised variable.
\<close>

definition sys_uio :: "iovec list \<Rightarrow> int \<Rightarrow> uio" where
  "sys_uio iov resid =
     \<lparr>uio_iov = iov, uio_offset = 0, uio_resid = resid, uio_segflg = UIO_SYSSPACE, uio_rw = UIO_READ\<rparr>"

definition rw_ret :: "kres \<Rightarrow> kworld \<Rightarrow> ffret" where
  "rw_ret r s =
     (case r of KSleep \<Rightarrow> FF_sleep | KRet rc \<Rightarrow> if rc \<noteq> 0 then FF_errno rc else FF_ret (c_int (k_retval s)))"

definition rd_end :: "(kres \<times> memory \<times> kworld) option \<Rightarrow> (ffret \<times> memory \<times> kworld) option" where
  "rd_end = map_option (\<lambda>(r, mem, s). (rw_ret r s, mem, s))"

definition wr_end :: "(kres \<times> kworld) option \<Rightarrow> (ffret \<times> kworld) option" where
  "wr_end = map_option (\<lambda>(r, s). (rw_ret r s, s))"

definition ff_read ::
    "(nat \<Rightarrow> u32) \<Rightarrow> rdfun \<Rightarrow> int \<Rightarrow> nat \<Rightarrow> nat \<Rightarrow> memory \<Rightarrow> kworld \<Rightarrow> (ffret \<times> memory \<times> kworld) option" where
  "ff_read oflag oread fd buf nbytes mem s =
     (if nbytes > INT_MAX then Some (FF_errno EINVAL, mem, s)
      else rd_end (kern_readv oflag oread fd (sys_uio [\<lparr>iov_base = buf, iov_len = nbytes\<rparr>] (int nbytes)) mem s))"

text \<open>The lengths are added up in an \<^verbatim>\<open>int\<close>, which wraps.\<close>

definition iov_total :: "iovec list \<Rightarrow> int" where
  "iov_total iov = fold (\<lambda>v len. c_int (len + int (iov_len v))) iov 0"

definition ff_readv ::
    "(nat \<Rightarrow> u32) \<Rightarrow> rdfun \<Rightarrow> int \<Rightarrow> iovec list \<Rightarrow> memory \<Rightarrow> kworld \<Rightarrow> (ffret \<times> memory \<times> kworld) option" where
  "ff_readv oflag oread fd iov mem s = rd_end (kern_readv oflag oread fd (sys_uio iov (iov_total iov)) mem s)"

definition ff_write ::
    "(nat \<Rightarrow> u32) \<Rightarrow> wrfun \<Rightarrow> (kworld \<Rightarrow> kworld) \<Rightarrow> int \<Rightarrow> nat \<Rightarrow> nat \<Rightarrow> memory \<Rightarrow> kworld \<Rightarrow> (ffret \<times> kworld) option" where
  "ff_write oflag owrite sigpipe fd buf nbytes mem s =
     (if nbytes > INT_MAX then Some (FF_errno EINVAL, s)
      else wr_end (kern_writev oflag owrite sigpipe fd
             (sys_uio [\<lparr>iov_base = buf, iov_len = nbytes\<rparr>] (int nbytes)) mem s))"

definition ff_writev ::
    "(nat \<Rightarrow> u32) \<Rightarrow> wrfun \<Rightarrow> (kworld \<Rightarrow> kworld) \<Rightarrow> int \<Rightarrow> iovec list \<Rightarrow> memory \<Rightarrow> kworld \<Rightarrow> (ffret \<times> kworld) option" where
  "ff_writev oflag owrite sigpipe fd iov mem s =
     wr_end (kern_writev oflag owrite sigpipe fd (sys_uio iov (iov_total iov)) mem s)"

end
