(* ===== verification/Eventfd_Props.thy ===== *)
theory Eventfd_Props
  imports Eventfd Kqueue_Props
begin

text \<open>
  What an eventfd guarantees: its count never wraps, nothing written is lost or read twice,
  \<open>poll\<close> tells exactly whether a read or a write would go through, and a write makes every
  enabled knote that watches for reading pending in its kqueue.
\<close>

section \<open>The filters leave the counts alone\<close>

lemma w_efd_upds [simp]:
  "w_efd (k_w (kq_upd q f s)) = w_efd (k_w s)" "w_efd (k_w (kn_mod p g s)) = w_efd (k_w s)"
  "w_efd (k_w (knl_upd l h s)) = w_efd (k_w s)" "w_efd (k_w (so_upd i k s)) = w_efd (k_w s)"
  by (simp_all add: kq_upd_def kn_mod_def knl_upd_def so_upd_def w_upd_def split: knlid.split)

lemma w_efd_knlist [simp]:
  fixes s :: kworld
  shows "w_efd (k_w (knlist_add l p s)) = w_efd (k_w s)" "w_efd (k_w (knlist_remove l p s)) = w_efd (k_w s)"
  by (simp_all add: knlist_add_def knlist_remove_def Let_def)

lemma filt_proc_efd: "filt_proc p h s = (b, s') \<Longrightarrow> w_efd (k_w s') = w_efd (k_w s)"
  by (auto simp: filt_proc_def Let_def split: option.splits if_splits)

lemma events_efd: "f_event (kern_ops t) p h s = (b, s') \<Longrightarrow> w_efd (k_w s') = w_efd (k_w s)"
proof (cases t)
  case Proc_filtops
  then show "f_event (kern_ops t) p h s = (b, s') \<Longrightarrow> w_efd (k_w s') = w_efd (k_w s)"
    by (simp add: filt_proc_efd)
qed (auto simp: filt_kqueue_def filt_timer_def filt_user_def filt_signal_def filt_fsevent_def
    filt_eventfdread_def filt_eventfdwrite_def filt_soread_def filt_sowrite_def filt_soempty_def
    Let_def split: if_splits)

lemma knote_one_efd: "w_efd (k_w (knote_one kern_ops h nl p s)) = w_efd (k_w s)"
  by (auto simp: knote_one_def Let_def split: prod.split dest: events_efd)

lemma knote_fold_efd: "w_efd (k_w (fold (knote_one kern_ops h nl) ps s)) = w_efd (k_w s)"
  by (induction ps arbitrary: s) (simp_all add: knote_one_efd)

lemma knote_list_efd: "w_efd (k_w (knote_list kern_ops l h nl s)) = w_efd (k_w s)"
  by (simp add: knote_list_def knote_fold_efd)

lemma efd_notify_efd:
  "efd_count (w_efd (k_w (efd_notify e s)) e) = efd_count (w_efd (k_w s) e)"
  "efd_flags (w_efd (k_w (efd_notify e s)) e) = efd_flags (w_efd (k_w s) e)"
  "e' \<noteq> e \<Longrightarrow> w_efd (k_w (efd_notify e s)) e' = w_efd (k_w s) e'"
  by (simp_all add: efd_notify_def efd_upd_def w_upd_def knote_list_efd)

section \<open>Reading and writing\<close>

text \<open>A count that can be reported: never the largest 64-bit value.\<close>

definition efd_wf :: "nat \<Rightarrow> kworld \<Rightarrow> bool" where
  "efd_wf e s \<longleftrightarrow> efd_count (w_efd (k_w s) e) \<noteq> UINT64_MAX"

definition efd_val :: "nat \<Rightarrow> kworld \<Rightarrow> nat" where
  "efd_val e s = unat (efd_count (w_efd (k_w s) e))"

lemma add_no_wrap:
  fixes a b :: u64
  assumes "\<not> UINT64_MAX - a \<le> b"
  shows "unat (a + b) = unat a + unat b" "a + b \<noteq> UINT64_MAX"
proof -
  have "unat a < 2 ^ LENGTH(64)"
    by (rule unsigned_less)
  then have "a \<le> UINT64_MAX"
    by (simp add: word_le_nat_alt)
  then have "unat (UINT64_MAX - a) = unat UINT64_MAX - unat a"
    by (rule unat_sub)
  then have lt: "unat a + unat b < unat UINT64_MAX"
    using assms by (simp add: word_le_nat_alt)
  then show eq: "unat (a + b) = unat a + unat b"
    using unat_add_lem [of a b] by simp
  then show "a + b \<noteq> UINT64_MAX"
    using lt by auto
qed

lemma write_retry_cases:
  assumes "eventfd_write_retry fp count uio s = (r, uio', s')" "e = fp_efd s fp"
  shows "r = KRet 0 \<and> efd_val e s' = efd_val e s + unat count \<and> efd_wf e s' \<and> uio' = uio \<or>
    r = KRet EAGAIN \<and> s' = s \<and> f_nonblock (k_files s fp) \<or>
    r = KSleep \<and> s' = s \<and> \<not> f_nonblock (k_files s fp)"
  using assms add_no_wrap [of "efd_count (w_efd (k_w s) e)" count]
  by (auto simp: eventfd_write_retry_def Let_def efd_val_def efd_wf_def efd_notify_efd efd_upd_def w_upd_def split: if_splits)

lemma uiomove_bytes:
  assumes "uio_ok uio" "uio_rw uio = UIO_READ" "uio_segflg uio \<noteq> UIO_NOCOPY" "8 \<le> uio_resid uio"
    and "distinct (iov_addrs (uio_iov uio))"
  shows "\<exists>uio' mem'. uiomove (le_bytes c) 8 uio mem = Some (le_bytes c, uio', mem') \<and> uio_moved 8 uio uio' \<and>
    le_word (map mem' (take 8 (iov_addrs (uio_iov uio)))) = c"
proof -
  have "min 8 (length (iov_addrs (uio_iov uio))) = 8"
    using assms(1,4) by (simp add: uio_ok_def)
  then show ?thesis
    using uiomove_loop_read [of uio 0 8 "le_bytes c" 8 mem] assms
    by (auto simp: uiomove_def mem_put_def)
qed

lemma uiomove_value:
  assumes "uio_ok uio" "uio_rw uio = UIO_WRITE" "uio_segflg uio \<noteq> UIO_NOCOPY" "8 \<le> uio_resid uio"
    and "c = le_word (map mem (take 8 (iov_addrs (uio_iov uio))))"
  shows "\<exists>bs uio'. uiomove (replicate 8 0) 8 uio mem = Some (bs, uio', mem) \<and> uio_moved 8 uio uio' \<and> le_word bs = c"
proof -
  have "min 8 (length (iov_addrs (uio_iov uio))) = 8"
    using assms(1,4) by (simp add: uio_ok_def)
  then show ?thesis
    using uiomove_loop_write [of uio 0 8 "replicate 8 0" 8 mem] assms
    by (auto simp: uiomove_def buf_write_def)
qed

text \<open>The value a reader finds at the first eight bytes of its vector, and a writer puts there.\<close>

definition uio_value :: "uio \<Rightarrow> memory \<Rightarrow> u64" where
  "uio_value uio mem = le_word (map mem (take 8 (iov_addrs (uio_iov uio))))"

definition uio_good :: "uio_rw \<Rightarrow> uio \<Rightarrow> bool" where
  "uio_good rw uio \<longleftrightarrow> uio_ok uio \<and> uio_rw uio = rw \<and> uio_segflg uio \<noteq> UIO_NOCOPY \<and> distinct (iov_addrs (uio_iov uio))"

lemma efd_room:
  "UINT64_MAX - efd_count (w_efd (k_w s) e) \<le> v \<longleftrightarrow> \<not> efd_val e s + unat v < unat UINT64_MAX"
proof -
  have "unat (efd_count (w_efd (k_w s) e)) < 2 ^ LENGTH(64)"
    by (rule unsigned_less)
  then have le: "efd_count (w_efd (k_w s) e) \<le> UINT64_MAX"
    by (simp add: word_le_nat_alt)
  then show ?thesis
    using unat_sub [OF le] by (auto simp: word_le_nat_alt efd_val_def)
qed

text \<open>
  C21: A write to an eventfd reads eight bytes of the caller.  Fewer bytes, or the largest
  64-bit value, are refused.  Else, if the sum stays below the largest value, the count
  grows by exactly the value written, without wrap-around; if not, a non-blocking write
  returns \<open>EAGAIN\<close> and a blocking one sleeps, with the count unchanged.
\<close>

theorem eventfd_write_adds:
  assumes "uio_good UIO_WRITE uio" "e = fp_efd s fp" "v = uio_value uio mem"
  shows "case eventfd_write fp uio mem s of
      None \<Rightarrow> False
    | Some (r, uio', s') \<Rightarrow>
        if uio_resid uio < 8 \<or> v = UINT64_MAX then r = KRet EINVAL \<and> s' = s
        else if efd_val e s + unat v < unat UINT64_MAX
        then r = KRet 0 \<and> efd_val e s' = efd_val e s + unat v \<and> uio_resid uio' = uio_resid uio - 8
        else s' = s \<and> r = (if f_nonblock (k_files s fp) then KRet EAGAIN else KSleep)"
proof (cases "uio_resid uio < 8")
  case True
  then show ?thesis
    by (simp add: eventfd_write_def)
next
  case False
  then obtain bs uio1 where b: "uiomove (replicate 8 0) 8 uio mem = Some (bs, uio1, mem)" "uio_moved 8 uio uio1" "le_word bs = v"
    using uiomove_value [of uio v mem] assms(1,3) by (auto simp: uio_good_def uio_value_def)
  obtain r uio' s' where w: "eventfd_write_retry fp v uio1 s = (r, uio', s')"
    by (metis prod_cases3)
  have eq: "eventfd_write fp uio mem s = (if v = UINT64_MAX then Some (KRet EINVAL, uio1, s) else Some (r, uio', s'))"
    using False b w by (simp add: eventfd_write_def)
  note lt = efd_room [of s e v]
  have ok: "efd_val e s + unat v < unat UINT64_MAX \<Longrightarrow> r = KRet 0 \<and> uio' = uio1 \<and> efd_val e s' = efd_val e s + unat v"
    using write_retry_cases [OF w assms(2)] w lt assms(2)
    by (auto simp: eventfd_write_retry_def Let_def)
  have no: "\<not> efd_val e s + unat v < unat UINT64_MAX \<Longrightarrow>
      s' = s \<and> r = (if f_nonblock (k_files s fp) then KRet EAGAIN else KSleep)"
    using w lt assms(2) by (auto simp: eventfd_write_retry_def Let_def)
  show ?thesis
    using eq ok no b(2) False by (auto simp: uio_moved_def)
qed

definition uio8 :: "uio_rw \<Rightarrow> uio" where
  "uio8 rw = \<lparr>uio_iov = [\<lparr>iov_base = 64, iov_len = 8\<rparr>], uio_offset = 0, uio_resid = 8,
     uio_segflg = UIO_USERSPACE, uio_rw = rw\<rparr>"

definition efd3 :: kworld where
  "efd3 = snd (eventfd_create_file 0 5 3 0 kern0)"

lemma uio8_good: "uio_good rw (uio8 rw)" "uio_resid (uio8 rw) = 8"
  "uio_value (uio8 rw) ((\<lambda>_. 0)(64 := 4)) = 4"
  by (simp_all add: uio_good_def uio8_def uio_ok_def uio_value_def le_word_def upt_rec)

lemma efd3_val: "fp_efd efd3 5 = 0" "efd_val 0 efd3 = 3" "\<not> f_nonblock (k_files efd3 5)"
  "\<not> fl (efd_flags (w_efd (k_w efd3) 0)) EFD_SEMAPHORE"
  by (simp_all add: efd3_def eventfd_create_file_def Let_def fp_efd_def file_upd_def knl_upd_def efd_upd_def w_upd_def
      efd_val_def fl_def kern0_def)

theorem eventfd_write_adds_witness:
  "\<exists>uio' s'. eventfd_write 5 (uio8 UIO_WRITE) ((\<lambda>_. 0)(64 := 4)) efd3 = Some (KRet 0, uio', s') \<and> efd_val 0 s' = 7"
  using eventfd_write_adds [of "uio8 UIO_WRITE" 0 efd3 5 4 "(\<lambda>_. 0)(64 := 4)"]
  by (auto simp: uio8_good efd3_val split: option.splits)

text \<open>
  C22: A read from an eventfd hands the caller the whole count and leaves none or, from a
  semaphore, hands out one and leaves one less; the value is in the first eight bytes of the
  caller's vector.  With a count of zero a non-blocking read returns \<open>EAGAIN\<close> and a
  blocking one sleeps; with less than eight bytes of room it fails; nothing changes then.
\<close>

theorem eventfd_read_takes:
  assumes "uio_good UIO_READ uio" "e = fp_efd s fp" "sem = fl (efd_flags (w_efd (k_w s) e)) EFD_SEMAPHORE"
  shows "case eventfd_read fp uio mem s of
      None \<Rightarrow> False
    | Some (r, uio', mem', s') \<Rightarrow>
        if uio_resid uio < 8 then r = KRet EINVAL \<and> s' = s \<and> mem' = mem
        else if efd_val e s = 0
        then r = (if f_nonblock (k_files s fp) then KRet EAGAIN else KSleep) \<and> s' = s \<and> mem' = mem
        else r = KRet 0 \<and> uio_resid uio' = uio_resid uio - 8 \<and>
          unat (uio_value uio mem') = (if sem then 1 else efd_val e s) \<and>
          efd_val e s' = efd_val e s - unat (uio_value uio mem')"
proof (cases "uio_resid uio < 8 \<or> efd_val e s = 0")
  case True
  then show ?thesis
    using assms(2) by (auto simp: eventfd_read_def Let_def efd_val_def unat_eq_zero)
next
  case False
  define c where "c = efd_count (w_efd (k_w s) e)"
  define v :: u64 where "v = (if sem then 1 else c)"
  define s1 where "s1 = efd_notify e (efd_upd e (\<lambda>efd. efd\<lparr>efd_count := c - v\<rparr>) s)"
  obtain uio1 mem1 where m: "uiomove (le_bytes v) 8 uio mem = Some (le_bytes v, uio1, mem1)" "uio_moved 8 uio uio1"
    "uio_value uio mem1 = v"
    using uiomove_bytes [of uio v mem] assms(1) False by (auto simp: uio_good_def uio_value_def)
  have c0: "c \<noteq> 0"
    using False by (auto simp: c_def efd_val_def)
  then have "v \<le> c"
    by (auto simp: v_def word_le_nat_alt Suc_le_eq unat_gt_0)
  then have "efd_val e s1 = efd_val e s - unat v"
    by (simp add: efd_val_def s1_def efd_notify_efd efd_upd_def w_upd_def c_def [symmetric] unat_sub)
  moreover have "eventfd_read fp uio mem s = Some (KRet 0, uio1, mem1, s1)"
  proof -
    have c: "efd_count (w_efd (k_w s) (fp_efd s fp)) = c"
      by (simp add: c_def assms(2))
    show ?thesis
      using False m(1) c0 assms(2,3) by (cases sem) (simp_all add: eventfd_read_def Let_def c v_def s1_def)
  qed
  ultimately show ?thesis
    using False m(2,3) by (auto simp: uio_moved_def v_def efd_val_def c_def)
qed

theorem eventfd_read_takes_witness:
  "\<exists>uio' mem' s'. eventfd_read 5 (uio8 UIO_READ) (\<lambda>_. 0) efd3 = Some (KRet 0, uio', mem', s') \<and>
     unat (uio_value (uio8 UIO_READ) mem') = 3 \<and> efd_val 0 s' = 0"
  using eventfd_read_takes [of "uio8 UIO_READ" 0 efd3 5 False "\<lambda>_. 0"]
  by (auto simp: uio8_good efd3_val split: option.splits)

text \<open>
  C23: \<open>poll\<close> on an eventfd is exact: it reports the descriptor readable if and only if
  a read with room for the count would not block, and writable if and only if a write of the
  smallest value would not block.
\<close>

theorem eventfd_poll_exact:
  "(fst (eventfd_poll fp POLLIN s) = POLLIN \<longleftrightarrow>
      \<not> (\<exists>uio' mem' s'. eventfd_read fp (uio8 UIO_READ) mem s \<in>
           {Some (KSleep, uio', mem', s'), Some (KRet EAGAIN, uio', mem', s')})) \<and>
   (fst (eventfd_poll fp POLLOUT s) = POLLOUT \<longleftrightarrow> fst (eventfd_write_retry fp 1 (uio8 UIO_WRITE) s) = KRet 0)"
proof
  define c where "c = efd_count (w_efd (k_w s) (fp_efd s fp))"
  obtain uio1 mem1 where m: "uiomove (le_bytes v) 8 (uio8 UIO_READ) mem = Some (le_bytes v, uio1 v, mem1 v)" for v
    using uiomove_bytes [of "uio8 UIO_READ" _ mem] uio8_good(1) [of UIO_READ]
    by (auto simp: uio_good_def uio8_good(2)) metis
  have "fst (eventfd_poll fp POLLIN s) = POLLIN \<longleftrightarrow> c \<noteq> 0"
    by (auto simp: eventfd_poll_def Let_def fl_def c_def word_gt_0)
  then show "fst (eventfd_poll fp POLLIN s) = POLLIN \<longleftrightarrow>
      \<not> (\<exists>uio' mem' s'. eventfd_read fp (uio8 UIO_READ) mem s \<in>
           {Some (KSleep, uio', mem', s'), Some (KRet EAGAIN, uio', mem', s')})"
    by (auto simp: eventfd_read_def Let_def uio8_good(2) c_def m)
  have "unat c < 2 ^ LENGTH(64)"
    by (rule unsigned_less)
  then have le: "c \<le> UINT64_MAX"
    by (simp add: word_le_nat_alt)
  have "UINT64_MAX - 1 > c \<longleftrightarrow> \<not> UINT64_MAX - c \<le> 1"
    using unat_sub [OF le] by (auto simp: word_le_nat_alt word_less_nat_alt)
  then show "fst (eventfd_poll fp POLLOUT s) = POLLOUT \<longleftrightarrow> fst (eventfd_write_retry fp 1 (uio8 UIO_WRITE) s) = KRet 0"
    by (auto simp: eventfd_poll_def eventfd_write_retry_def Let_def fl_def c_def)
qed

section \<open>Sequences of reads and writes\<close>

lemma knote_one_frame:
  fixes s :: kworld
  shows "kern_frame s (knote_one kern_ops h nl p s)"
proof -
  have up: "kern_frame s (kq_upd q f u) \<longleftrightarrow> kern_frame s u" for q f u
    by (simp add: kern_frame_def kq_upd_def)
  have ev: "f_event (kern_ops t) p h u = (b, u') \<Longrightarrow> kern_frame u u'" for t b u u'
    using kf.event_step [of t "fst p" "snd p" h u b u'] by auto
  have ev': "f_event (kern_ops t) p h (kq_upd q f s) = (b, u') \<Longrightarrow> kern_frame s u'" for t b u' q f
    using ev [of t "kq_upd q f s" b u'] by (simp add: kern_frame_def kq_upd_def)
  show ?thesis
    by (auto simp: knote_one_def Let_def up split: prod.split dest: ev ev')
qed

lemma knote_list_frame:
  fixes s :: kworld
  shows "kern_frame s (knote_list kern_ops l h nl s)"
proof -
  have "kern_frame s (fold (knote_one kern_ops h nl) ps s)" for ps
  proof (induction ps arbitrary: s)
    case (Cons p ps)
    show ?case
      using kern_frame_trans [OF knote_one_frame Cons.IH] by simp
  qed simp
  then show ?thesis
    by (simp add: knote_list_def)
qed

lemma efd_notify_files [simp]: "k_files (efd_notify e s) = k_files s"
  using knote_list_frame [of s "Knl_efd e" 0 False]
  by (simp add: efd_notify_def efd_upd_def w_upd_def kern_frame_def)

lemma fp_efd_files: "k_files s' = k_files s \<Longrightarrow> fp_efd s' fp = fp_efd s fp"
  by (simp add: fp_efd_def)

datatype efd_op = Efd_write uio memory | Efd_read uio memory

fun efd_op_good :: "efd_op \<Rightarrow> bool" where
  "efd_op_good (Efd_write uio mem) = uio_good UIO_WRITE uio"
| "efd_op_good (Efd_read uio mem) = uio_good UIO_READ uio"

text \<open>The value a call has put into the count or taken out of it, with the state it leaves.\<close>

fun efd_step :: "nat \<Rightarrow> efd_op \<Rightarrow> kworld \<Rightarrow> nat \<times> nat \<times> kworld" where
  "efd_step fp (Efd_write uio mem) s =
     (case eventfd_write fp uio mem s of
        Some (KRet e, _, s') \<Rightarrow> (if e = 0 then unat (uio_value uio mem) else 0, 0, s')
      | Some (_, _, s') \<Rightarrow> (0, 0, s')
      | None \<Rightarrow> (0, 0, s))"
| "efd_step fp (Efd_read uio mem) s =
     (case eventfd_read fp uio mem s of
        Some (KRet e, _, mem', s') \<Rightarrow> (0, if e = 0 then unat (uio_value uio mem') else 0, s')
      | Some (_, _, _, s') \<Rightarrow> (0, 0, s')
      | None \<Rightarrow> (0, 0, s))"

fun efd_run :: "nat \<Rightarrow> efd_op list \<Rightarrow> kworld \<Rightarrow> nat \<times> nat \<times> kworld" where
  "efd_run fp [] s = (0, 0, s)"
| "efd_run fp (a # as) s =
     (let (p, g, s1) = efd_step fp a s; (p', g', s2) = efd_run fp as s1 in (p + p', g + g', s2))"

lemma efd_step_write:
  assumes "uio_good UIO_WRITE uio" "efd_step fp (Efd_write uio mem) s = (p, g, s')"
  shows "efd_val (fp_efd s fp) s' = efd_val (fp_efd s fp) s + p \<and> g = 0 \<and> k_files s' = k_files s"
proof (cases "uio_resid uio < 8")
  case False
  then obtain bs uio1 where b: "uiomove (replicate 8 0) 8 uio mem = Some (bs, uio1, mem)" "le_word bs = uio_value uio mem"
    using uiomove_value [of uio _ mem] assms(1) by (auto simp: uio_good_def uio_value_def)
  obtain r uio' s1 where w: "eventfd_write_retry fp (uio_value uio mem) uio1 s = (r, uio', s1)"
    by (metis prod_cases3)
  have "k_files s1 = k_files s"
    using w by (auto simp: eventfd_write_retry_def Let_def efd_upd_def w_upd_def split: if_splits)
  then show ?thesis
    using write_retry_cases [OF w refl] assms(2) False b w
    by (cases "uio_value uio mem = UINT64_MAX") (auto simp: eventfd_write_def)
qed (use assms in \<open>auto simp: eventfd_write_def\<close>)

lemma efd_step_read:
  assumes "uio_good UIO_READ uio" "efd_step fp (Efd_read uio mem) s = (p, g, s')"
  shows "efd_val (fp_efd s fp) s = efd_val (fp_efd s fp) s' + g \<and> p = 0 \<and> k_files s' = k_files s"
proof (cases "uio_resid uio < 8 \<or> efd_count (w_efd (k_w s) (fp_efd s fp)) = 0")
  case False
  define c where "c = efd_count (w_efd (k_w s) (fp_efd s fp))"
  define v :: u64 where "v = (if fl (efd_flags (w_efd (k_w s) (fp_efd s fp))) EFD_SEMAPHORE then 1 else c)"
  obtain uio1 mem1 where m: "uiomove (le_bytes v) 8 uio mem = Some (le_bytes v, uio1, mem1)" "uio_value uio mem1 = v"
    using uiomove_bytes [of uio v mem] assms(1) False by (auto simp: uio_good_def uio_value_def)
  have c: "c \<noteq> 0"
    using False by (simp add: c_def)
  have "v \<le> c"
    using c by (auto simp: v_def word_le_nat_alt Suc_le_eq unat_gt_0)
  then have vc: "unat c = unat (c - v) + unat v"
    by (simp add: unat_sub word_le_nat_alt)
  have "eventfd_read fp uio mem s = Some (KRet 0, uio1, mem1,
      efd_notify (fp_efd s fp) (efd_upd (fp_efd s fp) (\<lambda>efd. efd\<lparr>efd_count := c - v\<rparr>) s))"
    using False m(1) c by (simp add: eventfd_read_def Let_def v_def c_def [symmetric] split: if_splits)
  then show ?thesis
    using assms(2) m(2) vc
    by (auto simp: efd_val_def efd_notify_efd efd_upd_def w_upd_def c_def [symmetric])
qed (use assms in \<open>auto simp: eventfd_read_def Let_def split: if_splits\<close>)

text \<open>
  C24: Nothing is lost and nothing is read twice: over any sequence of reads and writes on
  an eventfd, blocked and refused ones included, the initial count plus all values written is
  the sum of all values read plus the final count.
\<close>

theorem eventfd_conservation:
  assumes "\<forall>a \<in> set as. efd_op_good a" "efd_run fp as s = (written, taken, s')" "e = fp_efd s fp"
  shows "efd_val e s + written = taken + efd_val e s'"
  using assms
proof (induction as arbitrary: s written taken)
  case (Cons a as)
  obtain p g s1 where 1: "efd_step fp a s = (p, g, s1)"
    by (metis prod_cases3)
  obtain p' g' where 2: "efd_run fp as s1 = (p', g', s')" "written = p + p'" "taken = g + g'"
    using Cons.prems(2) 1 by (auto split: prod.splits)
  have st: "efd_val e s + p = efd_val e s1 + g" "k_files s1 = k_files s"
    using efd_step_write efd_step_read Cons.prems(1,3) 1 by (cases a; fastforce)+
  then have "efd_val e s1 + p' = g' + efd_val e s'"
    using Cons.IH [OF _ 2(1)] Cons.prems(1,3) fp_efd_files [of s1 s] by simp
  then show ?case
    using st(1) 2 by simp
qed simp

theorem eventfd_conservation_witness:
  "\<exists>w t s'. efd_run 5 [Efd_write (uio8 UIO_WRITE) ((\<lambda>_. 0)(64 := 4)), Efd_read (uio8 UIO_READ) (\<lambda>_. 0)] efd3 = (w, t, s') \<and>
     3 + w = t + efd_val 0 s'"
proof -
  let ?r = "efd_run 5 [Efd_write (uio8 UIO_WRITE) ((\<lambda>_. 0)(64 := 4)), Efd_read (uio8 UIO_READ) (\<lambda>_. 0)] efd3"
  obtain w t s' where r: "?r = (w, t, s')"
    by (metis prod_cases3)
  have "efd_val 0 efd3 + w = t + efd_val 0 s'"
    by (rule eventfd_conservation [OF _ r]) (simp_all add: uio8_good efd3_val)
  then show ?thesis
    using r by (simp add: efd3_val)
qed

section \<open>Events for the watchers\<close>

lemma knote_one_other:
  assumes "kern_inv s" "live s (q', k')" "(q, k) \<noteq> (q', k')"
  shows "kq_notes (kqs (knote_one kern_ops h nl (q', k') s) q) k = kq_notes (kqs s q) k"
proof -
  obtain kn where "kq_notes (kqs s q') k' = Some kn" "kq_inv (kqs s q')"
    using assms(1,2) by (auto simp: live_def kern_inv_def)
  note one = kf.knote_one_ok [OF this(2,1), of h nl]
  show ?thesis
  proof (cases "q = q'")
    case True
    then show ?thesis
      using one assms(3) by (auto simp: notes_but_def)
  next
    case False
    then have "other_step (kqs s q) (kqs (knote_one kern_ops h nl (q', k') s) q)"
      using one by (simp add: kq_keep_def)
    then show ?thesis
      by (auto simp: other_step_def)
  qed
qed

lemma knote_one_live:
  fixes s :: kworld
  assumes "kern_inv s" "live s p"
  shows "kern_inv (knote_one kern_ops h nl p s)" "live s p' \<Longrightarrow> live (knote_one kern_ops h nl p s) p'"
proof -
  obtain q k kn where p: "p = (q, k)" "kq_notes (kqs s q) k = Some kn" "kq_inv (kqs s q)"
    using assms by (cases p) (auto simp: live_def kern_inv_def)
  note one = kf.knote_one_ok [OF p(3,2), of h nl, folded p(1)]
  show "kern_inv (knote_one kern_ops h nl p s)" "live s p' \<Longrightarrow> live (knote_one kern_ops h nl p s) p'"
    using one assms(1) by (auto dest: kq_keep_env intro: kern_invI live_keep)
qed

lemma knote_fold_other:
  assumes "kern_inv s" "\<forall>p \<in> set ps. live s p" "(q, k) \<notin> set ps"
  shows "kq_notes (kqs (fold (knote_one kern_ops h nl) ps s) q) k = kq_notes (kqs s q) k"
  using assms
proof (induction ps arbitrary: s)
  case (Cons p ps)
  define s1 where "s1 = knote_one kern_ops h nl p s"
  have "kern_inv s1" "\<forall>p \<in> set ps. live s1 p"
    using knote_one_live Cons.prems(1,2) by (auto simp: s1_def)
  moreover have "kq_notes (kqs s1 q) k = kq_notes (kqs s q) k"
    using knote_one_other [of s "fst p" "snd p" q k] Cons.prems by (auto simp: s1_def)
  ultimately show ?case
    using Cons.IH [of s1] Cons.prems(3) by (simp add: s1_def)
qed simp

lemma knote_one_count:
  assumes "kq_inv (kqs s q)" "kq_notes (kqs s q) k = Some kn" "kn_fop kn = Eventfd_rfiltops" "kn_hook kn = Some e"
    and "c = efd_count (w_efd (k_w s) e)" "c \<noteq> 0"
  shows "\<exists>st. kq_notes (kqs (knote_one kern_ops 0 False (q, k) s) q) k = Some ((set_data c kn)\<lparr>kn_status := st\<rparr>) \<and>
    KN_ACTIVE \<in> st \<and> (KN_DISABLED \<in> st \<longleftrightarrow> KN_DISABLED \<in> kn_status kn)"
proof -
  have kn: "kn_of s (q, k) = kn" "\<not> kn_in_flux kn"
    using assms(1,2) by (auto simp: kn_of_def kq_inv_def calm_def kn_in_flux_def)
  have "filt_eventfdread (q, k) 0 s = (True, kn_mod (q, k) (set_data c) s)"
    using assms(4-6) kn by (simp add: filt_eventfdread_def kn_efd_def Let_def word_gt_0)
  then have "knote_one kern_ops 0 False (q, k) s = kq_upd q (KNOTE_ACTIVATE k) (kn_mod (q, k) (set_data c) s)"
    using kn assms(3) by (simp add: knote_one_def Let_def)
  then show ?thesis
    using assms(2) by (auto simp: kq_upd_def kn_mod_def KNOTE_ACTIVATE_def Let_def st_set_def set_data_def
        intro: exI [of _ "insert KN_ACTIVE (kn_status kn)"] exI [of _ "insert KN_QUEUED (insert KN_ACTIVE (kn_status kn))"])
qed

lemma knote_fold_live:
  fixes s :: kworld
  assumes "kern_inv s" "\<forall>p \<in> set ps. live s p" "live s p'"
  shows "live (fold (knote_one kern_ops h nl) ps s) p'"
  using assms knote_one_live by (induction ps arbitrary: s) auto

lemma knote_fold_count:
  fixes s :: kworld
  assumes "kern_inv s" "\<forall>p \<in> set ps. live s p" "distinct ps" "(q, k) \<in> set ps"
    and "kq_notes (kqs s q) k = Some kn" "kn_fop kn = Eventfd_rfiltops" "kn_hook kn = Some e"
    and "KN_DISABLED \<notin> kn_status kn" "c = efd_count (w_efd (k_w s) e)" "c \<noteq> 0"
    and "s' = fold (knote_one kern_ops 0 False) ps s"
  shows "kern_inv s' \<and> QNote k \<in> set (kq_head (kqs s' q)) \<and>
    (\<exists>st. kq_notes (kqs s' q) k = Some ((set_data c kn)\<lparr>kn_status := st\<rparr>) \<and> KN_DISABLED \<notin> st)"
proof -
  obtain xs ys where ps: "ps = xs @ (q, k) # ys" "(q, k) \<notin> set xs" "(q, k) \<notin> set ys"
    using assms(3,4) by (auto simp: in_set_conv_decomp)
  define s1 where "s1 = fold (knote_one kern_ops 0 False) xs s"
  have s1: "kern_inv s1" "kq_notes (kqs s1 q) k = Some kn" "w_efd (k_w s1) = w_efd (k_w s)" "\<forall>p \<in> set ps. live s1 p"
    using assms(1,2,5) ps kf.knote_fold_ok [of s xs] knote_fold_other [of s xs q k] knote_fold_live [of s xs]
    by (auto simp: s1_def knote_fold_efd)
  define s2 where "s2 = knote_one kern_ops 0 False (q, k) s1"
  have q1: "kq_inv (kqs s1 q)"
    using s1(1) by (simp add: kern_inv_def)
  obtain st where st: "kq_notes (kqs s2 q) k = Some ((set_data c kn)\<lparr>kn_status := st\<rparr>)" "KN_ACTIVE \<in> st" "KN_DISABLED \<notin> st"
    using knote_one_count [OF q1 s1(2) assms(6,7), of c] s1(3) assms(8-10) by (auto simp: s2_def)
  have s2: "kern_inv s2" "\<forall>p \<in> set ys. live s2 p"
    using knote_one_live [OF s1(1)] s1(4) ps(1) by (auto simp: s2_def)
  have s': "s' = fold (knote_one kern_ops 0 False) ys s2"
    by (simp add: assms(11) ps(1) s1_def s2_def)
  have n: "kq_notes (kqs s' q) k = Some ((set_data c kn)\<lparr>kn_status := st\<rparr>)"
    using knote_fold_other [OF s2 ps(3)] st(1) by (simp add: s')
  have inv: "kern_inv s'"
    using kf.knote_fold_ok [OF s2] by (simp add: s')
  then have "kq_alloc {} (kqs s' q)"
    by (simp add: kern_inv_def kq_alloc_empty)
  then show ?thesis
    using n inv st(2,3) queued_pending [of "{}" "kqs s' q" k] by (auto simp: has_st_def)
qed

text \<open>The knotes of an eventfd, as \<open>eventfd_kqfilter\<close> attaches them.\<close>

definition efd_watch :: "nat \<Rightarrow> kworld \<Rightarrow> bool" where
  "efd_watch e s \<longleftrightarrow> distinct (knl_get (Knl_efd e) s) \<and> (\<forall>p \<in> set (knl_get (Knl_efd e) s). live s p)"

text \<open>
  C25: A write is seen by everyone who watches: when it has gone through and the count is not
  zero, every enabled knote that watches the eventfd for reading is in the pending queue of its
  kqueue, with the new count as its data.
\<close>

theorem eventfd_write_wakes:
  assumes "kern_inv s" "efd_watch e s" "e = fp_efd s fp"
    and "eventfd_write fp uio mem s = Some (KRet 0, uio', s')" "efd_val e s' \<noteq> 0"
    and "(q, k) \<in> set (knl_get (Knl_efd e) s)" "kq_notes (kqs s q) k = Some kn"
    and "kn_fop kn = Eventfd_rfiltops" "kn_hook kn = Some e" "KN_DISABLED \<notin> kn_status kn"
  shows "QNote k \<in> set (kq_head (kqs s' q)) \<and>
    (\<exists>kn'. kq_notes (kqs s' q) k = Some kn' \<and> unat (ke_data (kn_kevent kn')) = efd_val e s')"
proof -
  obtain count where s': "s' = efd_notify e (efd_upd e (\<lambda>efd. efd\<lparr>efd_count := efd_count efd + count\<rparr>) s)"
    using assms(3,4)
    by (auto simp: eventfd_write_def eventfd_write_retry_def Let_def split: if_splits option.splits)
  define u where "u = efd_upd e (\<lambda>efd. efd\<lparr>efd_count := efd_count efd + count\<rparr>) s"
  have u: "kqs u = kqs s" "knl_get (Knl_efd e) u = knl_get (Knl_efd e) s"
    by (simp_all add: u_def efd_upd_def w_upd_def knl_get_def)
  define c where "c = efd_count (w_efd (k_w u) e)"
  have c: "efd_val e s' = unat c"
    by (simp add: s' u_def [symmetric] c_def efd_val_def efd_notify_efd)
  let ?f = "fold (knote_one kern_ops 0 False) (knl_get (Knl_efd e) u) u"
  have "QNote k \<in> set (kq_head (kqs ?f q)) \<and> (\<exists>kn'. kq_notes (kqs ?f q) k = Some kn' \<and> ke_data (kn_kevent kn') = c)"
  proof -
    have w: "kern_inv u" "\<forall>p \<in> set (knl_get (Knl_efd e) u). live u p" "distinct (knl_get (Knl_efd e) u)"
      "(q, k) \<in> set (knl_get (Knl_efd e) u)" "kq_notes (kqs u q) k = Some kn"
      using assms(1,2,6,7) by (simp_all add: kern_inv_def efd_watch_def live_def u)
    have "c \<noteq> 0"
      using assms(5) c by auto
    then show ?thesis
      using knote_fold_count [OF w assms(8-10) c_def _ refl] by (auto simp: set_data_def)
  qed
  moreover have "kqs s' = kqs ?f"
    by (simp add: s' u_def [symmetric] efd_notify_def knote_list_def) (simp add: efd_upd_def w_upd_def)
  ultimately show ?thesis
    using c by auto
qed

text \<open>An eventfd at descriptor 4 with count 0, and a knote on it in the first kqueue.\<close>

definition efd_boot :: kworld where
  "efd_boot = snd (sys___specialfd (Inr 7) (Inr 4) 0 SPECIALFD_EVENTFD 8 0 0 boot)"

definition efd_add :: kevent where
  "efd_add = EV_SET 4 EVFILT_READ EV_ADD 0 0 0"

definition efd_one :: kworld where
  "efd_one = snd (snd (kqueue_register kern_ops 0 efd_add True efd_boot))"

lemmas efd_eval = efd_boot_def efd_add_def sys___specialfd_def kern_specialfd_def eventfd_create_file_def file_upd_def
  efd_upd_def w_upd_def knl_upd_def knl_get_def fget_def fdrop_def kq_find_fd_def filt_fileattach_def
  eventfd_kqfilter_def knlist_add_def filt_eventfdread_def set_data_def kn_efd_def kn_fdata_def kq_grow.simps kq_eval

lemma efd_one_ret: "fst (kqueue_register kern_ops 0 efd_add True efd_boot) = KRet 0"
  by (simp add: efd_eval)

lemma efd_boot_kqs: "kqs efd_boot = (\<lambda>_. kqueue_init)"
  by (simp add: efd_eval fun_eq_iff)

lemma efd_one_inv: "kern_inv efd_one"
proof -
  obtain kev where r: "kqueue_register kern_ops 0 efd_add True efd_boot = (KRet 0, kev, efd_one)"
    using efd_one_ret by (cases "kqueue_register kern_ops 0 efd_add True efd_boot") (auto simp: efd_one_def)
  have "kern_inv efd_boot"
    by (simp add: kern_inv_def efd_boot_kqs kq_inv_init)
  moreover have "kq_inv (kqs efd_one 0) \<and> kq_keep 0 efd_boot efd_one"
    using r by (rule kf.register_inv [rotated]) (simp add: efd_boot_kqs kq_inv_init)
  ultimately show ?thesis
    using kq_keep_env kern_invI by blast
qed

lemma efd_one_state:
  "knl_get (Knl_efd 0) efd_one = [(0, 0)]" "fp_efd efd_one 7 = 0" "\<not> f_nonblock (k_files efd_one 7)"
  "efd_count (w_efd (k_w efd_one) 0) = 0"
  "case kq_notes (kqs efd_one 0) 0 of None \<Rightarrow> False
   | Some kn \<Rightarrow> kn_fop kn = Eventfd_rfiltops \<and> kn_hook kn = Some 0 \<and> KN_DISABLED \<notin> kn_status kn"
  by (simp_all add: efd_one_def fp_efd_def efd_eval)

theorem eventfd_write_wakes_witness:
  "\<exists>uio' s'. eventfd_write 7 (uio8 UIO_WRITE) ((\<lambda>_. 0)(64 := 4)) efd_one = Some (KRet 0, uio', s') \<and>
     QNote 0 \<in> set (kq_head (kqs s' 0))"
proof -
  let ?m = "(\<lambda>_. 0)(64 := 4) :: memory"
  obtain bs uio1 where b: "uiomove (replicate 8 0) 8 (uio8 UIO_WRITE) ?m = Some (bs, uio1, ?m)" "le_word bs = 4"
    using uiomove_value [of "uio8 UIO_WRITE" 4 ?m] uio8_good [of UIO_WRITE] by (auto simp: uio_good_def uio_value_def)
  obtain s' where w: "eventfd_write 7 (uio8 UIO_WRITE) ?m efd_one = Some (KRet 0, uio1, s')"
    "s' = efd_notify 0 (efd_upd 0 (\<lambda>efd. efd\<lparr>efd_count := efd_count efd + 4\<rparr>) efd_one)"
    using b by (simp add: eventfd_write_def eventfd_write_retry_def Let_def uio8_good(2) efd_one_state)
  obtain kn where kn: "kq_notes (kqs efd_one 0) 0 = Some kn" "kn_fop kn = Eventfd_rfiltops" "kn_hook kn = Some 0"
    "KN_DISABLED \<notin> kn_status kn"
    using efd_one_state(5) by (auto split: option.splits)
  have "efd_val 0 s' \<noteq> 0"
    by (simp add: w(2) efd_val_def efd_notify_efd) (simp add: efd_upd_def w_upd_def efd_one_state)
  moreover have "efd_watch 0 efd_one"
    using kn(1) by (simp add: efd_watch_def efd_one_state live_def)
  ultimately have "QNote 0 \<in> set (kq_head (kqs s' 0))"
    using eventfd_write_wakes [OF efd_one_inv _ _ w(1) _ _ kn(1-4)] by (simp add: efd_one_state)
  then show ?thesis
    using w(1) by blast
qed

end
