(* ===== verification/Epoll_Props.thy ===== *)
theory Epoll_Props
  imports Epoll Eventfd_Props
begin

text \<open>
  What the epoll interface guarantees on top of the event queue: which knotes a successful
  \<open>vos_epoll_ctl\<close> leaves, and what \<open>vos_epoll_wait\<close> stores in the caller's array.
\<close>

section \<open>The changes of a call\<close>

lemma timertouch_flags: "fst (filt_timertouch EVENT_REGISTER p kev s) = kev"
  by (simp add: filt_timertouch_def Let_def)

lemma touch_flags: "f_touch (kern_ops t) EVENT_REGISTER p kev s = (kev', s') \<Longrightarrow> ke_flags kev' = ke_flags kev"
  using timertouch_flags [of p kev s]
  by (cases t) (auto simp: filt_usertouch_def Let_def)

lemma register_flags:
  assumes "kqueue_register kern_ops q kev waitok s = (r, kev', s')"
  shows "ke_flags kev' = ke_flags kev"
proof -
  have "ke_flags k1 = ke_flags kev" if "kqueue_reg_update kern_ops p fops kev u = (k1, u1)" for p fops u k1 u1
    using that by (auto simp: kqueue_reg_update_def Let_def touch_flags split: if_splits prod.splits)
  moreover have "ke_flags k1 = ke_flags kev" if "kqueue_reg_add kern_ops p fops fpo kev u = (e, t, k1, u1)" for p fops fpo u e t k1 u1
    using that by (auto simp: kqueue_reg_add_def Let_def split: if_splits prod.splits)
  ultimately show ?thesis
    using assms unfolding kqueue_register_def Let_def
    by (auto split: if_splits prod.splits option.splits findres.splits)
qed

text \<open>A change the kernel takes as it is: it has a filter and none of the flags that are masked or special.\<close>

definition plain_change :: "kevent \<Rightarrow> bool" where
  "plain_change kev \<longleftrightarrow>
     ke_filter kev \<noteq> 0 \<and> ke_flags kev AND NOT EV_SYSFLAGS = ke_flags kev \<and> \<not> fl (ke_flags kev) EV_RECEIPT"

lemma changes_Cons_plain:
  assumes "plain_change kev" "kqueue_changes kern_ops cops q (kev # kevs) 0 nerrors u s = (x, u', s')"
  shows "(\<exists>kev1 s1. kqueue_register kern_ops q kev True s = (KRet 0, kev1, s1) \<and>
      kqueue_changes kern_ops cops q kevs 0 nerrors u s1 = (x, u', s')) \<or> (\<exists>e. x = Ch_ret e \<and> e \<noteq> 0) \<or> x = Ch_sleep"
proof -
  obtain r kev1 s1 where reg: "kqueue_register kern_ops q kev True s = (r, kev1, s1)"
    by (metis prod_cases3)
  have "kev\<lparr>ke_flags := ke_flags kev AND NOT EV_SYSFLAGS\<rparr> = kev" "\<not> fl (ke_flags kev1) EV_RECEIPT"
    using assms(1) register_flags [OF reg] by (simp_all add: plain_change_def)
  then show ?thesis
    using assms reg by (auto simp: plain_change_def Let_def split: kres.splits if_splits)
qed

lemma kevent_two:
  assumes "kqueue_kevent kern_ops cops clk td q 2 0 tsp u s = (Scan_ret 0, u', s')"
    and "k_copyin cops 2 u = (0, [k1, k2], u1)" "plain_change k1" "plain_change k2"
  shows "\<exists>ka kb s1 s2. kqueue_register kern_ops q k1 True s = (KRet 0, ka, s1) \<and>
    kqueue_register kern_ops q k2 True s1 = (KRet 0, kb, s2) \<and> s' = s2\<lparr>k_retval := 0\<rparr>"
proof -
  obtain x u2 s2 where c: "kqueue_changes kern_ops cops q [k1, k2] 0 0 u1 s = (x, u2, s2)"
    by (metis prod_cases3)
  have "kqueue_batches kern_ops cops q 2 0 0 u s = (x, u2, s2)"
    using c assms(2) by (cases x) (simp_all add: kqueue_batches.simps)
  then have x: "x = Ch_ret 0 \<or> (\<exists>ne nr. x = Ch_go ne nr)"
    using assms(1) by (auto simp: kqueue_kevent_def split: chres.splits)
  obtain ka s1 where 1: "kqueue_register kern_ops q k1 True s = (KRet 0, ka, s1)"
    "kqueue_changes kern_ops cops q [k2] 0 0 u1 s1 = (x, u2, s2)"
    using changes_Cons_plain [OF assms(3) c] x by auto
  obtain kb where 2: "kqueue_register kern_ops q k2 True s1 = (KRet 0, kb, s2)" "x = Ch_go 0 0"
    using changes_Cons_plain [OF assms(4) 1(2)] x by auto
  have "kqueue_kevent kern_ops cops clk td q 2 0 tsp u s = (Scan_ret 0, u2, s2\<lparr>k_retval := 0\<rparr>)"
    using \<open>kqueue_batches kern_ops cops q 2 0 0 u s = (x, u2, s2)\<close> 2(2)
    by (simp add: kqueue_kevent_def kqueue_scan_def)
  then show ?thesis
    using 1(1) 2(1) assms(1) by auto
qed

text \<open>The kqueue of a descriptor, and the parts of it that a reference does not touch.\<close>

definition kq_fd :: "'w kern \<Rightarrow> int \<Rightarrow> nat \<Rightarrow> bool" where
  "kq_fd s fd q \<longleftrightarrow> 0 \<le> fd \<and> (\<exists>fp. k_fdt s (nat fd) = Some fp \<and> f_type (k_files s fp) = DTYPE_KQUEUE \<and>
     f_data (k_files s fp) = Some q \<and> KQ_CLOSING \<notin> kq_state (kqs s q))"

definition same_notes :: "kqueue \<Rightarrow> kqueue \<Rightarrow> bool" where
  "same_notes a b \<longleftrightarrow> kq_notes b = kq_notes a \<and> (kq_inv b \<longleftrightarrow> kq_inv a) \<and> (uniq_ok {} b \<longleftrightarrow> uniq_ok {} a) \<and>
     marks b = marks a \<and> kq_head b = kq_head a"

lemma same_notes_refcnt: "same_notes kq (kq\<lparr>kq_refcnt := n\<rparr>)"
  by (simp add: same_notes_def kq_inv_def queue_ok_def index_ok_def ready_ok_def fresh_ok_def calm_def
      uniq_ok_def marks_def has_st_def kn_klist_def)

lemma kern_kevent_run:
  assumes "kq_fd s fd q" "kern_kevent ops cops clk td fd nchanges nevents tsp u s = (r, u', s')"
  shows "\<exists>sa sb. kqueue_kevent ops cops clk td q nchanges nevents tsp u sa = (r, u', sb) \<and> k_w sa = k_w s \<and>
    same_notes (kqs s q) (kqs sa q) \<and> same_notes (kqs sb q) (kqs s' q) \<and>
    (r \<in> range Scan_ret \<longrightarrow> k_retval s' = k_retval sb)"
proof -
  obtain fp where fp: "k_fdt s (nat fd) = Some fp" "f_type (k_files s fp) = DTYPE_KQUEUE"
    "f_data (k_files s fp) = Some q" "KQ_CLOSING \<notin> kq_state (kqs s q)" "0 \<le> fd"
    using assms(1) by (auto simp: kq_fd_def)
  define s0 where "s0 = file_upd fp (\<lambda>f. f\<lparr>f_count := f_count f + 1\<rparr>) s"
  define sa where "sa = kq_upd q (\<lambda>kq. kq\<lparr>kq_refcnt := kq_refcnt kq + 1\<rparr>) s0"
  obtain r1 u1 sb where k: "kqueue_kevent ops cops clk td q nchanges nevents tsp u sa = (r1, u1, sb)"
    by (metis prod_cases3)
  have f: "fget (nat fd) s = (Inr fp, s0)" "kqueue_acquire fp s0 = (Inr q, sa)"
    using fp by (simp_all add: fget_def s0_def kqueue_acquire_def file_upd_def sa_def)
  have "r1 = r" "u1 = u'" and s': "s' = (if r \<in> range Scan_ret then fdrop fp (kqueue_release q sb) else sb)"
    using assms(2) fp(5) f k by (auto simp: kern_kevent_def kern_kevent_fp_def split: scanres.splits)
  moreover have "kqs sa q = (kqs s q)\<lparr>kq_refcnt := kq_refcnt (kqs s q) + 1\<rparr>"
    by (simp add: sa_def s0_def kq_upd_def file_upd_def)
  then have "same_notes (kqs s q) (kqs sa q)"
    by (simp add: same_notes_refcnt)
  moreover have "same_notes (kqs sb q) (kqs s' q)" "r \<in> range Scan_ret \<longrightarrow> k_retval s' = k_retval sb"
    unfolding s' by (auto simp: kqueue_release_def fdrop_def kq_upd_def file_upd_def same_notes_refcnt)
      (simp add: same_notes_def)
  moreover have "k_w sa = k_w s"
    by (simp add: sa_def s0_def kq_upd_def file_upd_def)
  ultimately show ?thesis
    using k by blast
qed

section \<open>Adding, changing and deleting\<close>

text \<open>There is a knote for an identifier and a filter, and it is enabled as said.\<close>

definition kn_watch :: "kqueue \<Rightarrow> u64 \<Rightarrow> int \<Rightarrow> bool \<Rightarrow> bool" where
  "kn_watch kq i filt en \<longleftrightarrow>
     (\<exists>k kn. kq_notes kq k = Some kn \<and> kn_id kn = i \<and> kn_filter kn = filt \<and> (KN_DISABLED \<in> kn_status kn \<longleftrightarrow> \<not> en))"

text \<open>Two kqueues have the same knotes apart from those a predicate picks.\<close>

definition same_but :: "(knote \<Rightarrow> bool) \<Rightarrow> kqueue \<Rightarrow> kqueue \<Rightarrow> bool" where
  "same_but P a b \<longleftrightarrow> (\<forall>k kn. \<not> P kn \<longrightarrow> (kq_notes b k = Some kn \<longleftrightarrow> kq_notes a k = Some kn))"

lemma reg_watch:
  assumes "kq_inv (kqs s q)" "kqueue_register kern_ops q kev waitok s = (KRet 0, kev', s')"
    and "\<not> fl (ke_flags kev) EV_DELETE" "fl (ke_flags kev) EV_ENABLE \<longleftrightarrow> en" "fl (ke_flags kev) EV_DISABLE \<longleftrightarrow> \<not> en"
  shows "kq_inv (kqs s' q)" "kn_watch (kqs s' q) (ke_ident kev) (ke_filter kev) en"
    "same_but (\<lambda>kn. kn_id kn = ke_ident kev \<and> kn_filter kn = ke_filter kev) (kqs s q) (kqs s' q)"
proof -
  note oc = kf.register_outcome [OF assms(1,2)]
  show "kq_inv (kqs s' q)"
    using oc by simp
  obtain fops where "reg_changed fops kev (kqs s q) (kqs s' q) (KRet 0) \<or> reg_added fops kev (kqs s q) (kqs s' q) (KRet 0)"
    using oc by (auto simp: reg_none_def)
  then obtain k kn' where k: "kq_notes (kqs s' q) k = Some kn'" "kn_key kn' = (ke_ident kev, ke_filter kev, f_isfd fops)"
    "KN_DISABLED \<in> kn_status kn' \<longleftrightarrow> \<not> en" "notes_but k (kqs s q) (kqs s' q)"
    "\<forall>kn. kq_notes (kqs s q) k = Some kn \<longrightarrow> kn_key kn = (ke_ident kev, ke_filter kev, f_isfd fops)"
  proof
    assume "reg_changed fops kev (kqs s q) (kqs s' q) (KRet 0)"
    then show ?thesis
      unfolding reg_changed_def using assms(3-5) by (metis option.inject that)
  next
    assume "reg_added fops kev (kqs s q) (kqs s' q) (KRet 0)"
    then show ?thesis
      unfolding reg_added_def using assms(5) by (metis option.distinct(1) that)
  qed
  then show "kn_watch (kqs s' q) (ke_ident kev) (ke_filter kev) en"
    by (auto simp: kn_watch_def kn_key_def)
  show "same_but (\<lambda>kn. kn_id kn = ke_ident kev \<and> kn_filter kn = ke_filter kev) (kqs s q) (kqs s' q)"
    unfolding same_but_def
  proof (intro allI impI)
    fix j kn
    assume "\<not> (kn_id kn = ke_ident kev \<and> kn_filter kn = ke_filter kev)"
    then show "kq_notes (kqs s' q) j = Some kn \<longleftrightarrow> kq_notes (kqs s q) j = Some kn"
      using k by (cases "j = k") (auto simp: notes_but_def kn_key_def)
  qed
qed

lemma same_but_trans:
  "same_but P a b \<Longrightarrow> same_but Q b c \<Longrightarrow> same_but (\<lambda>kn. P kn \<or> Q kn) a c"
  by (simp add: same_but_def)

lemma same_but_watch:
  "same_but P a b \<Longrightarrow> (\<And>kn. kn_id kn = i \<Longrightarrow> kn_filter kn = filt \<Longrightarrow> \<not> P kn) \<Longrightarrow>
   kn_watch a i filt en \<Longrightarrow> kn_watch b i filt en"
  unfolding same_but_def kn_watch_def by blast

lemma same_notes_watch:
  "same_notes a b \<Longrightarrow> kn_watch b i filt en = kn_watch a i filt en"
  "same_notes a b \<Longrightarrow> same_but P c b = same_but P c a" "same_notes a b \<Longrightarrow> same_but P b c = same_but P a c"
  by (simp_all add: same_notes_def kn_watch_def same_but_def)

lemma epoll_changes_set:
  assumes "op = SO_EPOLL_CTL_ADD \<or> op = SO_EPOLL_CTL_MOD"
  obtains rf wf where "epoll_changes op fd (Some ev) =
      [EV_SET (word_of_int fd) EVFILT_READ rf 0 0 (ep_data ev), EV_SET (word_of_int fd) EVFILT_WRITE wf 0 0 (ep_data ev)]"
    "rf AND NOT EV_SYSFLAGS = rf" "\<not> fl rf EV_RECEIPT" "\<not> fl rf EV_DELETE"
    "fl rf EV_ENABLE \<longleftrightarrow> fl (ep_events ev) SO_EPOLLIN" "fl rf EV_DISABLE \<longleftrightarrow> \<not> fl (ep_events ev) SO_EPOLLIN"
    "wf AND NOT EV_SYSFLAGS = wf" "\<not> fl wf EV_RECEIPT" "\<not> fl wf EV_DELETE"
    "fl wf EV_ENABLE \<longleftrightarrow> fl (ep_events ev) SO_EPOLLOUT" "fl wf EV_DISABLE \<longleftrightarrow> \<not> fl (ep_events ev) SO_EPOLLOUT"
proof -
  define g :: "bool \<Rightarrow> u16" where "g b = (let flags = (if fl (ep_events ev) SO_EPOLLET then EV_CLEAR else 0) OR
      (if fl (ep_events ev) SO_EPOLLONESHOT then EV_ONESHOT else 0) OR (if op = SO_EPOLL_CTL_ADD then EV_ADD else 0)
    in if b then ((flags OR EV_DISABLE) AND NOT EV_DISABLE) OR EV_ENABLE else flags OR EV_DISABLE)" for b
  have "g b AND NOT EV_SYSFLAGS = g b" "\<not> fl (g b) EV_RECEIPT" "\<not> fl (g b) EV_DELETE"
    "fl (g b) EV_ENABLE \<longleftrightarrow> b" "fl (g b) EV_DISABLE \<longleftrightarrow> \<not> b" for b
    by (cases "fl (ep_events ev) SO_EPOLLET"; cases "fl (ep_events ev) SO_EPOLLONESHOT"; cases "op = SO_EPOLL_CTL_ADD"; cases b;
        simp add: g_def Let_def; simp add: fl_def)+
  then show ?thesis
    using assms by (intro that [of "g (fl (ep_events ev) SO_EPOLLIN)" "g (fl (ep_events ev) SO_EPOLLOUT)"])
      (auto simp: epoll_changes_def g_def Let_def)
qed

lemma ff_kevent_two:
  assumes "kq_fd s epfd q" "vos_epoll_ctl kern_ops clk td epfd op fd event s = (FF_ret 0, s')"
    and "epoll_changes op fd event = [k1, k2]" "plain_change k1" "plain_change k2"
  shows "\<exists>ka kb sa s1 s2. kqueue_register kern_ops q k1 True sa = (KRet 0, ka, s1) \<and>
    kqueue_register kern_ops q k2 True s1 = (KRet 0, kb, s2) \<and>
    same_notes (kqs s q) (kqs sa q) \<and> same_notes (kqs s2 q) (kqs s' q)"
proof -
  let ?ska = "\<lparr>ska_changelist = [k1, k2], ska_eventlist = \<lambda>_. EV_SET 0 0 0 0 0 0, ska_next = 0,
    ska_do_each = \<lambda>ke _. ke, ska_sent = []\<rparr>"
  let ?cops = "\<lparr>k_copyout = ff_kevent_copyout, k_copyin = ff_kevent_copyin\<rparr>"
  obtain r u1 s1 where k: "kern_kevent kern_ops ?cops clk td epfd 2 0 None ?ska s = (r, u1, s1)"
    by (metis prod_cases3)
  have rs: "r = Scan_ret 0" "s1 = s'"
    using assms(2,3) k
    by (auto simp: vos_epoll_ctl_def ff_kevent_def ff_kevent_do_each_def split: if_splits scanres.splits)
  obtain sa sb where run: "kqueue_kevent kern_ops ?cops clk td q 2 0 None ?ska sa = (Scan_ret 0, u1, sb)"
    "same_notes (kqs s q) (kqs sa q)" "same_notes (kqs sb q) (kqs s' q)"
    using kern_kevent_run [OF assms(1) k] rs by auto
  obtain ka kb t1 t2 where "kqueue_register kern_ops q k1 True sa = (KRet 0, ka, t1)"
    "kqueue_register kern_ops q k2 True t1 = (KRet 0, kb, t2)" "sb = t2\<lparr>k_retval := 0\<rparr>"
    using kevent_two [OF run(1) _ assms(4,5)] by (auto simp: ff_kevent_copyin_def)
  then show ?thesis
    using run(2,3) by (metis kern.select_convs(1) kern.surjective kern.update_convs(8))
qed

text \<open>
  C26: When \<open>vos_epoll_ctl\<close> has added or changed a descriptor with success, the kqueue has a
  knote for reading on it, enabled if and only if \<open>EPOLLIN\<close> was asked for, and one for
  writing, enabled if and only if \<open>EPOLLOUT\<close> was asked for; every other knote is
  untouched and the kqueue is in order.
\<close>

theorem epoll_ctl_watch:
  assumes "kq_fd s epfd q" "kq_inv (kqs s q)"
    and "vos_epoll_ctl kern_ops clk td epfd op fd (Some ev) s = (FF_ret 0, s')" "op \<noteq> SO_EPOLL_CTL_DEL"
  shows "kq_inv (kqs s' q) \<and>
    kn_watch (kqs s' q) (word_of_int fd) EVFILT_READ (fl (ep_events ev) SO_EPOLLIN) \<and>
    kn_watch (kqs s' q) (word_of_int fd) EVFILT_WRITE (fl (ep_events ev) SO_EPOLLOUT) \<and>
    same_but (\<lambda>kn. kn_id kn = word_of_int fd \<and> kn_filter kn \<in> {EVFILT_READ, EVFILT_WRITE}) (kqs s q) (kqs s' q)"
proof -
  have op: "op = SO_EPOLL_CTL_ADD \<or> op = SO_EPOLL_CTL_MOD"
    using assms(3,4) by (auto simp: vos_epoll_ctl_def split: if_splits)
  obtain rf wf where c: "epoll_changes op fd (Some ev) =
      [EV_SET (word_of_int fd) EVFILT_READ rf 0 0 (ep_data ev), EV_SET (word_of_int fd) EVFILT_WRITE wf 0 0 (ep_data ev)]"
    and rf: "rf AND NOT EV_SYSFLAGS = rf" "\<not> fl rf EV_RECEIPT" "\<not> fl rf EV_DELETE"
    "fl rf EV_ENABLE \<longleftrightarrow> fl (ep_events ev) SO_EPOLLIN" "fl rf EV_DISABLE \<longleftrightarrow> \<not> fl (ep_events ev) SO_EPOLLIN"
    and wf: "wf AND NOT EV_SYSFLAGS = wf" "\<not> fl wf EV_RECEIPT" "\<not> fl wf EV_DELETE"
    "fl wf EV_ENABLE \<longleftrightarrow> fl (ep_events ev) SO_EPOLLOUT" "fl wf EV_DISABLE \<longleftrightarrow> \<not> fl (ep_events ev) SO_EPOLLOUT"
    by (rule epoll_changes_set [OF op])
  let ?r = "EV_SET (word_of_int fd) EVFILT_READ rf 0 0 (ep_data ev)"
  let ?w = "EV_SET (word_of_int fd) EVFILT_WRITE wf 0 0 (ep_data ev)"
  have "plain_change ?r" "plain_change ?w"
    using rf(1,2) wf(1,2) by (simp_all add: plain_change_def EV_SET_def)
  then obtain ka kb sa s1 s2 where reg: "kqueue_register kern_ops q ?r True sa = (KRet 0, ka, s1)"
    "kqueue_register kern_ops q ?w True s1 = (KRet 0, kb, s2)"
    and sn: "same_notes (kqs s q) (kqs sa q)" "same_notes (kqs s2 q) (kqs s' q)"
    using ff_kevent_two [OF assms(1,3) c] by blast
  have "kq_inv (kqs sa q)"
    using sn(1) assms(2) by (simp add: same_notes_def)
  note w1 = reg_watch [OF this reg(1), of "fl (ep_events ev) SO_EPOLLIN"]
  note w2 = reg_watch [OF w1(1) reg(2), of "fl (ep_events ev) SO_EPOLLOUT"]
  have 1: "kq_inv (kqs s2 q)" "kn_watch (kqs s1 q) (word_of_int fd) EVFILT_READ (fl (ep_events ev) SO_EPOLLIN)"
    "kn_watch (kqs s2 q) (word_of_int fd) EVFILT_WRITE (fl (ep_events ev) SO_EPOLLOUT)"
    "same_but (\<lambda>kn. kn_id kn = word_of_int fd \<and> kn_filter kn = EVFILT_READ) (kqs sa q) (kqs s1 q)"
    "same_but (\<lambda>kn. kn_id kn = word_of_int fd \<and> kn_filter kn = EVFILT_WRITE) (kqs s1 q) (kqs s2 q)"
    using w1 w2 rf(3-5) wf(3-5) by (simp_all add: EV_SET_def)
  have "kn_watch (kqs s2 q) (word_of_int fd) EVFILT_READ (fl (ep_events ev) SO_EPOLLIN)"
    by (rule same_but_watch [OF 1(5) _ 1(2)]) simp
  moreover have "same_but (\<lambda>kn. kn_id kn = word_of_int fd \<and> kn_filter kn \<in> {EVFILT_READ, EVFILT_WRITE}) (kqs sa q) (kqs s2 q)"
    using same_but_trans [OF 1(4,5)] by (simp add: same_but_def conj_disj_distribL)
  ultimately show ?thesis
    using 1(1,3) sn by (simp add: same_notes_watch) (simp add: same_notes_def)
qed

definition ep_in :: vos_epoll_event where
  "ep_in = \<lparr>ep_events = SO_EPOLLIN, ep_data = 0\<rparr>"

definition ep_one :: kworld where
  "ep_one = snd (vos_epoll_ctl kern_ops clk0 0 3 SO_EPOLL_CTL_ADD 4 (Some ep_in) efd_boot)"

lemmas ep_eval = ep_in_def vos_epoll_ctl_def ff_kevent_def ff_kevent_do_each_def kern_kevent_def kern_kevent_fp_def
  kqueue_acquire_def kqueue_release_def kqueue_kevent_def kqueue_batches.simps kqueue_changes.simps ff_kevent_copyin_def
  epoll_changes_def kqueue_scan_def filt_eventfdwrite_def efd_eval

lemma ep_one_ret: "vos_epoll_ctl kern_ops clk0 0 3 SO_EPOLL_CTL_ADD 4 (Some ep_in) efd_boot = (FF_ret 0, ep_one)"
proof -
  have "fst (vos_epoll_ctl kern_ops clk0 0 3 SO_EPOLL_CTL_ADD 4 (Some ep_in) efd_boot) = FF_ret 0"
    by (simp add: ep_eval)
  then show ?thesis
    by (simp add: ep_one_def prod_eq_iff)
qed

lemma efd_boot_fd: "kq_fd efd_boot 3 0" "kq_inv (kqs efd_boot 0)"
  by (simp_all add: kq_fd_def efd_eval) (simp add: kq_inv_init [unfolded kqueue_init_def])

theorem epoll_ctl_watch_witness:
  "kn_watch (kqs ep_one 0) 4 EVFILT_READ True \<and> kn_watch (kqs ep_one 0) 4 EVFILT_WRITE False"
  using epoll_ctl_watch [OF efd_boot_fd ep_one_ret] by (simp add: ep_in_def fl_def)

lemma reg_delete:
  assumes "kq_inv (kqs s q)" "uniq_ok {} (kqs s q)"
    and "kqueue_register kern_ops q kev waitok s = (KRet 0, kev', s')"
    and "fl (ke_flags kev) EV_DELETE" "\<not> fl (ke_flags kev) EV_ADD"
  shows "kq_inv (kqs s' q)" "uniq_ok {} (kqs s' q)"
    "kn_gone (\<lambda>kn. kn_id kn = ke_ident kev \<and> kn_filter kn = ke_filter kev) (kqs s' q)"
    "same_but (\<lambda>kn. kn_id kn = ke_ident kev \<and> kn_filter kn = ke_filter kev) (kqs s q) (kqs s' q)"
proof -
  note oc = kf.register_outcome [OF assms(1,3)]
  obtain k a where k: "kq_notes (kqs s q) k = Some a" "kn_id a = ke_ident kev" "kn_filter a = ke_filter kev"
    "kq_notes (kqs s' q) = (kq_notes (kqs s q))(k := None)"
    using oc assms(4,5) by (auto simp: reg_none_def reg_changed_def reg_added_def kn_key_def)
  have uniq: "j = k" if "kq_notes (kqs s q) j = Some kn" "kn_id kn = ke_ident kev" "kn_filter kn = ke_filter kev" for j kn
    using assms(2) k(1-3) that unfolding uniq_ok_def by simp
  show "kq_inv (kqs s' q)"
    using oc by simp
  show "uniq_ok {} (kqs s' q)"
    using assms(2) k(4) by (simp add: uniq_ok_def)
  show "kn_gone (\<lambda>kn. kn_id kn = ke_ident kev \<and> kn_filter kn = ke_filter kev) (kqs s' q)"
    using k(4) uniq by (auto simp: kn_gone_def split: if_splits)
  show "same_but (\<lambda>kn. kn_id kn = ke_ident kev \<and> kn_filter kn = ke_filter kev) (kqs s q) (kqs s' q)"
    using k by (auto simp: same_but_def)
qed

text \<open>
  C27: When \<open>vos_epoll_ctl\<close> has deleted a descriptor with success, no knote of the kqueue
  watches it for reading or writing, and every other knote is untouched.
\<close>

theorem epoll_ctl_delete:
  assumes "kq_fd s epfd q" "kq_inv (kqs s q)" "uniq_ok {} (kqs s q)"
    and "vos_epoll_ctl kern_ops clk td epfd SO_EPOLL_CTL_DEL fd event s = (FF_ret 0, s')"
  shows "kq_inv (kqs s' q) \<and>
    kn_gone (\<lambda>kn. kn_id kn = word_of_int fd \<and> kn_filter kn \<in> {EVFILT_READ, EVFILT_WRITE}) (kqs s' q) \<and>
    same_but (\<lambda>kn. kn_id kn = word_of_int fd \<and> kn_filter kn \<in> {EVFILT_READ, EVFILT_WRITE}) (kqs s q) (kqs s' q)"
proof -
  let ?r = "EV_SET (word_of_int fd) EVFILT_READ EV_DELETE 0 0 0"
  let ?w = "EV_SET (word_of_int fd) EVFILT_WRITE EV_DELETE 0 0 0"
  have c: "epoll_changes SO_EPOLL_CTL_DEL fd event = [?r, ?w]"
    by (simp add: epoll_changes_def split: option.split)
  have p: "plain_change ?r" "plain_change ?w"
    by (simp_all add: plain_change_def EV_SET_def fl_def)
  obtain ka kb sa s1 s2 where reg: "kqueue_register kern_ops q ?r True sa = (KRet 0, ka, s1)"
    "kqueue_register kern_ops q ?w True s1 = (KRet 0, kb, s2)"
    and sn: "same_notes (kqs s q) (kqs sa q)" "same_notes (kqs s2 q) (kqs s' q)"
    using ff_kevent_two [OF assms(1,4) c p] by blast
  have "kq_inv (kqs sa q)" "uniq_ok {} (kqs sa q)"
    using sn(1) assms(2,3) by (simp_all add: same_notes_def)
  note d1 = reg_delete [OF this reg(1), simplified EV_SET_def fl_def, simplified]
  note d2 = reg_delete [OF d1(1,2) reg(2), simplified EV_SET_def fl_def, simplified]
  have "kn_gone (\<lambda>kn. kn_id kn = word_of_int fd \<and> kn_filter kn \<in> {EVFILT_READ, EVFILT_WRITE}) (kqs s2 q)"
    unfolding kn_gone_def
  proof (intro allI impI)
    fix k kn
    assume kn: "kq_notes (kqs s2 q) k = Some kn"
    show "\<not> (kn_id kn = word_of_int fd \<and> kn_filter kn \<in> {EVFILT_READ, EVFILT_WRITE})"
    proof (cases "kn_filter kn = EVFILT_READ")
      case True
      then have "kq_notes (kqs s1 q) k = Some kn"
        using d2(4) kn by (auto simp: same_but_def)
      then show ?thesis
        using d1(3) True by (auto simp: kn_gone_def)
    next
      case False
      then show ?thesis
        using d2(3) kn by (auto simp: kn_gone_def)
    qed
  qed
  moreover have "same_but (\<lambda>kn. kn_id kn = word_of_int fd \<and> kn_filter kn \<in> {EVFILT_READ, EVFILT_WRITE}) (kqs sa q) (kqs s2 q)"
    using same_but_trans [OF d1(4) d2(4)] by (simp add: same_but_def conj_disj_distribL)
  ultimately show ?thesis
    using d2(1) sn by (simp add: same_notes_watch) (simp add: same_notes_def kn_gone_def)
qed

text \<open>The kqueue after the call, and what else of the state it has changed.\<close>

definition ep_kn :: "int \<Rightarrow> filtop \<Rightarrow> knflag set \<Rightarrow> knote" where
  "ep_kn filt fop st = zero_knote\<lparr>kn_kevent := EV_SET 4 filt 0 0 0 0, kn_fop := fop, kn_status := st,
     kn_hook := Some 0, kn_knlist := Some (Knl_efd 0), kn_fp := Some 7\<rparr>"

lemma ep_one_state:
  "kqs ep_one 0 = kqueue_init\<lparr>kq_knlistsize := 256, kq_knlist := (\<lambda>_. [])(4 := [1, 0]), kq_fresh := 2,
     kq_notes := [0 \<mapsto> ep_kn EVFILT_READ Eventfd_rfiltops {}, 1 \<mapsto> ep_kn EVFILT_WRITE Eventfd_wfiltops {KN_DISABLED}]\<rparr>"
  "k_knl ep_one = (\<lambda>_. [])(Knl_efd 0 := [(0, 1), (0, 0)])" "k_fdt ep_one = [3 \<mapsto> 0, 4 \<mapsto> 7]"
  "k_filt ep_one = sysfilt_ops" "f_type (k_files ep_one 0) = DTYPE_KQUEUE" "f_data (k_files ep_one 0) = Some 0"
  "f_type (k_files ep_one 7) = DTYPE_EVENTFD"
  by (simp_all add: ep_one_def ep_eval ep_kn_def)

lemma ep_one_inv: "kq_inv (kqs ep_one 0)" "uniq_ok {} (kqs ep_one 0)" "marks (kqs ep_one 0) = []" "kq_fd ep_one 3 0"
  by (auto simp: ep_one_state kqueue_init_def ep_kn_def zero_knote_def EV_SET_def kq_inv_def queue_ok_def index_ok_def
      ready_ok_def fresh_ok_def calm_def uniq_ok_def has_st_def marks_def kq_fd_def kn_klist_def split: if_splits)

text \<open>A deletion on a descriptor that is open and watched, step by step.\<close>

lemma register_delete_fd:
  assumes "kq_find_fd (kqs s q) (ke_ident kev) (ke_filter kev) = Some k" "\<not> kn_in_flux (kn_of s (q, k))"
    and "ke_flags kev = EV_DELETE" "unat (ke_ident kev) \<le> INT_MAX" "k_fdt s (unat (ke_ident kev)) = Some fp"
    and "f_type (k_files s fp) \<noteq> DTYPE_KQUEUE" "kqueue_fo_find (ke_filter kev) s = (Some fops, s)" "f_isfd fops"
    and "s1 = file_upd fp (\<lambda>f. f\<lparr>f_count := f_count f + 1\<rparr>) s"
  shows "kqueue_register ops q kev waitok s = (KRet 0, kev, kqueue_fo_release (ke_filter kev)
    (fdrop fp (knote_drop ops (q, k) (kq_upd q (kn_enter_flux k) s1))))"
proof -
  have g: "fget (unat (ke_ident kev)) s = (Inr fp, s1)"
    by (simp add: fget_def assms(5,9))
  have fl: "\<not> fl (ke_flags kev) EV_ADD" "\<not> fl (ke_flags kev) EV_ENABLE" "fl (ke_flags kev) EV_DELETE"
    by (simp_all add: assms(3) fl_def)
  have "kqueue_findkn fops q waitok kev s = Found (Some fp) (Some k) s1"
    using kqueue_findkn_ready [OF assms(8,4) g, of q waitok] fl assms(1,2,6)
    by (simp add: kqueue_flux_check_def assms(9) file_upd_def kn_of_def)
  moreover have "kq_upd q (\<lambda>_. kqs s q) s = s"
    by (simp add: kq_upd_def fun_upd_idem)
  ultimately show ?thesis
    using fl assms(7)
    by (simp add: kqueue_register_def kqueue_reg_update_def fdrop_opt_def) (simp add: kq_upd_def knote_free_def)
qed

lemma epoll_ctl_run:
  assumes "0 \<le> epfd" "k_fdt s (nat epfd) = Some fp" "f_type (k_files s fp) = DTYPE_KQUEUE" "f_data (k_files s fp) = Some q"
    and "KQ_CLOSING \<notin> kq_state (kqs s q)"
    and "sa = kq_upd q (\<lambda>kq. kq\<lparr>kq_refcnt := kq_refcnt kq + 1\<rparr>) (file_upd fp (\<lambda>f. f\<lparr>f_count := f_count f + 1\<rparr>) s)"
    and "epoll_changes SO_EPOLL_CTL_DEL fd event = [k1, k2]" "plain_change k1" "plain_change k2"
    and "kqueue_register kern_ops q k1 True sa = (KRet 0, k1, s1)" "kqueue_register kern_ops q k2 True s1 = (KRet 0, k2, s2)"
  shows "fst (vos_epoll_ctl kern_ops clk td epfd SO_EPOLL_CTL_DEL fd event s) = FF_ret 0"
proof -
  have f: "fget (nat epfd) s = (Inr fp, file_upd fp (\<lambda>f. f\<lparr>f_count := f_count f + 1\<rparr>) s)"
    "kqueue_acquire fp (file_upd fp (\<lambda>f. f\<lparr>f_count := f_count f + 1\<rparr>) s) = (Inr q, sa)"
    using assms(2-6) by (simp_all add: fget_def kqueue_acquire_def file_upd_def)
  have k: "k1\<lparr>ke_flags := ke_flags k1 AND NOT EV_SYSFLAGS\<rparr> = k1" "k2\<lparr>ke_flags := ke_flags k2 AND NOT EV_SYSFLAGS\<rparr> = k2"
    using assms(8,9) by (simp_all add: plain_change_def)
  show ?thesis
    using assms(1,7-11) f k
    by (simp add: vos_epoll_ctl_def ff_kevent_def ff_kevent_do_each_def kern_kevent_def kern_kevent_fp_def
        kqueue_kevent_def kqueue_batches.simps ff_kevent_copyin_def kqueue_scan_def plain_change_def
        fdrop_def file_upd_def kqueue_release_def kq_upd_def)
qed

lemma ep_one_del: "fst (vos_epoll_ctl kern_ops clk0 0 3 SO_EPOLL_CTL_DEL 4 None ep_one) = FF_ret 0"
proof -
  let ?k1 = "EV_SET 4 EVFILT_READ EV_DELETE 0 0 0" and ?k2 = "EV_SET 4 EVFILT_WRITE EV_DELETE 0 0 0"
  define sa where "sa = kq_upd 0 (\<lambda>kq. kq\<lparr>kq_refcnt := kq_refcnt kq + 1\<rparr>) (file_upd 0 (\<lambda>f. f\<lparr>f_count := f_count f + 1\<rparr>) ep_one)"
  have sa: "kqueue_register kern_ops 0 ?k1 True sa = (KRet 0, ?k1, kqueue_fo_release (ke_filter ?k1) (fdrop 7
      (knote_drop kern_ops (0, 0) (kq_upd 0 (kn_enter_flux 0) (file_upd 7 (\<lambda>f. f\<lparr>f_count := f_count f + 1\<rparr>) sa)))))"
    (is "_ = (_, _, ?s1)")
    by (rule register_delete_fd [where fops = File_filtops])
      (simp_all add: sa_def file_upd_def ep_one_state ep_kn_def kn_in_flux_def kq_find_fd_def kq_eval)
  have "kqueue_register kern_ops 0 ?k2 True ?s1 = (KRet 0, ?k2, kqueue_fo_release (ke_filter ?k2) (fdrop 7
      (knote_drop kern_ops (0, 1) (kq_upd 0 (kn_enter_flux 1) (file_upd 7 (\<lambda>f. f\<lparr>f_count := f_count f + 1\<rparr>) ?s1)))))"
    by (rule register_delete_fd [where fops = File_filtops])
      (simp_all add: sa_def file_upd_def ep_one_state ep_kn_def kn_in_flux_def kq_find_fd_def fdrop_def knote_drop_def
        knote_drop_detached_def knote_unlink_def filt_eventfddetach_def knlist_remove_def kn_efd_def knl_upd_def kq_eval)
  then show ?thesis
    by (intro epoll_ctl_run [OF _ _ _ _ _ sa_def _ _ _ sa])
      (simp_all add: ep_one_state kqueue_init_def epoll_changes_def plain_change_def EV_SET_def fl_def)
qed

theorem epoll_ctl_delete_witness:
  "kn_gone (\<lambda>kn. kn_id kn = 4 \<and> kn_filter kn \<in> {EVFILT_READ, EVFILT_WRITE})
     (kqs (snd (vos_epoll_ctl kern_ops clk0 0 3 SO_EPOLL_CTL_DEL 4 None ep_one)) 0)"
proof -
  obtain s' where "vos_epoll_ctl kern_ops clk0 0 3 SO_EPOLL_CTL_DEL 4 None ep_one = (FF_ret 0, s')"
    using ep_one_del by (metis prod.collapse)
  then show ?thesis
    using epoll_ctl_delete [OF ep_one_inv(4,1,2), of clk0 0 4 None s'] by simp
qed

section \<open>Waiting\<close>

text \<open>The caller's array after some events have been stored.\<close>

definition stored :: "(kevent \<Rightarrow> 'e \<Rightarrow> 'e) \<Rightarrow> kevent list \<Rightarrow> (nat \<Rightarrow> 'e) \<Rightarrow> nat \<Rightarrow> 'e" where
  "stored f kevs evs = (\<lambda>i. if i < length kevs then f (kevs ! i) (evs i) else evs i)"

definition ska_ok :: "(kevent \<Rightarrow> 'e \<Rightarrow> 'e) \<Rightarrow> (nat \<Rightarrow> 'e) \<Rightarrow> 'e sys_kevent_args \<Rightarrow> bool" where
  "ska_ok f evs uap \<longleftrightarrow> ska_do_each uap = f \<and> ska_next uap = length (ska_sent uap) \<and>
     ska_eventlist uap = stored f (ska_sent uap) evs"

lemma ska_put_ok: "ska_ok f evs uap \<Longrightarrow> ska_ok f evs (ska_put ke uap)"
  by (auto simp: ska_ok_def ska_put_def stored_def nth_append fun_eq_iff less_Suc_eq)

lemma ff_copy_keeps: "copy_keeps \<lparr>k_copyout = ff_kevent_copyout, k_copyin = ff_kevent_copyin\<rparr> (ska_ok f evs)"
proof -
  have "ska_ok f evs uap \<Longrightarrow> ska_ok f evs (fold ska_put kevs uap)" for kevs uap
    by (induction kevs arbitrary: uap) (simp_all add: ska_put_ok)
  then show ?thesis
    by (simp add: copy_keeps_def ff_kevent_copyout_def ff_kevent_copyin_def) (simp add: ska_ok_def)
qed

lemma ff_copy_log: "copy_log \<lparr>k_copyout = ff_kevent_copyout, k_copyin = ff_kevent_copyin\<rparr> ska_sent"
proof -
  have "ska_sent (fold ska_put kevs uap) = ska_sent uap @ kevs" for kevs and uap :: "'a sys_kevent_args"
    by (induction kevs arbitrary: uap) (simp_all add: ska_put_def)
  then show ?thesis
    by (auto simp: copy_log_def ff_kevent_copyout_def)
qed

text \<open>
  C28: \<open>vos_epoll_wait\<close> on a kqueue in order keeps it in order.  It returns the number
  of events, at most \<open>maxevents\<close>; they are translations of pending enabled knotes in the order
  of the queue, stored in the first elements of the caller's array, and the rest of the array is
  not written.  It does not wait when the timeout is zero, and while it waits nothing is written.
\<close>

theorem epoll_wait_correct:
  assumes "kq_fd s epfd q" "kq_inv (kqs s q)" "marks (kqs s q) = []" "1 \<le> maxevents"
    and "vos_epoll_wait kern_ops clk td epfd (Some evs) maxevents timeout s = (r, evo, s')"
  shows "\<exists>kevs. evo = Some (stored vos_event_to_epoll kevs evs) \<and>
    kq_inv (kqs s' q) \<and> marks (kqs s' q) = [] \<and> r \<noteq> FF_fault \<and>
    (r = FF_sleep \<longrightarrow> timeout \<noteq> 0 \<and> kevs = []) \<and>
    (\<forall>n. r = FF_ret n \<longrightarrow> n = int (length kevs) \<and> n \<le> maxevents \<and>
       subseq (map kev_key kevs) (queue_keys (kqs s q) (pending (kqs s q))))"
proof -
  let ?cops = "\<lparr>k_copyout = ff_kevent_copyout, k_copyin = ff_kevent_copyin\<rparr>"
  let ?ska = "\<lparr>ska_changelist = [], ska_eventlist = evs, ska_next = 0, ska_do_each = vos_event_to_epoll, ska_sent = []\<rparr>"
  let ?ts = "if timeout = -1 then None else Some (cdiv timeout 1000, cmod timeout 1000 * 1000 * 1000)"
  obtain x u' s1 where k: "kern_kevent kern_ops ?cops clk td epfd 0 maxevents ?ts ?ska s = (x, u', s1)"
    by (metis prod_cases3)
  have r: "evo = Some (ska_eventlist u')" "s1 = s'"
    "r = (case x of Scan_ret rc \<Rightarrow> if rc \<noteq> 0 then FF_errno rc else FF_ret (k_retval s1) | Scan_sleep \<Rightarrow> FF_sleep | Scan_fault \<Rightarrow> FF_fault)"
    using assms(4,5) k
    by (auto simp: vos_epoll_wait_def ff_kevent_do_each_def Let_def split: scanres.splits)
  obtain sa sb where run: "kqueue_kevent kern_ops ?cops clk td q 0 maxevents ?ts ?ska sa = (x, u', sb)"
    and sn: "same_notes (kqs s q) (kqs sa q)" "same_notes (kqs sb q) (kqs s' q)"
    and ret: "x \<in> range Scan_ret \<longrightarrow> k_retval s' = k_retval sb"
    using kern_kevent_run [OF assms(1) k] r(2) by auto
  have sc: "kqueue_scan kern_ops ?cops clk td q maxevents ?ts ?ska sa = (x, u', sb)"
    using run by (simp add: kqueue_kevent_def kqueue_batches.simps)
  have "kq_inv (kqs sa q)" "marks (kqs sa q) = []" "0 \<le> maxevents"
    using sn(1) assms(2-4) by (simp_all add: same_notes_def)
  note ok = kf.scan_ok [OF ff_copy_log this sc]
  have "ska_ok vos_event_to_epoll evs ?ska"
    by (simp add: ska_ok_def stored_def)
  then have st: "ska_eventlist u' = stored vos_event_to_epoll (ska_sent u') evs"
    using scan_keeps [OF ff_copy_keeps _ sc] by (simp add: ska_ok_def)
  have keys: "queue_keys (kqs sa q) (pending (kqs sa q)) = queue_keys (kqs s q) (pending (kqs s q))"
    using sn(1) by (simp add: same_notes_def queue_keys_def pending_def kn_at_def)
  have z: "timeout = 0 \<Longrightarrow> ?ts = Some (0, 0)"
    by (simp add: cdiv_def cmod_def)
  have "kq_inv (kqs s' q)" "marks (kqs s' q) = []" "r \<noteq> FF_fault"
    using ok sn(2) r(3) by (simp_all add: same_notes_def split: scanres.split)
  moreover have "r = FF_sleep \<longrightarrow> timeout \<noteq> 0 \<and> ska_sent u' = []"
  proof
    assume "r = FF_sleep"
    then have "x = Scan_sleep"
      using r(3) by (simp split: scanres.splits if_splits)
    then show "timeout \<noteq> 0 \<and> ska_sent u' = []"
      using ok z by (metis sys_kevent_args.select_convs(5))
  qed
  moreover have "n = int (length (ska_sent u')) \<and> n \<le> maxevents \<and>
      subseq (map kev_key (ska_sent u')) (queue_keys (kqs s q) (pending (kqs s q)))" if "r = FF_ret n" for n
  proof -
    have "x = Scan_ret 0" "n = k_retval sb"
      using that r(2,3) ret by (auto split: scanres.splits if_splits)
    then show ?thesis
      using ok keys by auto
  qed
  ultimately show ?thesis
    by (intro exI [of _ "ska_sent u'"]) (simp add: r(1) st)
qed

theorem epoll_wait_correct_witness:
  "\<exists>r evo s'. vos_epoll_wait kern_ops clk0 0 3 (Some (\<lambda>_. ep_in)) 4 0 ep_one = (r, evo, s') \<and>
     r \<noteq> FF_fault \<and> r \<noteq> FF_sleep \<and> kq_inv (kqs s' 0)"
proof -
  obtain r evo s' where "vos_epoll_wait kern_ops clk0 0 3 (Some (\<lambda>_. ep_in)) 4 0 ep_one = (r, evo, s')"
    by (metis prod_cases3)
  then show ?thesis
    using epoll_wait_correct [OF ep_one_inv(4,1,3), of 4 clk0 0 "\<lambda>_. ep_in" 0 r evo s'] by auto
qed

text \<open>
  C29: The translation of an event.  \<open>EPOLLIN\<close> is reported for every read event and only
  for these, \<open>EPOLLOUT\<close> for every write event and only for these, \<open>EPOLLHUP\<close> if and only
  if the peer has closed, and \<open>EPOLLERR\<close> when the change failed, or at the end of the file for
  a write event or with an error recorded.  The caller's data comes back unless it is zero; then
  the low half is the descriptor.
\<close>

theorem event_to_epoll_exact:
  "(fl (ep_events (vos_event_to_epoll kev ev)) SO_EPOLLIN \<longleftrightarrow> ke_filter kev = EVFILT_READ) \<and>
   (fl (ep_events (vos_event_to_epoll kev ev)) SO_EPOLLOUT \<longleftrightarrow> ke_filter kev = EVFILT_WRITE) \<and>
   (fl (ep_events (vos_event_to_epoll kev ev)) SO_EPOLLHUP \<longleftrightarrow> fl (ke_flags kev) EV_EOF) \<and>
   (fl (ep_events (vos_event_to_epoll kev ev)) SO_EPOLLERR \<longleftrightarrow>
      fl (ke_flags kev) EV_ERROR \<or> fl (ke_flags kev) EV_EOF \<and> (0 < ke_fflags kev \<or> ke_filter kev = EVFILT_WRITE)) \<and>
   (if ke_udata kev \<noteq> 0 then ep_data (vos_event_to_epoll kev ev) = ke_udata kev
    else take_bit 32 (ep_data (vos_event_to_epoll kev ev)) = take_bit 32 (ke_ident kev))"
proof -
  let ?e = "ep_events (vos_event_to_epoll kev ev)"
  have low: "take_bit 32 (set_data_fd i d) = take_bit 32 i" for i d
  proof -
    have "(0xffffffff :: u64) = mask 32"
      by (simp add: mask_eq_exp_minus_1)
    then have "set_data_fd i d = (d AND NOT (mask 32)) OR (i AND mask 32)"
      by (simp add: set_data_fd_def)
    then show ?thesis
      by (auto intro: bit_word_eqI simp: bit_simps)
  qed
  have "ep_data (vos_event_to_epoll kev ev) = (if ke_udata kev \<noteq> 0 then ke_udata kev else set_data_fd (ke_ident kev) (ep_data ev))"
    by (simp add: vos_event_to_epoll_def Let_def)
  moreover have "(fl ?e SO_EPOLLIN \<longleftrightarrow> ke_filter kev = EVFILT_READ) \<and> (fl ?e SO_EPOLLOUT \<longleftrightarrow> ke_filter kev = EVFILT_WRITE) \<and>
      (fl ?e SO_EPOLLHUP \<longleftrightarrow> fl (ke_flags kev) EV_EOF) \<and> (fl ?e SO_EPOLLERR \<longleftrightarrow>
      fl (ke_flags kev) EV_ERROR \<or> fl (ke_flags kev) EV_EOF \<and> (0 < ke_fflags kev \<or> ke_filter kev = EVFILT_WRITE))"
    by (cases "fl (ke_flags kev) EV_EOF"; cases "fl (ke_flags kev) EV_ERROR"; cases "ke_filter kev = EVFILT_READ";
        cases "ke_filter kev = EVFILT_WRITE"; cases "ke_fflags kev = 0"; cases "ke_data kev = 0";
        simp add: vos_event_to_epoll_def Let_def word_gt_0; simp add: fl_def)
  ultimately show ?thesis
    by (simp add: low)
qed

end
