(* ===== verification/Rw_Props.thy ===== *)
theory Rw_Props
  imports Rw Epoll_Props
begin

text \<open>
  A write to an eventfd through the wrappers, followed down to the knotes that watch it and up
  again through a scan of the kqueue.
\<close>

section \<open>What a notification does to a queue\<close>

lemma activate_head:
  assumes "kq_notes kq k = Some kn"
  shows "KN_DISABLED \<in> kn_status kn \<Longrightarrow> kq_head (KNOTE_ACTIVATE k kq) = kq_head kq"
    and "set (kq_head (KNOTE_ACTIVATE k kq)) \<subseteq> insert (QNote k) (set (kq_head kq))"
    and "has_st KN_DISABLED (KNOTE_ACTIVATE k kq) j = has_st KN_DISABLED kq j"
  using assms by (auto simp: KNOTE_ACTIVATE_def knote_enqueue_def Let_def st_set_def kn_at_def has_st_def
      kn_upd_def)

lemma knote_one_head:
  fixes s :: kworld
  assumes "kern_inv s" "live s (q', k')" "s' = knote_one kern_ops h False (q', k') s"
  shows "q \<noteq> q' \<or> has_st KN_DISABLED (kqs s q') k' \<Longrightarrow> kq_head (kqs s' q) = kq_head (kqs s q)"
    and "set (kq_head (kqs s' q)) \<subseteq> insert (QNote k') (set (kq_head (kqs s q)))"
    and "has_st KN_DISABLED (kqs s' q) j = has_st KN_DISABLED (kqs s q) j"
proof -
  obtain kn where kn: "kq_notes (kqs s q') k' = Some kn" "kq_inv (kqs s q')"
    using assms(1,2) by (auto simp: live_def kern_inv_def)
  then have kn0: "kn_of s (q', k') = kn" "\<not> kn_in_flux kn"
    by (auto simp: kn_of_def kq_inv_def calm_def kn_in_flux_def)
  obtain b s1 where ev: "f_event (kern_ops (kn_fop kn)) (q', k') h s = (b, s1)"
    by fastforce
  have s': "s' = (if b then kq_upd q' (KNOTE_ACTIVATE k') s1 else s1)"
    using kn0 ev by (simp add: assms(3) knote_one_def)
  note st = kf.event_step [OF ev]
  obtain g sn where g: "kqs s1 q' = (kn_upd k' g (kqs s q'))\<lparr>kq_si_note := sn\<rparr>" "\<And>kn. st_core (g kn) = st_core kn"
    using st by (auto simp: note_step_def)
  have gd: "KN_DISABLED \<in> kn_status (g kn) \<longleftrightarrow> KN_DISABLED \<in> kn_status kn" for kn
    using g(2) [of kn] by (auto simp: st_core_def)
  have n1: "kq_notes (kqs s1 q') k' = Some (g kn)"
    using kn(1) by (simp add: g(1))
  have d1: "has_st KN_DISABLED (kqs s1 q') j = has_st KN_DISABLED (kqs s q') j" for j
    using gd by (auto simp: g(1) has_st_def kn_upd_def)
  have "(q \<noteq> q' \<or> has_st KN_DISABLED (kqs s q') k' \<longrightarrow> kq_head (kqs s' q) = kq_head (kqs s q)) \<and>
    set (kq_head (kqs s' q)) \<subseteq> insert (QNote k') (set (kq_head (kqs s q))) \<and>
    has_st KN_DISABLED (kqs s' q) j = has_st KN_DISABLED (kqs s q) j"
  proof (cases "q = q'")
    case True
    have "kqs s' q' = (if b then KNOTE_ACTIVATE k' (kqs s1 q') else kqs s1 q')" "kq_head (kqs s1 q') = kq_head (kqs s q')"
      by (simp_all add: s' g(1))
    then show ?thesis
      using activate_head [OF n1] kn(1) gd d1 True by (auto simp: has_st_def)
  next
    case False
    then have "kqs s' q = kqs s1 q" "other_step (kqs s q) (kqs s1 q)"
      using st by (simp_all add: s' kq_upd_def)
    then show ?thesis
      by (auto simp: other_step_def has_st_def)
  qed
  then show "q \<noteq> q' \<or> has_st KN_DISABLED (kqs s q') k' \<Longrightarrow> kq_head (kqs s' q) = kq_head (kqs s q)"
    "set (kq_head (kqs s' q)) \<subseteq> insert (QNote k') (set (kq_head (kqs s q)))"
    "has_st KN_DISABLED (kqs s' q) j = has_st KN_DISABLED (kqs s q) j"
    by blast+
qed

lemma knote_one_closing:
  fixes s :: kworld
  assumes "kern_inv s" "live s (q', k')"
  shows "KQ_CLOSING \<in> kq_state (kqs (knote_one kern_ops h nl (q', k') s) q) \<longleftrightarrow> KQ_CLOSING \<in> kq_state (kqs s q)"
proof -
  obtain kn where "kq_notes (kqs s q') k' = Some kn" "kq_inv (kqs s q')"
    using assms by (auto simp: live_def kern_inv_def)
  then have "kq_keep q' s (knote_one kern_ops h nl (q', k') s)"
    using kf.knote_one_ok by blast
  then show ?thesis
    by (cases "q = q'") (auto simp: kq_keep_def other_step_def)
qed

lemma knote_fold_head:
  fixes s :: kworld
  assumes "kern_inv s" "\<forall>p \<in> set ps. live s p" "set (kq_head (kqs s q)) \<subseteq> {QNote k}"
    and "\<forall>j. (q, j) \<in> set ps \<longrightarrow> j = k \<or> has_st KN_DISABLED (kqs s q) j"
  shows "set (kq_head (kqs (fold (knote_one kern_ops h False) ps s) q)) \<subseteq> {QNote k} \<and>
    (KQ_CLOSING \<in> kq_state (kqs (fold (knote_one kern_ops h False) ps s) q) \<longleftrightarrow> KQ_CLOSING \<in> kq_state (kqs s q))"
  using assms
proof (induction ps arbitrary: s)
  case (Cons p ps)
  obtain q' k' where p: "p = (q', k')" by fastforce
  define s1 where "s1 = knote_one kern_ops h False (q', k') s"
  have lv: "live s (q', k')"
    using Cons.prems(2) by (simp add: p)
  note one = knote_one_head [OF Cons.prems(1) lv s1_def] knote_one_closing [OF Cons.prems(1) lv, of h False q]
  have "kern_inv s1" "\<forall>p \<in> set ps. live s1 p"
    using knote_one_live [OF Cons.prems(1) lv] Cons.prems(2) by (auto simp: s1_def)
  moreover have "set (kq_head (kqs s1 q)) \<subseteq> {QNote k}"
  proof (cases "q = q' \<and> k' = k")
    case True
    then show ?thesis
      using one(2) [of q] Cons.prems(3) by auto
  next
    case False
    then have "kq_head (kqs s1 q) = kq_head (kqs s q)"
      using one(1) [of q] Cons.prems(4) by (auto simp: p)
    then show ?thesis
      using Cons.prems(3) by simp
  qed
  moreover have "\<forall>j. (q, j) \<in> set ps \<longrightarrow> j = k \<or> has_st KN_DISABLED (kqs s1 q) j"
    using one(3) [of q] Cons.prems(4) by simp
  ultimately show ?case
    using Cons.IH [of s1] one(4) by (simp add: p s1_def)
qed simp

lemma distinct_single: "distinct xs \<Longrightarrow> set xs \<subseteq> {x} \<Longrightarrow> x \<in> set xs \<Longrightarrow> xs = [x]"
  by (cases xs; cases "tl xs") auto

text \<open>
  A notification when one knote of a queue with nothing pending watches for reading, and every
  other knote of this queue on the list is disabled.
\<close>

lemma efd_notify_single:
  fixes u :: kworld
  assumes "kern_inv u" "efd_watch e u" "(q, k) \<in> set (knl_get (Knl_efd e) u)" "kq_notes (kqs u q) k = Some kn"
    and "kn_fop kn = Eventfd_rfiltops" "kn_hook kn = Some e" "KN_DISABLED \<notin> kn_status kn" "kq_head (kqs u q) = []"
    and "\<forall>j. (q, j) \<in> set (knl_get (Knl_efd e) u) \<longrightarrow> j = k \<or> has_st KN_DISABLED (kqs u q) j"
    and "c = efd_count (w_efd (k_w u) e)" "c \<noteq> 0"
  shows "kern_inv (efd_notify e u)" "kq_head (kqs (efd_notify e u) q) = [QNote k]"
    and "\<exists>st. kq_notes (kqs (efd_notify e u) q) k = Some ((set_data c kn)\<lparr>kn_status := st\<rparr>) \<and> KN_DISABLED \<notin> st"
    and "KQ_CLOSING \<in> kq_state (kqs (efd_notify e u) q) \<longleftrightarrow> KQ_CLOSING \<in> kq_state (kqs u q)"
proof -
  define s1 where "s1 = fold (knote_one kern_ops 0 False) (knl_get (Knl_efd e) u) u"
  have kqs: "kqs (efd_notify e u) = kqs s1"
    by (simp add: efd_notify_def knote_list_def s1_def) (simp add: efd_upd_def w_upd_def)
  have w: "\<forall>p \<in> set (knl_get (Knl_efd e) u). live u p" "distinct (knl_get (Knl_efd e) u)"
    using assms(2) by (simp_all add: efd_watch_def)
  note cnt = knote_fold_count [OF assms(1) w assms(3-7,10,11) s1_def]
  have hd: "set (kq_head (kqs s1 q)) \<subseteq> {QNote k}"
    "KQ_CLOSING \<in> kq_state (kqs s1 q) \<longleftrightarrow> KQ_CLOSING \<in> kq_state (kqs u q)"
    using knote_fold_head [OF assms(1) w(1) _ assms(9), of 0] assms(8) by (simp_all add: s1_def)
  have "distinct (kq_head (kqs s1 q))"
    using cnt by (simp add: kern_inv_def kq_inv_def queue_ok_def)
  then show "kq_head (kqs (efd_notify e u) q) = [QNote k]"
    using hd(1) cnt by (simp add: kqs distinct_single)
  show "kern_inv (efd_notify e u)"
    "\<exists>st. kq_notes (kqs (efd_notify e u) q) k = Some ((set_data c kn)\<lparr>kn_status := st\<rparr>) \<and> KN_DISABLED \<notin> st"
    "KQ_CLOSING \<in> kq_state (kqs (efd_notify e u) q) \<longleftrightarrow> KQ_CLOSING \<in> kq_state (kqs u q)"
    using cnt hd(2) by (simp_all add: kqs kern_inv_def)
qed

section \<open>A scan of a queue with one knote\<close>

lemma scan_single:
  assumes "copy_total cops lg" "kq_count (kqs s q) \<noteq> 0" "kq_head (kqs s q) = [QNote k]"
    and "\<not> kn_in_flux (kn_of s (q, k))" "KN_DISABLED \<notin> kn_status (kn_of s (q, k))" "0 < maxevents"
    and "kqueue_scan_deadline clk tsp = Inr d"
    and "kqueue_scan_note ops (q, k) (kq_upd q (\<lambda>kq. kq\<lparr>kq_head := [QMark td]\<rparr>) s) = (Some kev, s2)"
    and "kq_head (kqs s2 q) = QMark td # rest"
    and "kqueue_scan ops cops clk td q maxevents tsp u s = (r, u', s')"
  shows "r = Scan_ret 0 \<and> k_retval s' = 1 \<and> lg u' = lg u @ [kev]"
proof -
  define s1 where "s1 = kq_upd q (\<lambda>kq. kq\<lparr>kq_head := kq_head kq @ [QMark td]\<rparr>) s"
  have s1: "kq_head (kqs s1 q) = [QNote k, QMark td]" "kn_of s1 (q, k) = kn_of s (q, k)"
    "kq_upd q (\<lambda>kq. kq\<lparr>kq_head := [QMark td]\<rparr>) s1 = kq_upd q (\<lambda>kq. kq\<lparr>kq_head := [QMark td]\<rparr>) s"
    using assms(3) by (simp_all add: s1_def kq_upd_def kn_of_def kn_at_def)
  have n0: "kn_of (kq_upd q (\<lambda>kq. kq\<lparr>kq_head := [QMark td]\<rparr>) s) (q, k) = kn_of s (q, k)"
    by (simp add: kq_upd_def kn_of_def kn_at_def)
  obtain out s3 where lp: "kqueue_scan_loop (Suc (Suc (Suc 0))) ops cops q td maxevents False [] u s1 =
      (out, maxevents - 1, [kev], u, s3)" "out = Sc_marker \<or> out = Sc_end 0"
  proof (cases "maxevents = 1")
    case True
    then show ?thesis
      using assms(4,5,8) s1 n0 that [of "Sc_end 0" s2] by simp
  next
    case False
    then show ?thesis
      using assms(4-6,8,9) s1 n0 that [of Sc_marker] by simp
  qed
  obtain e u2 where c: "k_copyout cops [kev] u = (e, u2)"
    by fastforce
  then have "e = 0" "lg u2 = lg u @ [kev]"
    using copy_totalD(1) [OF assms(1)] by auto
  moreover obtain asbt rsbt where d: "d = (asbt, rsbt)"
    by fastforce
  moreover have "\<exists>s4. kqueue_scan_retry 2 ops cops q td maxevents asbt u s = (Scan_ret 0, maxevents - 1, [kev], u, s4)"
    using lp assms(2) unfolding numeral_2_eq_2 kqueue_scan_retry.simps(2) s1_def [symmetric] Let_def
    by (auto simp: s1(1))
  ultimately show ?thesis
    using assms(6,7,10) c by (auto simp: kqueue_scan_def)
qed

lemma scan_note_efd:
  assumes "kq_notes (kqs s q) k = Some kn" "kn_fop kn = Eventfd_rfiltops" "kn_hook kn = Some e"
    and "c = efd_count (w_efd (k_w s) e)" "c \<noteq> 0" "\<not> fl (kn_flags kn) EV_DROP" "\<not> fl (kn_flags kn) EV_ONESHOT"
  shows "\<exists>s2 rest. kqueue_scan_note kern_ops (q, k) s = (Some ((kn_kevent kn)\<lparr>ke_data := c\<rparr>), s2) \<and>
    kq_head (kqs s2 q) = kq_head (kqs s q) @ rest"
proof -
  define s1 where "s1 = kq_upd q (\<lambda>kq. kn_enter_flux k (kn_upd k (st_set {KN_SCAN}) kq)) s"
  have s1: "kn_hook (kn_of s1 (q, k)) = Some e" "k_w s1 = k_w s"
    using assms(1,3) by (simp_all add: s1_def kq_upd_def kn_of_def kn_at_def kn_enter_flux_def kn_upd_def st_set_def)
  have ev: "filt_eventfdread (q, k) 0 s1 = (True, kn_mod (q, k) (set_data c) s1)"
    using s1 assms(4,5) by (simp add: filt_eventfdread_def kn_efd_def Let_def word_gt_0)
  define s2 where "s2 = kn_mod (q, k) (set_data c) s1"
  have s2: "kn_kevent (kn_of s2 (q, k)) = (kn_kevent kn)\<lparr>ke_data := c\<rparr>" "kn_fop (kn_of s2 (q, k)) = Eventfd_rfiltops"
    "kq_head (kqs s2 q) = kq_head (kqs s q)"
    using assms(1,2) by (simp_all add: s2_def s1_def kn_mod_def kq_upd_def kn_of_def kn_at_def kn_enter_flux_def kn_upd_def
        st_set_def set_data_def)
  have kn: "kn_of s (q, k) = kn"
    using assms(1) by (simp add: kn_of_def)
  show ?thesis
    unfolding kqueue_scan_note_def Let_def fst_conv snd_conv s1_def [symmetric] kn
    using assms(2,6,7) ev [folded s2_def] s2 by (auto simp: kn_leave_flux_def)
qed

section \<open>Waiting\<close>

lemma ff_copy_total: "copy_total \<lparr>k_copyout = ff_kevent_copyout, k_copyin = ff_kevent_copyin\<rparr> ska_sent"
proof -
  have "ska_sent (fold ska_put kevs uap) = ska_sent uap @ kevs" for kevs and uap :: "'a sys_kevent_args"
    by (induction kevs arbitrary: uap) (simp_all add: ska_put_def)
  then show ?thesis
    by (simp add: copy_total_def ff_kevent_copyout_def ff_kevent_copyin_def)
qed

lemma epoll_deadline:
  assumes "-1 \<le> timeout"
  shows "\<exists>d. kqueue_scan_deadline clk (if timeout = -1 then None else Some (cdiv timeout 1000, cmod timeout 1000 * 1000 * 1000)) = Inr d"
proof (cases "timeout = -1")
  case False
  then obtain a b where "cdiv timeout 1000 = a" "cmod timeout 1000 = b" "0 \<le> a" "0 \<le> b" "b < 1000"
    using assms by (simp add: cdiv_pos cmod_pos pos_imp_zdiv_nonneg_iff)
  then show ?thesis
    using False by (simp add: kqueue_scan_deadline_def Let_def)
qed (simp add: kqueue_scan_deadline_def)

lemma epoll_wait_single:
  assumes "kq_fd s epfd q" "kq_inv (kqs s q)" "kq_head (kqs s q) = [QNote k]" "kq_notes (kqs s q) k = Some kn"
    and "KN_DISABLED \<notin> kn_status kn" "kn_fop kn = Eventfd_rfiltops" "kn_hook kn = Some e"
    and "c = efd_count (w_efd (k_w s) e)" "c \<noteq> 0" "\<not> fl (kn_flags kn) EV_DROP" "\<not> fl (kn_flags kn) EV_ONESHOT"
    and "1 \<le> maxevents" "-1 \<le> timeout"
    and "vos_epoll_wait kern_ops clk td epfd (Some evs) maxevents timeout s = (r, evo, s')"
  shows "r = FF_ret 1 \<and> evo = Some (evs(0 := vos_event_to_epoll ((kn_kevent kn)\<lparr>ke_data := c\<rparr>) (evs 0)))"
proof -
  let ?cops = "\<lparr>k_copyout = ff_kevent_copyout, k_copyin = ff_kevent_copyin\<rparr>"
  let ?ska = "\<lparr>ska_changelist = [], ska_eventlist = evs, ska_next = 0, ska_do_each = vos_event_to_epoll, ska_sent = []\<rparr>"
  let ?ts = "if timeout = -1 then None else Some (cdiv timeout 1000, cmod timeout 1000 * 1000 * 1000)"
  let ?kev = "(kn_kevent kn)\<lparr>ke_data := c\<rparr>"
  obtain x u' s1 where k: "kern_kevent kern_ops ?cops clk td epfd 0 maxevents ?ts ?ska s = (x, u', s1)"
    by (metis prod_cases3)
  have r: "evo = Some (ska_eventlist u')"
    "r = (case x of Scan_ret rc \<Rightarrow> if rc \<noteq> 0 then FF_errno rc else FF_ret (k_retval s1) | Scan_sleep \<Rightarrow> FF_sleep | Scan_fault \<Rightarrow> FF_fault)"
    using assms(12,14) k by (auto simp: vos_epoll_wait_def ff_kevent_do_each_def Let_def split: scanres.splits)
  obtain sa sb where run: "kqueue_kevent kern_ops ?cops clk td q 0 maxevents ?ts ?ska sa = (x, u', sb)"
    and sn: "k_w sa = k_w s" "same_notes (kqs s q) (kqs sa q)"
    and ret: "x \<in> range Scan_ret \<longrightarrow> k_retval s1 = k_retval sb"
    using kern_kevent_run [OF assms(1) k] by auto
  have sc: "kqueue_scan kern_ops ?cops clk td q maxevents ?ts ?ska sa = (x, u', sb)"
    using run by (simp add: kqueue_kevent_def kqueue_batches.simps)
  have sa: "kq_inv (kqs sa q)" "kq_head (kqs sa q) = [QNote k]" "kq_notes (kqs sa q) k = Some kn"
    using sn(2) assms(2-4) by (simp_all add: same_notes_def)
  then have fx: "kq_count (kqs sa q) \<noteq> 0" "\<not> kn_in_flux (kn_of sa (q, k))" "KN_DISABLED \<notin> kn_status (kn_of sa (q, k))"
    using assms(5) by (auto simp: kq_inv_def queue_ok_def calm_def kn_in_flux_def kn_of_def)
  let ?sm = "kq_upd q (\<lambda>kq. kq\<lparr>kq_head := [QMark td]\<rparr>) sa"
  have sm: "kq_notes (kqs ?sm q) k = Some kn" "c = efd_count (w_efd (k_w ?sm) e)" "kq_head (kqs ?sm q) = [QMark td]"
    using sa(3) assms(8) sn(1) by (simp_all add: kq_upd_def)
  obtain s2 rest where note1: "kqueue_scan_note kern_ops (q, k) ?sm = (Some ?kev, s2)" "kq_head (kqs s2 q) = QMark td # rest"
    using scan_note_efd [OF sm(1) assms(6,7) sm(2) assms(9-11)] sm(3) by auto
  obtain d where d: "kqueue_scan_deadline clk ?ts = Inr d"
    using epoll_deadline [OF assms(13)] by blast
  have out: "x = Scan_ret 0 \<and> k_retval sb = 1 \<and> ska_sent u' = [?kev]"
    using scan_single [OF ff_copy_total fx(1) sa(2) fx(2,3) _ d note1 sc] assms(12) by simp
  have "ska_ok vos_event_to_epoll evs ?ska"
    by (simp add: ska_ok_def stored_def)
  then have "ska_eventlist u' = stored vos_event_to_epoll [?kev] evs"
    using scan_keeps [OF ff_copy_keeps _ sc] out by (simp add: ska_ok_def)
  then show ?thesis
    using r out ret by (auto simp: stored_def fun_eq_iff)
qed

section \<open>Writing\<close>

text \<open>The value in the eight bytes at an address.\<close>

definition mem_u64 :: "memory \<Rightarrow> nat \<Rightarrow> u64" where
  "mem_u64 mem buf = le_word (copyin mem buf 8)"

lemma eventfd_write_run:
  assumes "uio_ok uio" "uio_rw uio = UIO_WRITE" "uio_segflg uio \<noteq> UIO_NOCOPY" "8 \<le> uio_resid uio" "v = uio_value uio mem"
    and "e = fp_efd s fp" "efd_val e s + unat v < unat UINT64_MAX"
  shows "\<exists>uio'. eventfd_write fp uio mem s =
      Some (KRet 0, uio', efd_notify e (efd_upd e (\<lambda>efd. efd\<lparr>efd_count := efd_count efd + v\<rparr>) s)) \<and>
    uio_resid uio' = uio_resid uio - 8"
proof -
  obtain bs uio1 where b: "uiomove (replicate 8 0) 8 uio mem = Some (bs, uio1, mem)" "uio_moved 8 uio uio1" "le_word bs = v"
    using uiomove_value [OF assms(1-4), of v mem] assms(5) by (auto simp: uio_value_def)
  have "v \<noteq> UINT64_MAX"
    using assms(7) by auto
  then show ?thesis
    using b assms(4,6,7) efd_room [of s e v]
    by (simp add: eventfd_write_def eventfd_write_retry_def Let_def uio_moved_def)
qed

lemma ff_write_efd:
  assumes "0 \<le> fd" "k_fdt s (nat fd) = Some fp" "f_type (k_files s fp) = DTYPE_EVENTFD" "e = fp_efd s fp"
    and "v = mem_u64 mem buf" "efd_val e s + unat v < unat UINT64_MAX"
  shows "\<exists>s1 u. ff_write oflag owrite sigpipe fd buf 8 mem s = Some (FF_ret 8, s1) \<and>
    kqs u = kqs s \<and> k_knl u = k_knl s \<and>
    efd_count (w_efd (k_w u) e) = efd_count (w_efd (k_w s) e) + v \<and>
    kqs s1 = kqs (efd_notify e u) \<and> k_w s1 = k_w (efd_notify e u) \<and> k_fdt s1 = k_fdt s \<and>
    (\<forall>i. f_type (k_files s1 i) = f_type (k_files s i) \<and> f_data (k_files s1 i) = f_data (k_files s i))"
proof -
  define s0 where "s0 = file_upd fp (\<lambda>f. f\<lparr>f_count := f_count f + 1\<rparr>) s"
  have s0: "fget (nat fd) s = (Inr fp, s0)" "f_type (k_files s0 fp) = DTYPE_EVENTFD" "e = fp_efd s0 fp"
    "efd_val e s0 = efd_val e s"
    using assms(2-4) by (simp_all add: s0_def fget_def file_upd_def fp_efd_def efd_val_def)
  define u where "u = efd_upd e (\<lambda>efd. efd\<lparr>efd_count := efd_count efd + v\<rparr>) s0"
  have u: "kqs u = kqs s" "k_knl u = k_knl s" "efd_count (w_efd (k_w u) e) = efd_count (w_efd (k_w s) e) + v"
    "k_fdt u = k_fdt s" "k_files u = k_files s0"
    by (simp_all add: u_def s0_def efd_upd_def w_upd_def file_upd_def)
  let ?uio = "(sys_uio [\<lparr>iov_base = buf, iov_len = 8\<rparr>] 8)\<lparr>uio_rw := UIO_WRITE, uio_offset := -1\<rparr>"
  have "map mem [buf ..< buf + 8] = copyin mem buf 8"
    by (rule nth_equalityI) (simp_all add: copyin_def)
  then have "uio_ok ?uio" "uio_value ?uio mem = v"
    by (simp_all add: uio_ok_def sys_uio_def uio_value_def mem_u64_def assms(5))
  then obtain uio' where w: "eventfd_write fp ?uio mem s0 = Some (KRet 0, uio', efd_notify e u)" "uio_resid uio' = 0"
    using eventfd_write_run [of ?uio v mem e s0 fp] s0(3,4) assms(6) by (auto simp: u_def sys_uio_def)
  define s1 where "s1 = fdrop fp ((efd_notify e u)\<lparr>k_retval := 8\<rparr>)"
  have fl: "file_flag oflag fp s0 = FREAD OR FWRITE"
    using s0(2) by (simp add: file_flag_def)
  have fr: "kern_frame u (efd_notify e u)"
    using knote_list_frame [of u "Knl_efd e" 0 False] by (simp add: efd_notify_def efd_upd_def w_upd_def kern_frame_def)
  have "uio_resid (sys_uio iov n) = n" "c_int 8 = 8" for iov n
    by (simp_all add: sys_uio_def c_int_def)
  then have "ff_write oflag owrite sigpipe fd buf 8 mem s = Some (FF_ret 8, s1)"
    using assms(1) s0(1,2) fl w
    by (simp add: ff_write_def wr_end_def kern_writev_def fget_flags_def dofilewrite_def fo_write_def rw_error_def
        rw_ret_def Let_def fl_def s1_def fdrop_def file_upd_def)
  then show ?thesis
    using u fr by (intro exI [of _ s1] exI [of _ u]) (auto simp: s1_def fdrop_def file_upd_def kern_frame_def s0_def)
qed

lemma read_event_epoll:
  assumes "ke_filter kev = EVFILT_READ" "ke_data kev \<noteq> 0"
  shows "fl (ep_events (vos_event_to_epoll kev ev)) SO_EPOLLIN"
    and "ke_udata kev \<noteq> 0 \<Longrightarrow> ep_data (vos_event_to_epoll kev ev) = ke_udata kev"
  using assms by (simp_all add: vos_event_to_epoll_def Let_def fl_or) (simp add: fl_def)

lemma efd_sum_nonzero:
  assumes "efd_val e s + unat v < unat UINT64_MAX" "v \<noteq> 0"
  shows "efd_count (w_efd (k_w s) e) + v \<noteq> 0"
proof -
  have "unat (efd_count (w_efd (k_w s) e) + v) = efd_val e s + unat v"
    using assms(1) by (simp add: efd_val_def unat_word_ariths)
  then show ?thesis
    using assms(2) by (auto simp: unat_eq_0 [symmetric])
qed

end
