(* ===== verification/Spec2Isabelle.thy ===== *)
theory Spec2Isabelle
  imports Timer_Props Calendar Descrip_Props Wrapper_Props Rw_Props
begin

text \<open>
  V-OS runs a FreeBSD 13 kernel inside a process of the host.  Applications compiled for Linux call
  the wrappers \<^verbatim>\<open>ff_*\<close> and \<^verbatim>\<open>vos_epoll_*\<close>, which translate
  their arguments and call the kernel in the same address space.  This development models the event
  notification of that kernel from these wrappers down to the knotes, the descriptors and files it
  rests on, the transport of data, and the translation of arguments.  All paths below are relative
  to \<^verbatim>\<open>src/src/freebsd\<close>.

  \<^bold>\<open>Parts and theories.\<close>

  \<^item> \<open>Prelude\<close>: machine words, flag tests, error numbers, C division.  \<open>Refine\<close>: runs of an
    implementation and of a specification, and the locale \<open>refinement\<close> that relates them.

  \<^item> \<^emph>\<open>Event queue\<close> (\<^verbatim>\<open>sys/kern/kern_event.c\<close>).  \<open>Knote\<close> has the
    records of \<^verbatim>\<open>struct knote\<close> and \<^verbatim>\<open>struct kqueue\<close> and the
    operations on one queue (\<open>knote_enqueue\<close>, \<open>KNOTE_ACTIVATE\<close>, the hash and the table by
    descriptor); \<open>Kqueue\<close> the operations over the whole kernel state: \<open>kqueue_register\<close>,
    \<open>kqueue_scan\<close>, \<open>kqueue_kevent\<close>, \<open>kern_kevent\<close>, \<open>sys_kevent\<close>, \<open>knote\<close>
    lists, \<open>knote_fdclose\<close>, \<open>kqueue_drain\<close>, \<open>kqueue_close\<close>, \<open>kern_kqueue\<close>.  The
    kernel state is the record \<open>kern\<close>; the world \<open>'w\<close> of the objects that are watched is a
    type parameter, and the filters' callbacks are a table of functions on it.  The invariant
    \<open>kq_inv\<close> (\<open>Knote_Inv\<close>, \<open>Kqueue_Inv\<close>) says that the pending queue holds exactly the
    knotes marked as queued, each once, that the count is its length, that every enabled active
    knote is in it, that every knote is linked exactly once under its key, and that none is in
    flux.  The locale \<open>filters\<close> states what a callback may change; under it
    \<open>Kqueue_Find\<close>, \<open>Kqueue_Register\<close>, \<open>Kqueue_Scan\<close> and \<open>Kqueue_Life\<close> show
    that every operation keeps the invariant and what it does, \<open>Kqueue_Copy\<close> what is copied
    out, and \<open>Kqueue_Watch\<close> which keys a queue can hold.

  \<^item> \<^emph>\<open>Filters\<close> (\<open>Filters\<close>: user, timer, process, signal, socket, file system, kqueue and eventfd
    filters of \<^verbatim>\<open>kern_event.c\<close>, \<^verbatim>\<open>uipc_socket.c\<close>,
    \<^verbatim>\<open>kern_sig.c\<close>, \<^verbatim>\<open>vfs_subr.c\<close>,
    \<^verbatim>\<open>sys_eventfd.c\<close>).  \<open>Filters_Ok\<close> interprets the locale \<open>filters\<close> on
    the table of all of them (\<open>kf\<close>), \<open>Kqueue_Live\<close> shows that an event is not lost,
    \<open>Boot\<close> builds an initial state, \<open>Kqueue_Props\<close> and \<open>Timer_Props\<close> hold the
    properties.

  \<^item> \<^emph>\<open>Data\<close>.  \<open>Uio\<close> (\<^verbatim>\<open>sys/kern/subr_uio.c\<close>,
    \<^verbatim>\<open>compat/user_glue.c\<close>): scatter and gather over a memory of bytes.
    \<open>Eventfd\<close>, \<open>Eventfd_Props\<close> (\<^verbatim>\<open>sys/kern/sys_eventfd.c\<close>): the counter.
    \<open>Rw\<close>, \<open>Rw_Props\<close> (\<^verbatim>\<open>sys/kern/sys_generic.c\<close>: \<open>kern_readv\<close>,
    \<open>kern_writev\<close>; \<^verbatim>\<open>compat/syscall_wrapper.c\<close>: \<open>ff_read\<close>,
    \<open>ff_write\<close>).

  \<^item> \<^emph>\<open>Epoll\<close> (\<open>Epoll\<close>, \<open>Epoll_Props\<close>; \<^verbatim>\<open>epoll/vos_epoll.c\<close> and the
    kqueue wrappers of \<^verbatim>\<open>compat/syscall_wrapper.c\<close>).

  \<^item> \<^emph>\<open>Descriptors\<close> (\<^verbatim>\<open>sys/kern/kern_descrip.c\<close>).  \<open>Filedesc\<close>: bitmap,
    array and hint; \<open>Filedesc_Props\<close> interprets \<open>refinement\<close> on it (\<open>fdr\<close>): the table
    behaves like a set of used numbers with a map to files.  \<open>Descrip\<close>, \<open>Descrip_Props\<close>:
    \<open>kern_close\<close>, \<open>kern_dup\<close> and the creation of kqueues and eventfds over the table and
    the event queue, with the step relation \<open>proc_step\<close> of a process.

  \<^item> \<^emph>\<open>Translation\<close> (\<open>Wrapper\<close>, \<open>Wrapper_Props\<close>;
    \<^verbatim>\<open>compat/syscall_wrapper.c\<close>): requests of \<^verbatim>\<open>ioctl\<close>, socket
    options, socket addresses, and the socket wrappers with the kernel entry points as arguments.

  \<^item> \<^emph>\<open>Calendar\<close> (\<open>Calendar\<close>; \<^verbatim>\<open>sys/kern/subr_clock.c\<close>).

  \<^bold>\<open>What is shown.\<close>  Registration has exactly the documented outcomes and never makes a second
  knote for a key; a scan reports pending enabled knotes in order, each at most once, and counts
  them; closing a descriptor leaves no knote of it in any queue, so that in every reachable state a
  fresh descriptor is watched by nobody; draining empties a queue.  A user event and a write to an
  eventfd are delivered by the next wait.  The count of an eventfd is conserved over every sequence
  of reads and writes and does not wrap.  The descriptor table refines its specification.  Moves of
  data, dates and addresses have their round trips.  Requests and options that reach the kernel are
  well formed and not mixed up, with the exceptions stated there.

  \<^bold>\<open>Conventions.\<close>  Integers that may wrap are words; others are \<open>int\<close> or \<open>nat\<close>.
  Locks are not in the state: an operation is what runs between two points at which the code gives
  up the lock of the kqueue, and a sleep is a result (\<open>KSleep\<close>, \<open>Scan_sleep\<close>,
  \<open>Drop_sleep\<close>, \<open>FF_sleep\<close>) with the state at that moment.  \<open>None\<close> in the descriptor
  table and in the moves of data is an access outside an array; the properties show that it does not
  occur.

  \<^bold>\<open>Fuel.\<close>  \<open>kqueue_scan_loop\<close> gets one unit per element of the queue and one for its own
  marker: every step takes one element off the front, and re-queued knotes go behind the marker, at
  which the loop ends.  \<open>kqueue_scan_retry\<close> passes its label at most twice, because a scan that
  finds no event leaves the queue empty.  That the fuel suffices is part of the properties (the
  result is never \<open>Scan_fault\<close> or \<open>FF_fault\<close>).  All other loops are total functions.

  \<^bold>\<open>Not modelled.\<close>  The network protocols, mbufs and drivers (the filters read the fields of a
  socket that matter, which are in the model); allocators (one flag says whether an allocation
  fails); threads, locks and the callout wheel (primitives of the host; the expiry of a timer is an
  operation); virtual memory and the machine layer (one address space); initialisation, sysctl,
  logging and the virtual Ethernet device (order of the linker, output and input of the host); the
  wrappers that only hand on their arguments, messages with control data and routes; the sharing of
  descriptor tables by \<^verbatim>\<open>fork\<close>, capability rights and advisory locks.
\<close>

section \<open>From a write to an event\<close>

text \<open>
  C6: A program that writes to an eventfd wakes the one that waits for it.  Take an eventfd with
  an enabled read knote in an epoll instance with nothing pending, in which every other knote on
  the same eventfd is disabled (what \<open>EPOLL_CTL_ADD\<close> with \<open>EPOLLIN\<close> leaves).  When
  eight bytes with a value other than zero that fits are written with \<open>ff_write\<close>, the call
  returns 8, and the next \<open>vos_epoll_wait\<close>, whatever its timeout, returns at once with exactly
  one event: \<open>EPOLLIN\<close>, with the data of the registration unless that is zero.
\<close>

theorem eventfd_write_epoll:
  assumes "kern_inv s" "kq_fd s epfd q" "kq_head (kqs s q) = []"
    and "0 \<le> fd" "k_fdt s (nat fd) = Some fp" "f_type (k_files s fp) = DTYPE_EVENTFD" "e = fp_efd s fp"
    and "efd_watch e s" "(q, k) \<in> set (knl_get (Knl_efd e) s)" "kq_notes (kqs s q) k = Some kn"
    and "kn_fop kn = Eventfd_rfiltops" "kn_hook kn = Some e" "kn_filter kn = EVFILT_READ"
    and "KN_DISABLED \<notin> kn_status kn" "\<not> fl (kn_flags kn) EV_DROP" "\<not> fl (kn_flags kn) EV_ONESHOT"
    and "\<forall>j. (q, j) \<in> set (knl_get (Knl_efd e) s) \<longrightarrow> j = k \<or> has_st KN_DISABLED (kqs s q) j"
    and "v = mem_u64 mem buf" "v \<noteq> 0" "efd_val e s + unat v < unat UINT64_MAX"
    and "1 \<le> maxevents" "-1 \<le> timeout"
    and "ff_write oflag owrite sigpipe fd buf 8 mem s = Some (r1, s1)"
    and "vos_epoll_wait kern_ops clk td epfd (Some evs) maxevents timeout s1 = (r2, evo, s2)"
  shows "r1 = FF_ret 8 \<and> r2 = FF_ret 1 \<and>
    (\<exists>ev. evo = Some (evs(0 := ev)) \<and> fl (ep_events ev) SO_EPOLLIN \<and>
      (ke_udata (kn_kevent kn) \<noteq> 0 \<longrightarrow> ep_data ev = ke_udata (kn_kevent kn)))"
proof -
  obtain u where w: "r1 = FF_ret 8" "kqs u = kqs s" "k_knl u = k_knl s"
    "efd_count (w_efd (k_w u) e) = efd_count (w_efd (k_w s) e) + v"
    "kqs s1 = kqs (efd_notify e u)" "k_w s1 = k_w (efd_notify e u)" "k_fdt s1 = k_fdt s"
    "\<And>i. f_type (k_files s1 i) = f_type (k_files s i)" "\<And>i. f_data (k_files s1 i) = f_data (k_files s i)"
    using ff_write_efd [OF assms(4-7,18,20), of oflag owrite sigpipe] assms(23) by auto
  define c where "c = efd_count (w_efd (k_w u) e)"
  have c: "c \<noteq> 0"
    using efd_sum_nonzero [OF assms(20,19)] by (simp add: c_def w(4))
  have u: "kern_inv u" "efd_watch e u" "(q, k) \<in> set (knl_get (Knl_efd e) u)" "kq_notes (kqs u q) k = Some kn"
    "kq_head (kqs u q) = []" "\<forall>j. (q, j) \<in> set (knl_get (Knl_efd e) u) \<longrightarrow> j = k \<or> has_st KN_DISABLED (kqs u q) j"
    using assms(1,3,8-10,17) by (simp_all add: kern_inv_def efd_watch_def live_def knl_get_def w(2,3))
  note no = efd_notify_single [OF u(1-4) assms(11,12,14) u(5,6) c_def c, folded w(5)]
  obtain st where st: "kq_notes (kqs s1 q) k = Some ((set_data c kn)\<lparr>kn_status := st\<rparr>)" "KN_DISABLED \<notin> st"
    using no(3) by blast
  have "kq_inv (kqs s1 q)" "kq_fd s1 epfd q"
    using no(1,4) assms(2) by (simp_all add: kern_inv_def kq_fd_def w(2,5,7-9))
  moreover have "c = efd_count (w_efd (k_w s1) e)"
    by (simp add: w(6) efd_notify_efd c_def)
  ultimately have r: "r2 = FF_ret 1 \<and> evo = Some (evs(0 := vos_event_to_epoll ((kn_kevent kn)\<lparr>ke_data := c\<rparr>) (evs 0)))"
    using epoll_wait_single [OF _ _ no(2) st(1) _ _ _ _ c _ _ assms(21,22,24)] assms(11,12,15,16) st(2)
    by (simp add: set_data_def)
  then show ?thesis
    using w(1) c assms(13) read_event_epoll [of "(kn_kevent kn)\<lparr>ke_data := c\<rparr>" "evs 0"] by auto
qed

text \<open>The instance at descriptor 3 that watches the eventfd at descriptor 4 for input.\<close>

lemma ep_one_more:
  "kern_inv ep_one" "fp_efd ep_one 7 = 0" "efd_val 0 ep_one = 0" "knl_get (Knl_efd 0) ep_one = [(0, 1), (0, 0)]"
  "efd_watch 0 ep_one" "mem_u64 ((\<lambda>_. 0)(64 := 4)) 64 = 4"
proof -
  have "kqs ep_one q = kqueue_init" if "q \<noteq> 0" for q
    using that by (simp add: ep_one_def ep_eval)
  then show "kern_inv ep_one"
    using ep_one_inv(1) kq_inv_init by (metis kern_inv_def)
  show "fp_efd ep_one 7 = 0" "efd_val 0 ep_one = 0"
    by (simp_all add: fp_efd_def efd_val_def ep_one_def ep_eval)
  show knl: "knl_get (Knl_efd 0) ep_one = [(0, 1), (0, 0)]"
    by (simp add: knl_get_def ep_one_state)
  show "efd_watch 0 ep_one"
    by (simp add: efd_watch_def knl live_def ep_one_state)
  show "mem_u64 ((\<lambda>_. 0)(64 := 4)) 64 = 4"
    by (simp add: mem_u64_def copyin_def le_word_def upt_rec)
qed

theorem eventfd_write_epoll_witness:
  "\<exists>s1 ev s2. ff_write (\<lambda>_. 0) (\<lambda>_ _ _ _. None) id 4 64 8 ((\<lambda>_. 0)(64 := 4)) ep_one = Some (FF_ret 8, s1) \<and>
     vos_epoll_wait kern_ops clk0 0 3 (Some (\<lambda>_. ep_in)) 4 (-1) s1 = (FF_ret 1, Some ((\<lambda>_. ep_in)(0 := ev)), s2) \<and>
     fl (ep_events ev) SO_EPOLLIN"
proof -
  let ?m = "(\<lambda>_. 0)(64 := 4) :: memory"
  let ?kn = "ep_kn EVFILT_READ Eventfd_rfiltops {}"
  have fd: "k_fdt ep_one (nat 4) = Some 7" "(0 :: int) \<le> 4"
    by (simp_all add: ep_one_state)
  obtain r1 s1 where w: "ff_write (\<lambda>_. 0) (\<lambda>_ _ _ _. None) id 4 64 8 ?m ep_one = Some (r1, s1)"
    using ff_write_efd [OF fd(2,1) ep_one_state(7) refl refl, of ?m 64 "\<lambda>_. 0" "\<lambda>_ _ _ _. None" id] ep_one_more
    by auto
  obtain r2 evo s2 where e: "vos_epoll_wait kern_ops clk0 0 3 (Some (\<lambda>_. ep_in)) 4 (-1) s1 = (r2, evo, s2)"
    by (metis prod_cases3)
  have hd: "kq_head (kqs ep_one 0) = []" "kq_notes (kqs ep_one 0) 0 = Some ?kn" "has_st KN_DISABLED (kqs ep_one 0) 1"
    by (simp_all add: ep_one_state has_st_def ep_kn_def) (simp add: kqueue_init_def)
  have kn: "kn_fop ?kn = Eventfd_rfiltops" "kn_hook ?kn = Some 0" "kn_filter ?kn = EVFILT_READ" "KN_DISABLED \<notin> kn_status ?kn"
    "\<not> fl (kn_flags ?kn) EV_DROP" "\<not> fl (kn_flags ?kn) EV_ONESHOT"
    by (simp_all add: ep_kn_def EV_SET_def fl_def)
  show ?thesis
    using eventfd_write_epoll [OF ep_one_more(1) ep_one_inv(4) hd(1) fd(2,1) ep_one_state(7)
        ep_one_more(2) [symmetric] ep_one_more(5) _ hd(2) kn(1-6) _ ep_one_more(6) [symmetric] _ _ _ _ w e] w e hd(3)
    by (auto simp: ep_one_more(3,4))
qed

end
